(* ===== verification/Ant_Prelude.thy ===== *)
theory Ant_Prelude
  imports Main "HOL-Library.Word" "HOL-Library.Monad_Syntax"
begin

text \<open>
  Shared vocabulary of the development: the machine types of the Go sources, the outcome of a
  Go call, slices and the built-in \<open>copy\<close>, and the little-endian codecs of
  \<open>encoding/binary\<close>.

  \<^item> A call that can hit a run-time panic (slice bounds, nil dereference) returns
    \<open>'a go\<close>: \<open>None\<close> is the panic, \<open>Some r\<close> a normal return.
  \<^item> An \<open>error\<close> result is a value: \<open>go_error option\<close> where Go returns only an
    error (\<open>None\<close> is nil), and \<open>go_error + 'a\<close> where it returns a value or an error.
  \<^item> Mutation through a pointer is explicit: the operation returns the new object, also on the
    branches that return an error.
\<close>

unbundle bit_operations_syntax

section \<open>Types\<close>

type_synonym byte = "8 word"
type_synonym bytes = "8 word list"
type_synonym u16 = "16 word"
type_synonym u32 = "32 word"
type_synonym u64 = "64 word"
type_synonym 'a go = "'a option"

text \<open>The error values of the modelled packages, one constructor per message.\<close>

datatype go_error =
    ErrHeaderTruncated        \<comment> \<open>packet header truncated\<close>
  | ErrInsufficientHeader     \<comment> \<open>insufficient data for header\<close>
  | ErrPrependCapacity        \<comment> \<open>buffer capacity insufficient to prepend header\<close>
  | ErrTagCapacity            \<comment> \<open>buffer capacity insufficient for aead tag overhead\<close>
  | ErrShorterThanTag         \<comment> \<open>ciphertext length shorter than authentication tag\<close>
  | ErrAuthFailed             \<comment> \<open>aead authentication failed\<close>
  | ErrKeySize                \<comment> \<open>aead key must be exactly 32 bytes\<close>
  | ErrUnsupportedSuite byte  \<comment> \<open>unsupported cipher suite\<close>
  | ErrReplay                 \<comment> \<open>packet rejected by anti-replay window\<close>
  | ErrContributory           \<comment> \<open>invalid Curve25519 public key (contributory point)\<close>
  | ErrRandom                 \<comment> \<open>failed to generate random bytes\<close>
  | ErrKeyFormat              \<comment> \<open>neither base64 nor hex\<close>
  | ErrKeyLength nat          \<comment> \<open>invalid key length\<close>
  | ErrInitShort              \<comment> \<open>initiation message too short\<close>
  | ErrRespShort              \<comment> \<open>response message too short\<close>
  | ErrStaticDecrypt          \<comment> \<open>failed to decrypt initiator static key\<close>
  | ErrPayloadDecrypt         \<comment> \<open>failed to decrypt initiation payload\<close>
  | ErrRespAuth               \<comment> \<open>failed to authenticate response payload\<close>
  | ErrPadCapacity            \<comment> \<open>buffer capacity exceeded for padding\<close>
  | ErrUnpadShort             \<comment> \<open>buffer too short for unpadding\<close>
  | ErrPadMetadata            \<comment> \<open>invalid padding length metadata\<close>
  | ErrClientDisconnected     \<comment> \<open>tls/ws client disconnected\<close>
  | ErrNoConnection string    \<comment> \<open>no active connection for target\<close>
  | ErrTransportClosed        \<comment> \<open>transport closed\<close>
  | ErrShortWrite             \<comment> \<open>short udp write\<close>
  | ErrURLScheme              \<comment> \<open>invalid URL scheme\<close>
  | ErrURLFormat              \<comment> \<open>invalid URL format\<close>
  | ErrOS string              \<comment> \<open>an error of the operating system or network, wrapped in this message\<close>

lemma unat_byte_less: "unat (b :: byte) < 256"
  using unsigned_less [of b, where 'a = nat] by simp

section \<open>Collections of rewrite rules\<close>

named_theorems codec_simps \<open>encoders and decoders of fixed-width integers\<close>
named_theorems buf_simps \<open>effects of buffer operations on the valid bytes\<close>
named_theorems len_simps \<open>lengths of encoded data\<close>

section \<open>Sequences of calls\<close>

text \<open>A call per element of a list, on a state; a panic ends it.\<close>

primrec feed :: "('b \<Rightarrow> 's \<Rightarrow> 's go) \<Rightarrow> 'b list \<Rightarrow> 's \<Rightarrow> 's go" where
  "feed f [] st = Some st"
| "feed f (b # bs) st = Option.bind (f b st) (feed f bs)"

lemma feed_append: "feed f (xs @ ys) st = Option.bind (feed f xs st) (feed f ys)"
proof (induction xs arbitrary: st)
  case (Cons x xs)
  then show ?case by (cases "f x st") simp_all
qed simp

lemma feed_snoc: "feed f (xs @ [x]) st = Option.bind (feed f xs st) (f x)"
  by (simp add: feed_append) (cases "feed f xs st"; simp; cases "f x (the (feed f xs st))"; simp)

text \<open>An invariant that every call keeps makes the whole sequence return.\<close>

lemma feed_inv:
  assumes "\<And>b st. b \<in> set bs \<Longrightarrow> I st \<Longrightarrow> \<exists>st'. f b st = Some st' \<and> I st'" and "I st"
  shows "\<exists>st'. feed f bs st = Some st' \<and> I st'"
  using assms
proof (induction bs arbitrary: st)
  case Nil
  then show ?case by simp
next
  case (Cons b bs)
  from Cons.prems(1) [of b st] Cons.prems(2) obtain st1 where "f b st = Some st1" "I st1" by auto
  moreover from Cons.IH [of st1] Cons.prems(1) \<open>I st1\<close> obtain st' where "feed f bs st1 = Some st'" "I st'" by auto
  ultimately show ?case by simp
qed

section \<open>Loops\<close>

text \<open>
  A loop without a condition, over its rounds: the state it returns with and the round in which it does; a panic ends it
  with the state \<open>None\<close>.
\<close>

partial_function (option) run_rounds :: "(nat \<Rightarrow> 's \<Rightarrow> (bool \<times> 's) go) \<Rightarrow> nat \<Rightarrow> 's \<Rightarrow> (nat \<times> 's go) option" where
  "run_rounds f k st =
     (case f k st of
        None \<Rightarrow> Some (k, None)
      | Some (goes_on, st1) \<Rightarrow> if goes_on then run_rounds f (Suc k) st1 else Some (k, Some st1))"

text \<open>
  A loop whose rounds keep an invariant and never panic, and where the round \<open>k\<close> decides on its own to go on: it returns if and only if
  some round does not go on, and then in the first such round.
\<close>

lemma run_rounds_step: "f k st = Some (goes_on, st1) \<Longrightarrow> run_rounds f k st = (if goes_on then run_rounds f (Suc k) st1 else Some (k, Some st1))"
  by (subst run_rounds.simps) simp

lemma run_rounds_ends:
  assumes step: "\<And>k st. I st \<Longrightarrow> \<exists>st1. f k st = Some (goes k, st1) \<and> I st1" and "I st"
    and stop: "k \<le> n" "\<not> goes n" "\<forall>i. k \<le> i \<and> i < n \<longrightarrow> goes i"
  shows "\<exists>st1. run_rounds f k st = Some (n, Some st1) \<and> I st1"
  using stop(1,3) \<open>I st\<close>
proof (induction "n - k" arbitrary: k st)
  case 0
  then show ?case using step [of st k] stop(2) run_rounds_step [of f k st] by auto
next
  case (Suc d)
  obtain st1 where st1: "f k st = Some (goes k, st1)" "I st1" using step [OF Suc.prems(3)] by blast
  have "goes k" using Suc.hyps(2) Suc.prems(1,2) by auto
  moreover have "\<exists>st2. run_rounds f (Suc k) st1 = Some (n, Some st2) \<and> I st2"
    using Suc.hyps(1) [of "Suc k" st1] Suc.hyps(2) Suc.prems st1(2) by auto
  ultimately show ?case using run_rounds_step [of f k st, OF st1(1)] by simp
qed

lemma run_rounds_returned:
  assumes step: "\<And>k st. I st \<Longrightarrow> \<exists>st1. f k st = Some (goes k, st1) \<and> I st1"
  shows "run_rounds f k st = Some r \<Longrightarrow> I st \<Longrightarrow> \<exists>i. k \<le> i \<and> \<not> goes i"
proof -
  have "g = f \<longrightarrow> I st \<longrightarrow> (\<exists>i. k \<le> i \<and> \<not> goes i)" if "run_rounds g k st = Some r" for g k st r
  proof (rule run_rounds.raw_induct [OF _ that], intro impI, goal_cases)
    case (1 rec g k st r)
    then obtain st1 where st1: "f k st = Some (goes k, st1)" "I st1" using step by blast
    show ?case
    proof (cases "goes k")
      case True
      then have "rec f (Suc k) st1 = Some r" using 1 st1 by simp
      from 1(1) [OF this] st1(2) show ?thesis by (meson Suc_leD)
    qed auto
  qed
  then show "run_rounds f k st = Some r \<Longrightarrow> I st \<Longrightarrow> \<exists>i. k \<le> i \<and> \<not> goes i" by blast
qed

lemma run_rounds_iff:
  assumes step: "\<And>k st. I st \<Longrightarrow> \<exists>st1. f k st = Some (goes k, st1) \<and> I st1" and st: "I st"
  shows "run_rounds f 0 st = None \<longleftrightarrow> (\<forall>k. goes k)"
    and "\<not> goes n \<Longrightarrow> (\<forall>i < n. goes i) \<Longrightarrow> \<exists>st1. run_rounds f 0 st = Some (n, Some st1) \<and> I st1"
proof -
  show *: "\<exists>st1. run_rounds f 0 st = Some (n, Some st1) \<and> I st1" if "\<not> goes n" "\<forall>i < n. goes i" for n
    using run_rounds_ends [where I = I and f = f and goes = goes, OF step st _ that(1)] that(2) by simp
  show "run_rounds f 0 st = None \<longleftrightarrow> (\<forall>k. goes k)"
  proof
    assume none: "run_rounds f 0 st = None"
    show "\<forall>k. goes k"
    proof (rule ccontr)
      assume "\<not> (\<forall>k. goes k)"
      then obtain n where "\<not> goes n" "\<forall>i < n. goes i" using exists_least_iff [of "\<lambda>k. \<not> goes k"] by blast
      from * [OF this] none show False by simp
    qed
  next
    assume "\<forall>k. goes k"
    then show "run_rounds f 0 st = None" using run_rounds_returned [where I = I and f = f and goes = goes, OF step _ st] by (cases "run_rounds f 0 st") blast+
  qed
qed

section \<open>Slices\<close>

text \<open>\<open>xs[i:j]\<close>: panics unless \<open>i \<le> j \<le> len(xs)\<close> (every sliced array here has capacity equal to its length).\<close>

definition slice :: "'a list \<Rightarrow> nat \<Rightarrow> nat \<Rightarrow> 'a list go" where
  "slice xs i j = (if i \<le> j \<and> j \<le> length xs then Some (take (j - i) (drop i xs)) else None)"

text \<open>\<open>xs[i]\<close>: panics out of range.\<close>

definition index :: "'a list \<Rightarrow> nat \<Rightarrow> 'a go" where
  "index xs i = (if i < length xs then Some (xs ! i) else None)"

text \<open>The built-in \<open>copy(dst, src)\<close> on a whole slice: overwrites the first \<open>min\<close> elements.\<close>

definition go_copy :: "'a list \<Rightarrow> 'a list \<Rightarrow> 'a list" where
  "go_copy dst src = take (length dst) src @ drop (length src) dst"

text \<open>Overwriting the elements of \<open>xs\<close> from position \<open>i\<close> on; the writer has checked the bounds.\<close>

definition store_at :: "'a list \<Rightarrow> nat \<Rightarrow> 'a list \<Rightarrow> 'a list" where
  "store_at xs i ys = take i xs @ ys @ drop (i + length ys) xs"

lemma slice_Some_iff: "slice xs i j = Some ys \<longleftrightarrow> i \<le> j \<and> j \<le> length xs \<and> ys = take (j - i) (drop i xs)"
  by (auto simp: slice_def)

lemma slice_None_iff: "slice xs i j = None \<longleftrightarrow> \<not> (i \<le> j \<and> j \<le> length xs)"
  by (simp add: slice_def)

lemma length_slice: "slice xs i j = Some ys \<Longrightarrow> length ys = j - i"
  by (auto simp: slice_Some_iff)

lemma length_go_copy [simp]: "length (go_copy dst src) = length dst"
  by (simp add: go_copy_def)

lemma go_copy_full [simp]: "length src = length dst \<Longrightarrow> go_copy dst src = src"
  by (simp add: go_copy_def)

lemma take_go_copy: "length src \<le> length dst \<Longrightarrow> take (length src) (go_copy dst src) = src"
  by (simp add: go_copy_def)

lemma length_store_at [simp]: "i + length ys \<le> length xs \<Longrightarrow> length (store_at xs i ys) = length xs"
  by (simp add: store_at_def)

lemma take_drop_store_at:
  "i + length ys \<le> length xs \<Longrightarrow> take (length ys) (drop i (store_at xs i ys)) = ys"
  by (simp add: store_at_def)

lemma take_drop_store_at_prefix:
  "n \<le> length ys \<Longrightarrow> i + length ys \<le> length xs \<Longrightarrow> take n (drop i (store_at xs i ys)) = take n ys"
  by (simp add: store_at_def)

lemma take_drop_store_at_right:
  "i + length ys \<le> j \<Longrightarrow> i + length ys \<le> length xs \<Longrightarrow> drop j (store_at xs i ys) = drop j xs"
  by (simp add: store_at_def min_def)

lemma take_drop_store_at_left:
  "j + n \<le> i \<Longrightarrow> i \<le> length xs \<Longrightarrow> take n (drop j (store_at xs i ys)) = take n (drop j xs)"
  by (rule nth_equalityI) (auto simp: store_at_def nth_append)

section \<open>Little-endian integers\<close>

text \<open>
  \<open>binary.LittleEndian.PutUint\<open>n\<close>\<close> writes \<open>byte(v)\<close>, \<open>byte(v >> 8)\<close>, \dots;
  \<open>binary.LittleEndian.Uint\<open>n\<close>\<close> reads \<open>b[0] | b[1] << 8 | \<dots>\<close>.
\<close>

definition put_le :: "nat \<Rightarrow> 'w::len word \<Rightarrow> bytes" where
  "put_le n v = map (\<lambda>i. ucast (drop_bit (8 * i) v)) [0..<n]"

primrec get_le :: "bytes \<Rightarrow> 'w::len word" where
  "get_le [] = 0"
| "get_le (b # bs) = ucast b OR push_bit 8 (get_le bs)"

definition PutUint16 :: "u16 \<Rightarrow> bytes" where "PutUint16 v = put_le 2 v"
definition PutUint32 :: "u32 \<Rightarrow> bytes" where "PutUint32 v = put_le 4 v"
definition PutUint64 :: "u64 \<Rightarrow> bytes" where "PutUint64 v = put_le 8 v"
definition Uint16 :: "bytes \<Rightarrow> u16" where "Uint16 bs = get_le (take 2 bs)"
definition Uint32 :: "bytes \<Rightarrow> u32" where "Uint32 bs = get_le (take 4 bs)"
definition Uint64 :: "bytes \<Rightarrow> u64" where "Uint64 bs = get_le (take 8 bs)"

lemma length_put_le [simp]: "length (put_le n v) = n"
  by (simp add: put_le_def)

lemma length_PutUint [simp, len_simps]:
  "length (PutUint16 a) = 2" "length (PutUint32 b) = 4" "length (PutUint64 c) = 8"
  by (simp_all add: PutUint16_def PutUint32_def PutUint64_def)

lemma bit_get_le:
  "bit (get_le bs :: 'w::len word) k \<longleftrightarrow>
     k < LENGTH('w) \<and> k < 8 * length bs \<and> bit (bs ! (k div 8)) (k mod 8)"
proof (induction bs arbitrary: k)
  case Nil
  then show ?case by simp
next
  case (Cons b bs)
  show ?case
  proof (cases "k < 8")
    case True
    then show ?thesis by (auto simp: bit_simps)
  next
    case False
    then obtain j where k: "k = j + 8" by (metis add.commute le_Suc_ex not_less)
    have "\<not> bit b k" using False bit_imp_le_length [of b k] by auto
    moreover have "(j + 8) div 8 = Suc (j div 8)" by simp
    ultimately show ?thesis using Cons.IH [of j] k by (auto simp: bit_simps)
  qed
qed

lemma get_le_put_le:
  assumes "LENGTH('w::len) \<le> 8 * n"
  shows "get_le (put_le n v) = (v :: 'w word)"
proof (rule bit_word_eqI)
  fix k assume k: "k < LENGTH('w)"
  then have "k div 8 < n" using assms by (simp add: less_mult_imp_div_less mult.commute)
  moreover have "8 * (k div 8) + k mod 8 = k" by simp
  ultimately show "bit (get_le (put_le n v) :: 'w word) k = bit v k"
    using k assms by (simp add: bit_get_le put_le_def bit_simps)
qed

lemma put_le_get_le:
  assumes "8 * length bs \<le> LENGTH('w::len)"
  shows "put_le (length bs) (get_le bs :: 'w word) = bs"
proof (rule nth_equalityI)
  show "length (put_le (length bs) (get_le bs :: 'w word)) = length bs" by simp
next
  fix i assume "i < length (put_le (length bs) (get_le bs :: 'w word))"
  then have i: "i < length bs" by simp
  show "put_le (length bs) (get_le bs :: 'w word) ! i = bs ! i"
  proof (rule bit_word_eqI)
    fix k assume "k < LENGTH(8)"
    then have k: "k < 8" by simp
    have "(8 * i + k) div 8 = i" "(8 * i + k) mod 8 = k" using k by auto
    moreover have "8 * i + k < LENGTH('w)" using i k assms by linarith
    moreover have "8 * i + k < 8 * length bs" using i k by linarith
    ultimately show "bit (put_le (length bs) (get_le bs :: 'w word) ! i) k = bit (bs ! i) k"
      using i k by (simp add: put_le_def bit_simps bit_get_le)
  qed
qed

lemma Uint_PutUint [simp, codec_simps]:
  "Uint16 (PutUint16 a) = a" "Uint32 (PutUint32 b) = b" "Uint64 (PutUint64 c) = c"
  by (simp_all add: Uint16_def PutUint16_def Uint32_def PutUint32_def Uint64_def PutUint64_def
      get_le_put_le)

lemma Uint_PutUint_append [simp, codec_simps]:
  "Uint16 (PutUint16 a @ xs) = a" "Uint32 (PutUint32 b @ xs) = b" "Uint64 (PutUint64 c @ xs) = c"
  by (simp_all add: Uint16_def PutUint16_def Uint32_def PutUint32_def Uint64_def PutUint64_def
      get_le_put_le)

lemma PutUint_Uint [codec_simps]:
  "length bs = 2 \<Longrightarrow> PutUint16 (Uint16 bs) = bs"
  "length bs = 4 \<Longrightarrow> PutUint32 (Uint32 bs) = bs"
  "length bs = 8 \<Longrightarrow> PutUint64 (Uint64 bs) = bs"
  using put_le_get_le [of bs, where 'w = 16] put_le_get_le [of bs, where 'w = 32]
    put_le_get_le [of bs, where 'w = 64]
  by (simp_all add: Uint16_def PutUint16_def Uint32_def PutUint32_def Uint64_def PutUint64_def)

lemma PutUint_inject [simp]:
  "PutUint16 a = PutUint16 a' \<longleftrightarrow> a = a'" "PutUint32 b = PutUint32 b' \<longleftrightarrow> b = b'"
  "PutUint64 c = PutUint64 c' \<longleftrightarrow> c = c'"
  by (metis Uint_PutUint(1), metis Uint_PutUint(2), metis Uint_PutUint(3))

end
