(* ===== verification/Ant_Buffer.thy ===== *)
theory Ant_Buffer
  imports Ant_Prelude
begin

text \<open>
  Package \<open>pkg/buffer\<close> (\<open>pool.go\<close>): the packet buffer that every stage of the tunnel
  mutates in place, and the \<open>sync.Pool\<close> it is recycled through.

  \<open>Length\<close> and \<open>Offset\<close> are Go ints that every stage sets to non-negative values, so
  they are naturals; each subtraction of the sources stands behind the check that makes it exact.
  The backing array comes from \<open>make([]byte, n)\<close> and is never re-sliced, so its capacity is
  its length.
\<close>

section \<open>PacketBuffer\<close>

record PacketBuffer =
  Data :: bytes
  Length :: nat
  Offset :: nat

definition DefaultBufferSize :: nat where "DefaultBufferSize = 2048"
definition MaxPacketSize :: nat where "MaxPacketSize = 65535"

definition Bytes :: "PacketBuffer \<Rightarrow> bytes go" where
  "Bytes b = slice (Data b) (Offset b) (Offset b + Length b)"

definition Reset :: "PacketBuffer \<Rightarrow> PacketBuffer" where
  "Reset b = b\<lparr>Offset := 0, Length := 0\<rparr>"

text \<open>Well-formed: the valid region lies inside the backing array.\<close>

definition wf_buf :: "PacketBuffer \<Rightarrow> bool" where
  "wf_buf b \<longleftrightarrow> Offset b + Length b \<le> length (Data b)"

text \<open>The bytes of the valid region, as a total function.\<close>

definition content :: "PacketBuffer \<Rightarrow> bytes" where
  "content b = take (Length b) (drop (Offset b) (Data b))"

lemma Bytes_wf [simp]: "wf_buf b \<Longrightarrow> Bytes b = Some (content b)"
  by (simp add: Bytes_def wf_buf_def slice_def content_def)

lemma Bytes_panic_iff: "Bytes b = None \<longleftrightarrow> \<not> wf_buf b"
  by (simp add: Bytes_def wf_buf_def slice_def)

lemma Bytes_Some_iff: "Bytes b = Some bs \<longleftrightarrow> wf_buf b \<and> bs = content b"
  by (metis Bytes_panic_iff Bytes_wf option.distinct(1) option.inject)

lemma length_content [simp, len_simps]: "wf_buf b \<Longrightarrow> length (content b) = Length b"
  by (simp add: content_def wf_buf_def)

lemma content_nonempty: "wf_buf b \<Longrightarrow> 0 < Length b \<Longrightarrow> content b \<noteq> []"
  by (metis length_content less_irrefl list.size(3))

lemma wf_Reset [simp]: "wf_buf (Reset b)"
  by (simp add: wf_buf_def Reset_def)

lemma content_Reset [simp]: "content (Reset b) = []"
  by (simp add: content_def Reset_def)

lemma Data_Reset [simp]: "Data (Reset b) = Data b"
  by (simp add: Reset_def)

text \<open>A buffer filled from the front, as the packet loops do: \<open>copy(buf.Data, msg); buf.Length = len(msg)\<close>.\<close>

definition fill :: "PacketBuffer \<Rightarrow> bytes \<Rightarrow> PacketBuffer" where
  "fill b msg = b\<lparr>Data := go_copy (Data b) msg, Length := length msg\<rparr>"

lemma fill_fits:
  assumes "length msg \<le> length (Data b)" "Offset b = 0"
  shows "wf_buf (fill b msg)" "content (fill b msg) = msg" "Length (fill b msg) = length msg"
    "Offset (fill b msg) = 0" "length (Data (fill b msg)) = length (Data b)"
  using assms by (simp_all add: fill_def wf_buf_def content_def take_go_copy)

lemma fill_overflow:
  "Offset b = 0 \<Longrightarrow> length (Data b) < length msg \<Longrightarrow> Bytes (fill b msg) = None"
  by (simp add: Bytes_panic_iff wf_buf_def fill_def)

section \<open>Interface of an in-place stage\<close>

text \<open>
  The contract every in-place stage of the tunnel offers its caller: on a well-formed buffer it
  returns (no bounds panic), leaves a well-formed buffer and never changes the capacity.
\<close>

locale buffer_stage =
  fixes stage :: "PacketBuffer \<Rightarrow> PacketBuffer go"
  assumes total: "wf_buf b \<Longrightarrow> \<exists>b'. stage b = Some b'"
    and keeps_wf: "wf_buf b \<Longrightarrow> stage b = Some b' \<Longrightarrow> wf_buf b'"
    and keeps_cap: "wf_buf b \<Longrightarrow> stage b = Some b' \<Longrightarrow> length (Data b') = length (Data b)"
begin

lemma stageE:
  assumes "wf_buf b"
  obtains b' where "stage b = Some b'" "wf_buf b'" "length (Data b') = length (Data b)"
  using assms total keeps_wf keeps_cap by metis

lemma iterate_ok:
  assumes "wf_buf b"
  shows "\<exists>b'. ((\<lambda>x. Option.bind x stage) ^^ n) (Some b) = Some b' \<and> wf_buf b'
    \<and> length (Data b') = length (Data b)"
proof (induction n)
  case 0
  then show ?case using assms by simp
next
  case (Suc n)
  then obtain b1 where b1: "((\<lambda>x. Option.bind x stage) ^^ n) (Some b) = Some b1" "wf_buf b1"
    "length (Data b1) = length (Data b)" by blast
  from b1(2) obtain b2 where "stage b1 = Some b2" "wf_buf b2" "length (Data b2) = length (Data b1)"
    by (rule stageE)
  then show ?case using b1 by simp
qed

end

text \<open>The same for an operation that also returns a result.\<close>

lemma stage_result:
  assumes "buffer_stage (\<lambda>b. map_option snd (f b))" "wf_buf b"
  shows "\<exists>r b'. f b = Some (r, b') \<and> wf_buf b' \<and> length (Data b') = length (Data b)"
proof -
  from assms obtain b' where "map_option snd (f b) = Some b'" "wf_buf b'" "length (Data b') = length (Data b)"
    by (rule buffer_stage.stageE)
  then show ?thesis by auto
qed

text \<open>A pipeline of stages run one after the other.\<close>

primrec run_stages :: "(PacketBuffer \<Rightarrow> PacketBuffer go) list \<Rightarrow> PacketBuffer \<Rightarrow> PacketBuffer go" where
  "run_stages [] b = Some b"
| "run_stages (s # ss) b = Option.bind (s b) (run_stages ss)"

lemma run_stages_ok:
  "list_all buffer_stage ss \<Longrightarrow> wf_buf b \<Longrightarrow>
     \<exists>b'. run_stages ss b = Some b' \<and> wf_buf b' \<and> length (Data b') = length (Data b)"
proof (induction ss arbitrary: b)
  case Nil
  then show ?case by simp
next
  case (Cons s ss)
  then have "buffer_stage s" by simp
  then obtain b1 where "s b = Some b1" "wf_buf b1" "length (Data b1) = length (Data b)"
    using Cons.prems(2) by (rule buffer_stage.stageE)
  then show ?case using Cons.IH [of b1] Cons.prems by auto
qed

interpretation reset_stage: buffer_stage "\<lambda>b. Some (Reset b)"
  by unfold_locales auto

section \<open>Pool\<close>

text \<open>
  \<open>sync.Pool\<close> keeps an unordered collection of free objects, may drop any of them and calls
  \<open>New\<close> when it has none to give. Which object \<open>Get\<close> returns is the scheduler's choice:
  \<open>pick = Some i\<close> takes the \<open>i\<close>-th free buffer, and \<open>pick = None\<close> (or an index
  without a buffer) calls \<open>New\<close>.
\<close>

record Pool =
  pool_free :: "PacketBuffer list"
  pool_size :: nat

definition NewPool :: "int \<Rightarrow> Pool" where
  "NewPool bufferSize =
     (let bufferSize' = (if bufferSize \<le> 0 then int DefaultBufferSize else bufferSize)
      in \<lparr>pool_free = [], pool_size = nat bufferSize'\<rparr>)"

definition pool_New :: "Pool \<Rightarrow> PacketBuffer" where
  "pool_New p = \<lparr>Data = replicate (pool_size p) 0, Length = 0, Offset = 0\<rparr>"

definition GlobalPool :: Pool where
  "GlobalPool = NewPool (int DefaultBufferSize)"

definition Pool_Get :: "Pool \<Rightarrow> nat option \<Rightarrow> PacketBuffer \<times> Pool" where
  "Pool_Get p pick =
     (case pick of
        Some i \<Rightarrow>
          if i < length (pool_free p)
          then (Reset (pool_free p ! i), p\<lparr>pool_free := take i (pool_free p) @ drop (Suc i) (pool_free p)\<rparr>)
          else (Reset (pool_New p), p)
      | None \<Rightarrow> (Reset (pool_New p), p))"

definition Pool_Put :: "Pool \<Rightarrow> PacketBuffer option \<Rightarrow> Pool" where
  "Pool_Put p buf =
     (case buf of None \<Rightarrow> p | Some b \<Rightarrow> p\<lparr>pool_free := Reset b # pool_free p\<rparr>)"

text \<open>The functions of the package, on the state of the global pool.\<close>

definition buffer_Get :: "Pool \<Rightarrow> nat option \<Rightarrow> PacketBuffer \<times> Pool" where
  "buffer_Get global pick =
     (case pick of
        Some i \<Rightarrow>
          if i < length (pool_free global)
          then (Reset (pool_free global ! i), global\<lparr>pool_free := take i (pool_free global) @ drop (Suc i) (pool_free global)\<rparr>)
          else (Reset (pool_New global), global)
      | None \<Rightarrow> (Reset (pool_New global), global))"

definition buffer_Put :: "Pool \<Rightarrow> PacketBuffer option \<Rightarrow> Pool" where
  "buffer_Put global buf =
     (case buf of None \<Rightarrow> global | Some b \<Rightarrow> global\<lparr>pool_free := Reset b # pool_free global\<rparr>)"

lemma buffer_copies [simp]: "buffer_Get = Pool_Get" "buffer_Put = Pool_Put"
  by (intro ext; simp add: buffer_Get_def Pool_Get_def buffer_Put_def Pool_Put_def)+

text \<open>
  A run of a program over one pool: it takes buffers, works on the ones it holds (any stage that
  keeps the capacity), and gives them back.
\<close>

record pool_run =
  the_pool :: Pool
  in_use :: "PacketBuffer list"

inductive pool_step :: "pool_run \<Rightarrow> pool_run \<Rightarrow> bool" where
  get: "Pool_Get (the_pool r) pick = (b, p) \<Longrightarrow>
     pool_step r (r\<lparr>the_pool := p, in_use := b # in_use r\<rparr>)"
| work: "i < length (in_use r) \<Longrightarrow> wf_buf b' \<Longrightarrow> length (Data b') = length (Data (in_use r ! i)) \<Longrightarrow>
     pool_step r (r\<lparr>in_use := (in_use r)[i := b']\<rparr>)"
| put: "i < length (in_use r) \<Longrightarrow>
     pool_step r (r\<lparr>the_pool := Pool_Put (the_pool r) (Some (in_use r ! i)),
                  in_use := take i (in_use r) @ drop (Suc i) (in_use r)\<rparr>)"

inductive pool_reach :: "int \<Rightarrow> pool_run \<Rightarrow> bool" for n where
  start: "pool_reach n \<lparr>the_pool = NewPool n, in_use = []\<rparr>"
| step: "pool_reach n r \<Longrightarrow> pool_step r r' \<Longrightarrow> pool_reach n r'"

inductive_cases pool_stepE: "pool_step r r'"

definition pool_ok :: "nat \<Rightarrow> pool_run \<Rightarrow> bool" where
  "pool_ok n r \<longleftrightarrow> pool_size (the_pool r) = n
     \<and> (\<forall>b \<in> set (pool_free (the_pool r)). length (Data b) = n \<and> Offset b = 0 \<and> Length b = 0)
     \<and> (\<forall>b \<in> set (in_use r). length (Data b) = n \<and> wf_buf b)"

lemma Pool_Get_size: "Pool_Get p pick = (b, p') \<Longrightarrow> pool_size p' = pool_size p"
  by (auto simp: Pool_Get_def split: option.splits if_splits)

lemma Pool_Get_free: "Pool_Get p pick = (b, p') \<Longrightarrow> set (pool_free p') \<subseteq> set (pool_free p)"
  by (auto simp: Pool_Get_def split: option.splits if_splits dest: in_set_takeD in_set_dropD)

lemma Pool_Get_buffer:
  assumes "\<forall>b \<in> set (pool_free p). length (Data b) = pool_size p"
    and "Pool_Get p pick = (b, p')"
  shows "length (Data b) = pool_size p" "Offset b = 0" "Length b = 0"
  using assms by (auto simp: Pool_Get_def pool_New_def Reset_def split: option.splits if_splits)

lemma pool_ok_step:
  assumes "pool_step r r'" "pool_ok n r"
  shows "pool_ok n r'"
  using assms
proof (induction rule: pool_step.induct)
  case (get r pick b p)
  have "\<forall>b \<in> set (pool_free (the_pool r)). length (Data b) = pool_size (the_pool r)"
    using get.prems by (simp add: pool_ok_def)
  note new = Pool_Get_buffer [OF this get.hyps] and keep = Pool_Get_free [OF get.hyps]
  have "wf_buf b" using new by (simp add: wf_buf_def)
  then show ?case using get new keep Pool_Get_size [OF get.hyps] by (auto simp: pool_ok_def)
next
  case (work i r b')
  then show ?case using set_update_subset_insert [of "in_use r" i b'] by (fastforce simp: pool_ok_def)
next
  case (put i r)
  then show ?case
    by (auto simp: pool_ok_def Pool_Put_def Reset_def dest: in_set_takeD in_set_dropD)
qed

lemma pool_reach_ok: "pool_reach n r \<Longrightarrow> pool_ok (if n \<le> 0 then DefaultBufferSize else nat n) r"
proof (induction rule: pool_reach.induct)
  case start
  show ?case by (simp add: pool_ok_def NewPool_def Let_def)
next
  case (step r r')
  then show ?case by (blast intro: pool_ok_step)
qed

section \<open>Properties\<close>

text \<open>
  Buffers keep their capacity through the pool. In every program that takes buffers from a pool,
  works on them within their bounds and returns them, whatever buffers the pool hands out or drops,
  a buffer from \<open>Get\<close> has the size the pool was made with (2048 bytes when a size of zero or
  less was asked for) and is empty.
\<close>

lemma pool_get_fresh:
  assumes "pool_reach n r" "Pool_Get (the_pool r) pick = (b, p)"
  shows "length (Data b) = (if n \<le> 0 then DefaultBufferSize else nat n) \<and> Offset b = 0 \<and> Length b = 0"
proof -
  note ok = pool_reach_ok [OF assms(1), unfolded pool_ok_def]
  then have "\<forall>b \<in> set (pool_free (the_pool r)). length (Data b) = pool_size (the_pool r)" by simp
  from Pool_Get_buffer [OF this assms(2)] ok show ?thesis by simp
qed

end
