(* ===== verification/Ant_Padding.thy ===== *)
theory Ant_Padding
  imports Ant_Buffer
begin

text \<open>
  \<open>pkg/obfuscation/padding.go\<close>: padding of packets to a block size, its removal, and the
  random delay between packets. Random bytes are an argument: \<open>None\<close> when the source fails.
\<close>

section \<open>Operations\<close>

definition DefaultBlockSize :: int where "DefaultBlockSize = 128"
definition MaxBlockSize :: int where "MaxBlockSize = 512"

definition PadPacket ::
  "PacketBuffer \<Rightarrow> int \<Rightarrow> (nat \<Rightarrow> byte) option \<Rightarrow> (go_error option \<times> PacketBuffer) go" where
  "PadPacket buf blockSize rnd =
     (let bs0 = (if blockSize \<le> 0 then DefaultBlockSize else blockSize);
          bs1 = (if MaxBlockSize < bs0 then MaxBlockSize else bs0);
          currentLen = int (Length buf);
          rem = (currentLen + 1) mod bs1;
          padLen = nat (if rem \<noteq> 0 then bs1 - rem else 0);
          totalAdd = padLen + 1
      in if length (Data buf) < Offset buf + Length buf + totalAdd then Some (Some ErrPadCapacity, buf)
         else do {
           targetSlice \<leftarrow> slice (Data buf) (Offset buf + Length buf) (Offset buf + Length buf + padLen);
           (case (if 0 < padLen then map_option (\<lambda>r. map r [0..<padLen]) rnd else Some targetSlice) of
              None \<Rightarrow> Some (Some ErrRandom, buf)
            | Some filled \<Rightarrow>
                let data1 = store_at (Data buf) (Offset buf + Length buf) filled;
                    data2 = data1[Offset buf + Length buf + padLen := of_nat padLen]
                in Some (None, buf\<lparr>Data := data2, Length := Length buf + totalAdd\<rparr>))
         })"

definition UnpadPacket :: "PacketBuffer \<Rightarrow> (go_error option \<times> PacketBuffer) go" where
  "UnpadPacket buf =
     (if Length buf < 1 then Some (Some ErrUnpadShort, buf)
      else do {
        last \<leftarrow> index (Data buf) (Offset buf + Length buf - 1);
        let padLen = unat last;
        let totalAdd = padLen + 1;
        if Length buf < totalAdd then Some (Some ErrPadMetadata, buf)
        else Some (None, buf\<lparr>Length := Length buf - totalAdd\<rparr>)
      })"

text \<open>
  The pause in milliseconds, 0 when the call returns at once. \<open>rand_Int d\<close> is what
  \<open>rand.Int(rand.Reader, d)\<close> returns, \<open>None\<close> for its error.
\<close>

definition ApplyJitter :: "(int \<Rightarrow> int option) \<Rightarrow> int \<Rightarrow> int \<Rightarrow> int" where
  "ApplyJitter rand_Int minMs maxMs =
     (if maxMs \<le> minMs \<or> minMs < 0 then 0
      else case rand_Int (maxMs - minMs) of None \<Rightarrow> 0 | Some n \<Rightarrow> minMs + n)"

section \<open>How much is added\<close>

text \<open>The block size in effect and the padding a payload of \<open>n\<close> bytes gets.\<close>

definition block :: "int \<Rightarrow> nat" where
  "block bs = (if bs \<le> 0 then 128 else if 512 < bs then 512 else nat bs)"

definition pad_len :: "int \<Rightarrow> nat \<Rightarrow> nat" where
  "pad_len bs n = (block bs - (n + 1) mod block bs) mod block bs"

lemma block_pos: "0 < block bs" "block bs \<le> 512"
  by (auto simp: block_def)

lemma pad_len_less: "pad_len bs n < block bs"
  by (simp add: pad_len_def block_pos)

lemma pad_len_multiple: "(n + pad_len bs n + 1) mod block bs = 0"
proof -
  let ?b = "block bs"
  have le: "(n + 1) mod ?b \<le> ?b" using block_pos(1) [of bs] by (simp add: less_imp_le)
  have "n + pad_len bs n + 1 = n + 1 + (?b - (n + 1) mod ?b) mod ?b" by (simp add: pad_len_def)
  then have "(n + pad_len bs n + 1) mod ?b = ((n + 1) mod ?b + (?b - (n + 1) mod ?b)) mod ?b"
    by (simp only: mod_add_right_eq mod_add_left_eq)
  also have "\<dots> = 0" using le by simp
  finally show ?thesis .
qed

lemma pad_len_code:
  assumes "b = int k" "0 < k"
  shows "nat (if (int n + 1) mod b \<noteq> 0 then b - (int n + 1) mod b else 0) = (k - (n + 1) mod k) mod k"
proof -
  have m: "(int n + 1) mod b = int ((n + 1) mod k)" using assms(1) by (simp add: zmod_int add.commute)
  have lt: "(n + 1) mod k < k" using assms(2) by simp
  show ?thesis
  proof (cases "(n + 1) mod k = 0")
    case True
    then show ?thesis using m by simp
  next
    case False
    have "nat (b - int ((n + 1) mod k)) = k - (n + 1) mod k" using assms(1) lt by (simp add: nat_diff_distrib)
    then show ?thesis using m False lt by (simp add: mod_less)
  qed
qed

lemma PadPacket_eq:
  "PadPacket buf bs rnd =
     (let p = pad_len bs (Length buf); e = Offset buf + Length buf
      in if length (Data buf) < e + p + 1 then Some (Some ErrPadCapacity, buf)
         else case (if 0 < p then map_option (\<lambda>r. map r [0..<p]) rnd else Some []) of
                None \<Rightarrow> Some (Some ErrRandom, buf)
              | Some pad \<Rightarrow> Some (None, buf\<lparr>Data := store_at (Data buf) e (pad @ [of_nat p]), Length := Length buf + p + 1\<rparr>))"
proof -
  have b: "(if MaxBlockSize < (if bs \<le> 0 then DefaultBlockSize else bs) then MaxBlockSize
      else (if bs \<le> 0 then DefaultBlockSize else bs)) = int (block bs)"
    by (simp add: block_def MaxBlockSize_def DefaultBlockSize_def)
  note p = pad_len_code [OF refl block_pos(1), of "Length buf" bs, folded pad_len_def]
  define e where "e = Offset buf + Length buf"
  define q where "q = pad_len bs (Length buf)"
  have st: "(store_at (Data buf) e pad)[e + q := x] = store_at (Data buf) e (pad @ [x])"
    if "length pad = q" "e + q + 1 \<le> length (Data buf)" for pad x
    using that by (simp add: store_at_def list_update_append Cons_nth_drop_Suc [symmetric])
  show ?thesis
    unfolding PadPacket_def Let_def b p e_def [symmetric] q_def [symmetric]
    using st [of "[]"] st by (auto simp: slice_def not_less add.assoc split: option.splits)
qed

lemma PadPacket_ok:
  assumes "Offset b + Length b + pad_len bs (Length b) + 1 \<le> length (Data b)"
  shows "\<exists>b' pad. PadPacket b bs (Some r) = Some (None, b') \<and> wf_buf b' \<and> length (Data b') = length (Data b)
    \<and> Offset b' = Offset b \<and> Length b' = Length b + pad_len bs (Length b) + 1
    \<and> length pad = pad_len bs (Length b) \<and> content b' = content b @ pad @ [of_nat (pad_len bs (Length b))]"
proof -
  define q where "q = pad_len bs (Length b)"
  let ?pad = "if 0 < q then map r [0..<q] else []" and ?e = "Offset b + Length b"
  define b' where "b' = b\<lparr>Data := store_at (Data b) ?e (?pad @ [of_nat q]), Length := Length b + q + 1\<rparr>"
  have lenp: "length ?pad = q" by simp
  have "PadPacket b bs (Some r) = Some (None, b')"
    using assms by (auto simp: PadPacket_eq Let_def q_def [symmetric] b'_def)
  moreover have "content b' = content b @ ?pad @ [of_nat q]"
    using assms lenp by (simp add: b'_def content_def store_at_def q_def [symmetric] drop_take)
  moreover have "wf_buf b'" "length (Data b') = length (Data b)"
    using assms lenp by (simp_all add: b'_def wf_buf_def q_def [symmetric])
  ultimately show ?thesis using lenp by (intro exI [of _ b'] exI [of _ ?pad]) (simp add: b'_def q_def)
qed

lemma content_shrink: "n \<le> Length b \<Longrightarrow> content (b\<lparr>Length := n\<rparr>) = take n (content b)"
  by (simp add: content_def min_def)

lemma UnpadPacket_eq:
  assumes "wf_buf b" "content b = xs @ [x]"
  shows "UnpadPacket b = (if length xs < unat x then Some (Some ErrPadMetadata, b)
    else Some (None, b\<lparr>Length := length xs - unat x\<rparr>))"
proof -
  have len: "Length b = length xs + 1" using length_content [OF assms(1)] assms(2) by simp
  have "content b ! length xs = x" using assms(2) by simp
  then have "Data b ! (Offset b + length xs) = x"
    using assms(1) len by (simp add: content_def wf_buf_def)
  then show ?thesis using assms(1) len by (auto simp: UnpadPacket_def index_def wf_buf_def)
qed

section \<open>Both operations are in-place stages\<close>

interpretation pad_stage: buffer_stage "\<lambda>b. map_option snd (PadPacket b bs rnd)" for bs rnd
proof unfold_locales
  fix b b' :: PacketBuffer
  assume wf: "wf_buf b"
  then show "\<exists>b'. map_option snd (PadPacket b bs rnd) = Some b'"
    by (auto simp: PadPacket_eq Let_def split: option.splits)
  assume "map_option snd (PadPacket b bs rnd) = Some b'"
  then show "wf_buf b'" "length (Data b') = length (Data b)"
    using wf by (auto simp: PadPacket_eq Let_def wf_buf_def split: option.splits if_splits)
qed

interpretation unpad_stage: buffer_stage "\<lambda>b. map_option snd (UnpadPacket b)"
proof unfold_locales
  fix b b' :: PacketBuffer
  assume wf: "wf_buf b"
  then show "\<exists>b'. map_option snd (UnpadPacket b) = Some b'"
    by (auto simp: UnpadPacket_def index_def wf_buf_def Let_def)
  assume "map_option snd (UnpadPacket b) = Some b'"
  then show "wf_buf b'" "length (Data b') = length (Data b)"
    using wf by (auto simp: UnpadPacket_def index_def wf_buf_def Let_def split: if_splits)
qed

section \<open>Properties\<close>

text \<open>
  C30: Padding is removed exactly when it is shorter than 256 bytes. \<open>PadPacket\<close> succeeds on
  every buffer with room and makes the length a multiple of the block size in effect, and
  \<open>UnpadPacket\<close> then succeeds; it restores the payload for every block size up to 256. For larger
  blocks the length byte is truncated: 256 bytes of padding stay behind the payload whenever
  256 or more were added.
\<close>

theorem pad_unpad:
  assumes room: "Offset b + Length b + pad_len bs (Length b) + 1 \<le> length (Data b)"
  shows "\<exists>b1 b2 rest. PadPacket b bs (Some r) = Some (None, b1) \<and> Length b1 mod block bs = 0
    \<and> UnpadPacket b1 = Some (None, b2) \<and> content b2 = content b @ rest
    \<and> length rest = (if pad_len bs (Length b) < 256 then 0 else 256)
    \<and> (bs \<le> 256 \<longrightarrow> content b2 = content b)"
proof -
  define q where "q = pad_len bs (Length b)"
  from PadPacket_ok [OF room, of r] obtain b1 pad where b1: "PadPacket b bs (Some r) = Some (None, b1)"
    "wf_buf b1" "Length b1 = Length b + q + 1" "length pad = q" "content b1 = content b @ pad @ [of_nat q]"
    by (auto simp: q_def)
  have wf: "wf_buf b" using room by (simp add: wf_buf_def)
  have q: "q < 512" using pad_len_less [of bs "Length b"] block_pos(2) [of bs] by (simp add: q_def)
  define rest where "rest = take (if q < 256 then 0 else 256) pad"
  have u: "unat (of_nat q :: byte) = q mod 256" by (simp add: unat_of_nat take_bit_eq_mod)
  have qm: "q - q mod 256 = (if q < 256 then 0 else 256)"
    using q le_mod_geq [of 256 q] by auto
  let ?b2 = "b1\<lparr>Length := length (content b @ pad) - q mod 256\<rparr>"
  have un: "UnpadPacket b1 = Some (None, ?b2)"
    using UnpadPacket_eq [of b1 "content b @ pad" "of_nat q"] b1 u by auto
  have "content ?b2 = take (length (content b @ pad) - q mod 256) (content b1)"
    using b1 wf by (intro content_shrink) simp
  then have c2: "content ?b2 = content b @ rest" using b1(4,5) wf qm by (simp add: rest_def min_def)
  have "q < 256" if "bs \<le> 256"
    using that pad_len_less [of bs "Length b"] by (auto simp: q_def block_def split: if_splits)
  moreover have "Length b1 mod block bs = 0" using pad_len_multiple b1(3) by (simp add: q_def)
  ultimately show ?thesis using b1(1,4) un c2
    by (intro exI [of _ b1] exI [of _ ?b2] exI [of _ rest]) (auto simp: rest_def q_def [symmetric])
qed

theorem pad_unpad_witness:
  "\<exists>b1 b2 rest. PadPacket \<lparr>Data = replicate 600 1, Length = 3, Offset = 0\<rparr> 512 (Some (\<lambda>i. 7)) = Some (None, b1)
    \<and> UnpadPacket b1 = Some (None, b2) \<and> content b2 = [1, 1, 1] @ rest \<and> length rest = 256"
proof -
  have p: "pad_len 512 3 = 508" by code_simp
  have c: "content \<lparr>Data = replicate 600 (1 :: byte), Length = 3, Offset = 0\<rparr> = [1, 1, 1]"
    by (simp add: content_def numeral_3_eq_3)
  from pad_unpad [of "\<lparr>Data = replicate 600 1, Length = 3, Offset = 0\<rparr>" 512 "\<lambda>i. 7"]
  show ?thesis by (auto simp: p c)
qed

text \<open>
  The jitter stays inside its bounds: with a random source that returns values in the range asked
  for, the pause is 0 or lies in the half-open interval from \<open>minMs\<close> to \<open>maxMs\<close>,
  and it is 0 whenever the bounds are not a proper non-negative interval.
\<close>

lemma jitter_bounds:
  assumes "\<And>d n. 0 < d \<Longrightarrow> rand_Int d = Some n \<Longrightarrow> 0 \<le> n \<and> n < d"
  shows "ApplyJitter rand_Int minMs maxMs = 0
    \<or> 0 \<le> minMs \<and> minMs \<le> ApplyJitter rand_Int minMs maxMs \<and> ApplyJitter rand_Int minMs maxMs < maxMs"
  using assms [of "maxMs - minMs"] by (auto simp: ApplyJitter_def split: option.splits)

end
