(* ===== verification/Ant_Packet.thy ===== *)
theory Ant_Packet
  imports Ant_Buffer
begin

text \<open>
  \<open>pkg/protocol/packet.go\<close>: the 14-byte wire header (type, flags, receiver index, counter,
  little-endian) and the two operations that put it in front of a packet buffer and take it off.
\<close>

section \<open>Messages and headers\<close>

type_synonym MessageType = byte

definition TypeHandshakeInit :: MessageType where "TypeHandshakeInit = 1"
definition TypeHandshakeResp :: MessageType where "TypeHandshakeResp = 2"
definition TypeData :: MessageType where "TypeData = 3"
definition TypeKeepalive :: MessageType where "TypeKeepalive = 4"
definition TypeDisconnect :: MessageType where "TypeDisconnect = 5"

abbreviation HeaderSize :: nat where "HeaderSize \<equiv> 14"
definition FlagPadded :: byte where "FlagPadded = push_bit 0 1"

record Header =
  Type :: MessageType
  Flags :: byte
  ReceiverIndex :: u32
  Counter :: u64

section \<open>Codec\<close>

text \<open>
  \<open>EncodeHeader\<close> writes into the caller's slice; on a slice shorter than the header one of its
  index or slice expressions is out of range.
\<close>

definition EncodeHeader :: "Header \<Rightarrow> bytes \<Rightarrow> bytes go" where
  "EncodeHeader h dst =
     (if length dst < HeaderSize then None
      else let dst1 = dst[0 := Type h];
               dst2 = dst1[1 := Flags h];
               dst3 = store_at dst2 2 (PutUint32 (ReceiverIndex h))
           in Some (store_at dst3 6 (PutUint64 (Counter h))))"

definition DecodeHeader :: "bytes \<Rightarrow> go_error + Header" where
  "DecodeHeader src =
     (if length src < HeaderSize then Inl ErrHeaderTruncated
      else Inr \<lparr>Type = src ! 0, Flags = src ! 1,
                ReceiverIndex = Uint32 (take 4 (drop 2 src)),
                Counter = Uint64 (take 8 (drop 6 src))\<rparr>)"

text \<open>The header's wire image, used to state what the codec does.\<close>

definition header_bytes :: "Header \<Rightarrow> bytes" where
  "header_bytes h = [Type h, Flags h] @ PutUint32 (ReceiverIndex h) @ PutUint64 (Counter h)"

lemma length_header_bytes [simp, len_simps]: "length (header_bytes h) = HeaderSize"
  by (simp add: header_bytes_def)

lemma EncodeHeader_eq [codec_simps]:
  assumes "HeaderSize \<le> length dst"
  shows "EncodeHeader h dst = Some (header_bytes h @ drop HeaderSize dst)"
proof -
  from assms obtain a b rest where dst: "dst = a # b # rest" and "12 \<le> length rest"
    by (cases dst; cases "tl dst") (auto simp: Suc_le_eq)
  then show ?thesis
    by (simp add: EncodeHeader_def Let_def header_bytes_def store_at_def)
qed

lemma EncodeHeader_array [simp]: "EncodeHeader h (replicate HeaderSize 0) = Some (header_bytes h)"
  by (simp add: EncodeHeader_eq)

lemma DecodeHeader_bytes [simp, codec_simps]: "DecodeHeader (header_bytes h @ xs) = Inr h"
  by (simp add: DecodeHeader_def header_bytes_def)

lemma drop_nth2: "2 \<le> length xs \<Longrightarrow> xs = [xs ! 0, xs ! 1] @ drop 2 xs"
  by (cases xs; cases "tl xs") auto

lemma header_bytes_decode:
  assumes "DecodeHeader src = Inr h"
  shows "src = header_bytes h @ drop HeaderSize src"
proof -
  from assms have len: "HeaderSize \<le> length src"
    and h: "h = \<lparr>Type = src ! 0, Flags = src ! 1, ReceiverIndex = Uint32 (take 4 (drop 2 src)),
      Counter = Uint64 (take 8 (drop 6 src))\<rparr>"
    by (auto simp: DecodeHeader_def split: if_splits)
  have "drop 2 src = take 4 (drop 2 src) @ take 8 (drop 6 src) @ drop 14 src"
    using append_take_drop_id [of 4 "drop 2 src"] append_take_drop_id [of 8 "drop 6 src"] by simp
  moreover have "src = [src ! 0, src ! 1] @ drop 2 src" using len by (intro drop_nth2) simp
  ultimately show ?thesis using len unfolding h header_bytes_def
    by (simp add: codec_simps)
qed

section \<open>Headers on packet buffers\<close>

definition PrependHeader :: "PacketBuffer \<Rightarrow> Header \<Rightarrow> (go_error option \<times> PacketBuffer) go" where
  "PrependHeader buf h =
     (if HeaderSize \<le> Offset buf then
        let buf1 = buf\<lparr>Offset := Offset buf - HeaderSize, Length := Length buf + HeaderSize\<rparr>
        in do {
          dst \<leftarrow> slice (Data buf1) (Offset buf1) (Offset buf1 + HeaderSize);
          hdr \<leftarrow> EncodeHeader h dst;
          Some (None, buf1\<lparr>Data := store_at (Data buf1) (Offset buf1) hdr\<rparr>)
        }
      else if length (Data buf) < Length buf + HeaderSize then Some (Some ErrPrependCapacity, buf)
      else do {
        dst \<leftarrow> slice (Data buf) HeaderSize (HeaderSize + Length buf);
        src \<leftarrow> Bytes buf;
        let data1 = store_at (Data buf) HeaderSize (go_copy dst src);
        hdr0 \<leftarrow> slice data1 0 HeaderSize;
        hdr \<leftarrow> EncodeHeader h hdr0;
        Some (None, buf\<lparr>Offset := 0, Length := Length buf + HeaderSize,
                        Data := store_at data1 0 hdr\<rparr>)
      })"

definition StripHeader :: "PacketBuffer \<Rightarrow> ((go_error + Header) \<times> PacketBuffer) go" where
  "StripHeader buf =
     (if Length buf < HeaderSize then Some (Inl ErrInsufficientHeader, buf)
      else do {
        bs \<leftarrow> Bytes buf;
        case DecodeHeader bs of
          Inl e \<Rightarrow> Some (Inl e, buf)
        | Inr h \<Rightarrow> Some (Inr h, buf\<lparr>Offset := Offset buf + HeaderSize, Length := Length buf - HeaderSize\<rparr>)
      })"

lemma content_split: "wf_buf b \<Longrightarrow> n \<le> Length b \<Longrightarrow>
    content (b\<lparr>Offset := Offset b + n, Length := Length b - n\<rparr>) = drop n (content b)"
  by (simp add: content_def drop_take add.commute)

lemma PrependHeader_headroom:
  assumes "wf_buf b" "HeaderSize \<le> Offset b"
  shows "PrependHeader b h =
    Some (None, b\<lparr>Offset := Offset b - HeaderSize, Length := Length b + HeaderSize,
      Data := store_at (Data b) (Offset b - HeaderSize) (header_bytes h)\<rparr>)"
  using assms
  by (simp add: PrependHeader_def Let_def slice_def wf_buf_def EncodeHeader_eq)

lemma PrependHeader_shift:
  assumes "wf_buf b" "Offset b < HeaderSize" "Length b + HeaderSize \<le> length (Data b)"
  shows "PrependHeader b h =
    Some (None, b\<lparr>Offset := 0, Length := Length b + HeaderSize,
      Data := header_bytes h @ content b @ drop (HeaderSize + Length b) (Data b)\<rparr>)"
  using assms
  by (simp add: PrependHeader_def Let_def slice_def EncodeHeader_eq store_at_def)

lemma PrependHeader_full:
  assumes "Offset b < HeaderSize" "length (Data b) < Length b + HeaderSize"
  shows "PrependHeader b h = Some (Some ErrPrependCapacity, b)"
  using assms by (simp add: PrependHeader_def)

text \<open>Prepending succeeds on every buffer with room for the header, and puts exactly the header in front.\<close>

lemma PrependHeader_ok:
  assumes "wf_buf b" "HeaderSize \<le> Offset b \<or> Length b + HeaderSize \<le> length (Data b)"
  shows "\<exists>b'. PrependHeader b h = Some (None, b') \<and> wf_buf b' \<and> content b' = header_bytes h @ content b
    \<and> Length b' = Length b + HeaderSize \<and> length (Data b') = length (Data b)"
proof (cases "HeaderSize \<le> Offset b")
  case True
  then obtain k where k: "Offset b = HeaderSize + k" by (metis le_Suc_ex)
  have "content (b\<lparr>Offset := k, Length := Length b + HeaderSize,
      Data := store_at (Data b) k (header_bytes h)\<rparr>) = header_bytes h @ content b"
    using assms(1) k by (simp add: content_def store_at_def wf_buf_def add.commute)
  then show ?thesis
    using PrependHeader_headroom [OF assms(1) True] assms(1) k by (simp add: wf_buf_def)
next
  case False
  then have sh: "Offset b < HeaderSize" "Length b + HeaderSize \<le> length (Data b)" using assms(2) by auto
  show ?thesis
    using PrependHeader_shift [OF assms(1) sh] assms(1) sh(2) by (simp add: wf_buf_def content_def)
qed

lemma StripHeader_short: "Length b < HeaderSize \<Longrightarrow> StripHeader b = Some (Inl ErrInsufficientHeader, b)"
  by (simp add: StripHeader_def)

lemma StripHeader_ok:
  assumes "wf_buf b" "HeaderSize \<le> Length b"
  shows "\<exists>h b'. StripHeader b = Some (Inr h, b') \<and> content b = header_bytes h @ content b' \<and> wf_buf b'
    \<and> Length b' + HeaderSize = Length b \<and> Data b' = Data b"
proof -
  obtain h where h: "DecodeHeader (content b) = Inr h"
    using assms by (auto simp: DecodeHeader_def)
  have "content b = header_bytes h @ drop HeaderSize (content b)" using h by (rule header_bytes_decode)
  then show ?thesis
    using assms h content_split [of b HeaderSize]
    by (simp add: StripHeader_def wf_buf_def)
qed

interpretation prepend_stage: buffer_stage "\<lambda>b. map_option snd (PrependHeader b h)" for h
proof unfold_locales
  fix b b' :: PacketBuffer
  assume wf: "wf_buf b"
  have *: "\<exists>e b'. PrependHeader b h = Some (e, b') \<and> wf_buf b' \<and> length (Data b') = length (Data b)"
  proof (cases "HeaderSize \<le> Offset b \<or> Length b + HeaderSize \<le> length (Data b)")
    case True
    then show ?thesis using PrependHeader_ok [OF wf] by blast
  next
    case False
    then show ?thesis using PrependHeader_full [of b h] wf by auto
  qed
  then show "\<exists>b'. map_option snd (PrependHeader b h) = Some b'" by auto
  assume "map_option snd (PrependHeader b h) = Some b'"
  then show "wf_buf b'" "length (Data b') = length (Data b)" using * by auto
qed

interpretation strip_stage: buffer_stage "\<lambda>b. map_option snd (StripHeader b)"
proof unfold_locales
  fix b b' :: PacketBuffer
  assume wf: "wf_buf b"
  have *: "\<exists>e b'. StripHeader b = Some (e, b') \<and> wf_buf b' \<and> length (Data b') = length (Data b)"
    using StripHeader_ok [OF wf] StripHeader_short [of b] wf by (metis not_less)
  then show "\<exists>b'. map_option snd (StripHeader b) = Some b'" by auto
  assume "map_option snd (StripHeader b) = Some b'"
  then show "wf_buf b'" "length (Data b') = length (Data b)" using * by auto
qed

lemma StripHeader_wf:
  "wf_buf b \<Longrightarrow> StripHeader b = Some (r, b') \<Longrightarrow> wf_buf b' \<and> length (Data b') = length (Data b)"
  using strip_stage.keeps_wf strip_stage.keeps_cap by auto

lemma StripHeader_Inr:
  assumes "wf_buf b" "StripHeader b = Some (Inr h, b')"
  shows "content b = header_bytes h @ content b'" "wf_buf b'" "Length b' + HeaderSize = Length b"
proof -
  have "HeaderSize \<le> Length b" using assms StripHeader_short [of b] by (cases "Length b < HeaderSize") auto
  from StripHeader_ok [OF assms(1) this] assms(2)
  show "content b = header_bytes h @ content b'" "wf_buf b'" "Length b' + HeaderSize = Length b" by auto
qed

lemma StripHeader_cases:
  assumes "wf_buf b"
  obtains e b1 where "StripHeader b = Some (Inl e, b1)" | h b1 where "StripHeader b = Some (Inr h, b1)" "wf_buf b1"
proof (cases "Length b < HeaderSize")
  case True
  then show ?thesis using StripHeader_short that(1) by blast
next
  case False
  then show ?thesis using StripHeader_ok [OF assms] that(2) by (metis not_less)
qed

section \<open>Properties\<close>

text \<open>
  C28: The header codec is a bijection. A header written by \<open>EncodeHeader\<close> over any slice that
  is long enough is read back by \<open>DecodeHeader\<close>, and writing back a decoded header reproduces
  the bytes it was decoded from.
\<close>

theorem header_codec:
  assumes "HeaderSize \<le> length dst"
  shows "(\<exists>w. EncodeHeader h dst = Some w \<and> DecodeHeader w = Inr h \<and> length w = length dst
      \<and> drop HeaderSize w = drop HeaderSize dst)
    \<and> (\<exists>g. DecodeHeader dst = Inr g \<and> EncodeHeader g dst = Some dst)"
proof
  show "\<exists>w. EncodeHeader h dst = Some w \<and> DecodeHeader w = Inr h \<and> length w = length dst
      \<and> drop HeaderSize w = drop HeaderSize dst"
    using assms by (simp add: EncodeHeader_eq)
  obtain g where g: "DecodeHeader dst = Inr g" using assms by (auto simp: DecodeHeader_def)
  then show "\<exists>g. DecodeHeader dst = Inr g \<and> EncodeHeader g dst = Some dst"
    using header_bytes_decode [OF g] assms by (simp add: EncodeHeader_eq)
qed

theorem header_codec_witness:
  "\<exists>w. EncodeHeader \<lparr>Type = 3, Flags = 1, ReceiverIndex = 7, Counter = 9\<rparr> (replicate 14 0) = Some w
     \<and> DecodeHeader w = Inr \<lparr>Type = 3, Flags = 1, ReceiverIndex = 7, Counter = 9\<rparr>"
  using header_codec [of "replicate 14 0" "\<lparr>Type = 3, Flags = 1, ReceiverIndex = 7, Counter = 9\<rparr>"]
  by auto

text \<open>
  Stripping undoes prepending. On every well-formed buffer with 14 bytes of headroom, or with 14
  bytes of free capacity when the payload has to be shifted, \<open>PrependHeader\<close> succeeds, and
  \<open>StripHeader\<close> then returns that header and a buffer with the original payload.
\<close>

lemma strip_prepend:
  assumes "wf_buf b" "HeaderSize \<le> Offset b \<or> Length b + HeaderSize \<le> length (Data b)"
  shows "\<exists>b1 b2. PrependHeader b h = Some (None, b1) \<and> StripHeader b1 = Some (Inr h, b2)
    \<and> content b2 = content b \<and> Length b2 = Length b"
proof -
  from PrependHeader_ok [OF assms, of h] obtain b1 where b1: "PrependHeader b h = Some (None, b1)"
    "wf_buf b1" "content b1 = header_bytes h @ content b" "Length b1 = Length b + HeaderSize" by blast
  from StripHeader_ok [OF b1(2)] b1(4) obtain g b2 where b2: "StripHeader b1 = Some (Inr g, b2)"
    "content b1 = header_bytes g @ content b2" "Length b2 + HeaderSize = Length b1" by auto
  have "g = h" using b1(3) b2(2) by (metis DecodeHeader_bytes sum.inject(2))
  then show ?thesis using b1 b2 by auto
qed

end
