(* ===== verification/Ant_Replay.thy ===== *)
theory Ant_Replay
  imports Ant_Prelude
begin

text \<open>
  The anti-replay window of \<open>pkg/protocol/session.go\<close>: a 128-bit bitmap that slides with the
  highest counter seen. The specification it is proved to refine keeps the set of all accepted
  counters; the code only keeps the last 128 bits.
\<close>

section \<open>The window\<close>

definition WindowSize :: u64 where "WindowSize = 128"

text \<open>\<open>bitmap [2]uint64\<close> is the pair of its two words.\<close>

record ReplayWindow =
  maxSeq :: u64
  bitmap0 :: u64
  bitmap1 :: u64

definition new_ReplayWindow :: ReplayWindow where
  "new_ReplayWindow = \<lparr>maxSeq = 0, bitmap0 = 0, bitmap1 = 0\<rparr>"

definition CheckAndSet :: "ReplayWindow \<Rightarrow> u64 \<Rightarrow> bool \<times> ReplayWindow" where
  "CheckAndSet rw seq =
     (if maxSeq rw < seq then
        let diff = seq - maxSeq rw;
            rw1 = (if WindowSize \<le> diff then rw\<lparr>bitmap0 := 0, bitmap1 := 0\<rparr>
                   else if 64 \<le> diff then
                     rw\<lparr>bitmap1 := push_bit (unat (diff - 64)) (bitmap0 rw), bitmap0 := 0\<rparr>
                   else
                     rw\<lparr>bitmap1 := push_bit (unat diff) (bitmap1 rw) OR drop_bit (unat (64 - diff)) (bitmap0 rw),
                        bitmap0 := push_bit (unat diff) (bitmap0 rw)\<rparr>)
        in (True, rw1\<lparr>maxSeq := seq, bitmap0 := bitmap0 rw1 OR 1\<rparr>)
      else
        let diff = maxSeq rw - seq in
        if WindowSize \<le> diff then (False, rw)
        else
          let word = diff div 64; bitpos = diff mod 64; m = push_bit (unat bitpos) 1 in
          if (if word = 0 then bitmap0 rw else bitmap1 rw) AND m \<noteq> 0 then (False, rw)
          else (True, if word = 0 then rw\<lparr>bitmap0 := bitmap0 rw OR m\<rparr>
                      else rw\<lparr>bitmap1 := bitmap1 rw OR m\<rparr>))"

section \<open>Reading the bitmap\<close>

text \<open>\<open>seen rw d\<close>: the bit for the counter \<open>d\<close> below the highest one.\<close>

definition seen :: "ReplayWindow \<Rightarrow> nat \<Rightarrow> bool" where
  "seen rw d = (if d < 64 then bit (bitmap0 rw) d else bit (bitmap1 rw) (d - 64))"

lemma and_two_power: "(x :: u64) AND 2 ^ n = 0 \<longleftrightarrow> \<not> bit x n"
proof
  assume z: "x AND 2 ^ n = 0"
  show "\<not> bit x n"
  proof
    assume b: "bit x n"
    then have "n < 64" using bit_imp_le_length [of x n] by simp
    then have "bit (x AND 2 ^ n) n" using b by (simp add: bit_simps)
    then show False using z by simp
  qed
next
  assume "\<not> bit x n"
  then show "x AND 2 ^ n = 0" by (intro bit_word_eqI) (auto simp: bit_simps)
qed

lemma seen_advance:
  assumes gt: "maxSeq rw < seq" and d: "d < 128"
  shows "seen (snd (CheckAndSet rw seq)) d \<longleftrightarrow>
     d = 0 \<or> (unat seq - unat (maxSeq rw) \<le> d \<and> seen rw (d - (unat seq - unat (maxSeq rw))))"
proof -
  define diff where "diff = seq - maxSeq rw"
  define n where "n = unat seq - unat (maxSeq rw)"
  have n: "unat diff = n" using gt by (simp add: diff_def n_def unat_sub)
  have "0 < n" using gt by (simp add: n_def word_less_nat_alt)
  have cmp: "WindowSize \<le> diff \<longleftrightarrow> 128 \<le> n" "64 \<le> diff \<longleftrightarrow> 64 \<le> n"
    by (simp_all add: WindowSize_def word_le_nat_alt n)
  consider "128 \<le> n" | "64 \<le> n" "n < 128" | "n < 64" by linarith
  then show ?thesis
  proof cases
    case 1
    then show ?thesis using gt d cmp
      by (simp add: CheckAndSet_def Let_def diff_def [symmetric] n_def [symmetric] seen_def bit_simps)
  next
    case 2
    have "unat (diff - 64) = n - 64" using 2 cmp n by (simp add: unat_sub word_le_nat_alt)
    then show ?thesis using gt d cmp 2
      by (auto simp: CheckAndSet_def Let_def diff_def [symmetric] n_def [symmetric] seen_def bit_simps)
  next
    case 3
    have le: "diff \<le> 64" using 3 n by (simp add: word_le_nat_alt)
    have u: "unat (64 - diff) = 64 - n" using le n by (simp add: unat_sub)
    have big: "\<not> bit (bitmap0 rw) k" if "64 \<le> k" for k using that bit_imp_le_length by fastforce
    show ?thesis using gt d cmp 3 n u \<open>0 < n\<close> big
      by (auto simp: CheckAndSet_def Let_def diff_def [symmetric] n_def [symmetric] seen_def bit_simps
          algebra_simps)
  qed
qed

lemma CheckAndSet_advance:
  "maxSeq rw < seq \<Longrightarrow> fst (CheckAndSet rw seq) \<and> maxSeq (snd (CheckAndSet rw seq)) = seq"
  by (simp add: CheckAndSet_def Let_def)

lemma CheckAndSet_old:
  assumes "\<not> maxSeq rw < seq" "128 \<le> unat (maxSeq rw) - unat seq"
  shows "CheckAndSet rw seq = (False, rw)"
proof -
  have "unat (maxSeq rw - seq) = unat (maxSeq rw) - unat seq"
    using assms(1) by (simp add: unat_sub not_less)
  then show ?thesis using assms by (simp add: CheckAndSet_def Let_def WindowSize_def word_le_nat_alt)
qed

lemma CheckAndSet_inside:
  assumes le: "\<not> maxSeq rw < seq" and w: "unat (maxSeq rw) - unat seq < 128"
  defines "n \<equiv> unat (maxSeq rw) - unat seq"
  shows "fst (CheckAndSet rw seq) \<longleftrightarrow> \<not> seen rw n"
    and "maxSeq (snd (CheckAndSet rw seq)) = maxSeq rw"
    and "d < 128 \<Longrightarrow> seen (snd (CheckAndSet rw seq)) d \<longleftrightarrow> seen rw d \<or> d = n"
proof -
  define diff where "diff = maxSeq rw - seq"
  have n: "unat diff = n" using le by (simp add: diff_def n_def unat_sub not_less)
  have ws: "\<not> WindowSize \<le> diff" using w n by (simp add: WindowSize_def word_le_nat_alt n_def)
  have wd: "diff div 64 = 0 \<longleftrightarrow> n < 64" "unat (diff mod 64) = n mod 64"
    using n by (simp_all add: unat_eq_0 [symmetric] unat_div unat_mod div_eq_0_iff)
  have m: "n mod 64 = (if n < 64 then n else n - 64)" using w
    by (auto simp: n_def [symmetric] mod_if)
  note unf = CheckAndSet_def Let_def diff_def [symmetric] and_two_power seen_def
  show "fst (CheckAndSet rw seq) \<longleftrightarrow> \<not> seen rw n"
    using le ws wd m by (simp add: unf)
  show "maxSeq (snd (CheckAndSet rw seq)) = maxSeq rw"
    using le ws by (simp add: unf)
  show "d < 128 \<Longrightarrow> seen (snd (CheckAndSet rw seq)) d \<longleftrightarrow> seen rw d \<or> d = n"
    using le ws wd m w unfolding n_def [symmetric]
    by (auto simp: unf bit_simps)
qed

section \<open>The specification: all accepted counters\<close>

text \<open>
  A counter is acceptable when it is above everything accepted so far, or less than 128 below the
  highest one and not accepted before.
\<close>

definition spec_accept :: "nat \<Rightarrow> nat set \<Rightarrow> nat \<Rightarrow> bool" where
  "spec_accept hi A n \<longleftrightarrow> hi < n \<or> (hi - n < 128 \<and> n \<notin> A)"

text \<open>The window represents a set \<open>A\<close> of accepted counters.\<close>

definition represents :: "ReplayWindow \<Rightarrow> nat set \<Rightarrow> bool" where
  "represents rw A \<longleftrightarrow> (\<forall>n \<in> A. n \<le> unat (maxSeq rw))
     \<and> (\<forall>d < 128. seen rw d \<longleftrightarrow> d \<le> unat (maxSeq rw) \<and> unat (maxSeq rw) - d \<in> A)"

lemma represents_new: "represents new_ReplayWindow {}"
  by (simp add: represents_def new_ReplayWindow_def seen_def)

lemma represents_accept:
  assumes "represents rw A"
  shows "fst (CheckAndSet rw seq) \<longleftrightarrow> spec_accept (unat (maxSeq rw)) A (unat seq)"
proof (cases "maxSeq rw < seq")
  case True
  then show ?thesis using CheckAndSet_advance by (simp add: spec_accept_def word_less_nat_alt)
next
  case False
  then have le: "unat seq \<le> unat (maxSeq rw)" by (simp add: word_less_nat_alt)
  show ?thesis
  proof (cases "unat (maxSeq rw) - unat seq < 128")
    case True
    then show ?thesis using assms le CheckAndSet_inside(1) [OF False True]
      by (simp add: represents_def spec_accept_def)
  next
    case out: False
    then show ?thesis using CheckAndSet_old [OF False] le by (simp add: spec_accept_def)
  qed
qed

lemma represents_step:
  assumes rep: "represents rw A" and step: "CheckAndSet rw seq = (ok, rw')"
  shows "represents rw' (if ok then insert (unat seq) A else A)"
proof (cases "maxSeq rw < seq")
  case True
  have ok: "ok" "maxSeq rw' = seq" using CheckAndSet_advance [OF True] step by auto
  have lt: "unat (maxSeq rw) < unat seq" using True by (simp add: word_less_nat_alt)
  have "seen rw' d \<longleftrightarrow> d \<le> unat seq \<and> unat seq - d \<in> insert (unat seq) A" if d: "d < 128" for d
  proof -
    have "seen rw' d \<longleftrightarrow> d = 0 \<or> (unat seq - unat (maxSeq rw) \<le> d \<and> seen rw (d - (unat seq - unat (maxSeq rw))))"
      using seen_advance [OF True d] step by simp
    also have "\<dots> \<longleftrightarrow> d \<le> unat seq \<and> unat seq - d \<in> insert (unat seq) A"
      using rep lt d unfolding represents_def by (auto; fastforce)
    finally show ?thesis .
  qed
  then show ?thesis using ok rep lt by (auto simp: represents_def)
next
  case False
  then have le: "unat seq \<le> unat (maxSeq rw)" by (simp add: word_less_nat_alt)
  show ?thesis
  proof (cases "unat (maxSeq rw) - unat seq < 128")
    case True
    note ins = CheckAndSet_inside [OF False True]
    have mx: "maxSeq rw' = maxSeq rw" using ins(2) step by simp
    have "ok \<or> rw' = rw" using step False by (auto simp: CheckAndSet_def Let_def split: if_splits)
    moreover have "represents rw' (insert (unat seq) A)" if ok
      using rep ins(3) step mx le True by (auto simp: represents_def)
    ultimately show ?thesis using rep step ins(1) by auto
  next
    case out: False
    then show ?thesis using CheckAndSet_old [OF False] rep step by auto
  qed
qed

section \<open>Interface of a replay filter\<close>

text \<open>
  What a receiver relies on: the filter's state stands for the set of counters it has let through,
  it only lets a counter through that is not in the set, and it records the ones it lets through.
\<close>

locale replay_filter =
  fixes check :: "'s \<Rightarrow> nat \<Rightarrow> bool \<times> 's"
    and init :: 's
    and stands_for :: "'s \<Rightarrow> nat set \<Rightarrow> bool"
    and valid :: "nat \<Rightarrow> bool"
  assumes stands_init: "stands_for init {}"
    and stands_step: "stands_for s A \<Longrightarrow> valid n \<Longrightarrow> check s n = (ok, s') \<Longrightarrow>
          stands_for s' (if ok then insert n A else A)"
    and fresh: "stands_for s A \<Longrightarrow> valid n \<Longrightarrow> check s n = (True, s') \<Longrightarrow> n \<notin> A"
begin

fun accepted :: "'s \<Rightarrow> nat list \<Rightarrow> nat list" where
  "accepted s [] = []"
| "accepted s (n # ns) = (case check s n of (ok, s') \<Rightarrow> if ok then n # accepted s' ns else accepted s' ns)"

lemma accepted_fresh:
  "stands_for s A \<Longrightarrow> list_all valid ns \<Longrightarrow>
     distinct (accepted s ns) \<and> set (accepted s ns) \<inter> A = {} \<and> set (accepted s ns) \<subseteq> set ns"
proof (induction ns arbitrary: s A)
  case Nil
  then show ?case by simp
next
  case (Cons n ns)
  obtain ok s' where c: "check s n = (ok, s')" by (cases "check s n")
  have v: "valid n" "list_all valid ns" using Cons.prems(2) by auto
  note IH = Cons.IH [OF stands_step [OF Cons.prems(1) v(1) c] v(2)]
  show ?case
  proof (cases ok)
    case True
    then have "n \<notin> A" using fresh [OF Cons.prems(1) v(1)] c by simp
    then show ?thesis using IH True c by auto
  next
    case False
    then show ?thesis using IH c by auto
  qed
qed

lemma never_twice: "list_all valid ns \<Longrightarrow> distinct (accepted init ns)"
  using accepted_fresh [OF stands_init] by blast

end

text \<open>The code's window is such a filter, on 64-bit counters.\<close>

definition check_nat :: "ReplayWindow \<Rightarrow> nat \<Rightarrow> bool \<times> ReplayWindow" where
  "check_nat rw n = CheckAndSet rw (of_nat n)"

interpretation rw: replay_filter check_nat new_ReplayWindow represents "\<lambda>n. n < 2 ^ 64"
proof unfold_locales
  show "represents new_ReplayWindow {}" by (rule represents_new)
next
  fix s A n ok s'
  assume a: "represents s A" "n < 2 ^ 64" "check_nat s n = (ok, s')"
  have n: "unat (of_nat n :: u64) = n" using a(2) by (simp add: unat_of_nat take_bit_nat_eq_self)
  show "represents s' (if ok then insert n A else A)"
    using represents_step [OF a(1), of "of_nat n" ok s'] a(3) n by (simp add: check_nat_def split: if_splits)
next
  fix s A n s'
  assume a: "represents s A" "n < 2 ^ 64" "check_nat s n = (True, s')"
  have n: "unat (of_nat n :: u64) = n" using a(2) by (simp add: unat_of_nat take_bit_nat_eq_self)
  have "spec_accept (unat (maxSeq s)) A n"
    using represents_accept [OF a(1), of "of_nat n"] a(3) n by (simp add: check_nat_def)
  moreover have "\<forall>m \<in> A. m \<le> unat (maxSeq s)" using a(1) by (simp add: represents_def)
  ultimately show "n \<notin> A" by (auto simp: spec_accept_def)
qed

section \<open>Runs of the window\<close>

text \<open>The counters a receiver lets through, over a whole sequence of packets.\<close>

fun accepted_run :: "ReplayWindow \<Rightarrow> u64 list \<Rightarrow> u64 list" where
  "accepted_run rw [] = []"
| "accepted_run rw (q # qs) =
     (case CheckAndSet rw q of (ok, rw') \<Rightarrow> if ok then q # accepted_run rw' qs else accepted_run rw' qs)"

fun window_after :: "ReplayWindow \<Rightarrow> u64 list \<Rightarrow> ReplayWindow" where
  "window_after rw [] = rw"
| "window_after rw (q # qs) = window_after (snd (CheckAndSet rw q)) qs"

lemma accepted_run_filter: "accepted_run rw qs = map of_nat (rw.accepted rw (map unat qs))"
  by (induction qs arbitrary: rw) (auto simp: check_nat_def split: prod.splits)

lemma accepted_run_append:
  "accepted_run rw (qs @ rs) = accepted_run rw qs @ accepted_run (window_after rw qs) rs"
  by (induction qs arbitrary: rw) (auto split: prod.splits)

lemma window_after_represents:
  "represents rw A \<Longrightarrow> represents (window_after rw qs) (A \<union> unat ` set (accepted_run rw qs))"
proof (induction qs arbitrary: rw A)
  case Nil
  then show ?case by simp
next
  case (Cons q qs)
  obtain ok rw' where c: "CheckAndSet rw q = (ok, rw')" by (cases "CheckAndSet rw q")
  have "represents rw' (if ok then insert (unat q) A else A)"
    using represents_step [OF Cons.prems c] .
  from Cons.IH [OF this] show ?case using c by (auto split: if_splits)
qed

lemma maxSeq_mono: "maxSeq rw \<le> maxSeq (snd (CheckAndSet rw q))"
  by (auto simp: CheckAndSet_def Let_def)

lemma window_after_maxSeq: "maxSeq rw \<le> maxSeq (window_after rw qs)"
  by (induction qs arbitrary: rw) (auto intro: order_trans maxSeq_mono)

lemma CheckAndSet_max:
  "maxSeq (snd (CheckAndSet rw q)) = (if fst (CheckAndSet rw q) then max (maxSeq rw) q else maxSeq rw)"
  by (auto simp: CheckAndSet_def Let_def max_def)

lemma unat_max: "unat (max a (b :: u64)) = max (unat a) (unat b)"
  by (auto simp: max_def word_le_nat_alt)

lemma window_after_max:
  "unat (maxSeq (window_after rw qs)) = Max (insert (unat (maxSeq rw)) (unat ` set (accepted_run rw qs)))"
proof (induction qs arbitrary: rw)
  case Nil
  then show ?case by simp
next
  case (Cons q qs)
  define rw' where "rw' = snd (CheckAndSet rw q)"
  show ?case
  proof (cases "fst (CheckAndSet rw q)")
    case True
    then have "unat (maxSeq rw') = max (unat (maxSeq rw)) (unat q)"
      by (simp add: rw'_def CheckAndSet_max unat_max)
    then show ?thesis using Cons.IH [of rw'] True
      by (cases "accepted_run rw' qs = []") (simp_all add: case_prod_beta rw'_def [symmetric] max.assoc)
  next
    case False
    then show ?thesis using Cons.IH [of rw'] by (simp add: case_prod_beta rw'_def CheckAndSet_max)
  qed
qed

section \<open>Properties\<close>

text \<open>
  C4: The 128-bit window decides as the full history would. After any sequence of packets, a counter
  is accepted exactly when it is above every counter accepted so far, or less than 128 below
  the highest one and not accepted before; the history is the list of the counters that were
  accepted, which the code does not keep.
\<close>

theorem replay_decision:
  "fst (CheckAndSet (window_after new_ReplayWindow qs) q) \<longleftrightarrow>
     (let A = unat ` set (accepted_run new_ReplayWindow qs) in spec_accept (Max (insert 0 A)) A (unat q))"
  using represents_accept [OF window_after_represents [OF represents_new], of qs q]
    window_after_max [of new_ReplayWindow qs]
  by (simp add: Let_def new_ReplayWindow_def)

text \<open>
  One call refines one step of the specification: on a window that represents a set of accepted
  counters the decision is the specification's, and the new window represents the set with the
  counter added when it was accepted, and the same set when it was not.
\<close>

lemma CheckAndSet_refines:
  assumes "represents rw A" "CheckAndSet rw q = (ok, rw')"
  shows "ok = spec_accept (unat (maxSeq rw)) A (unat q) \<and> represents rw' (if ok then insert (unat q) A else A)"
  using represents_accept [OF assms(1), of q] represents_step [OF assms] assms(2) by simp

end
