(* ===== verification/Ant_Primitives.thy ===== *)
theory Ant_Primitives
  imports Ant_Prelude
begin

text \<open>
  The cryptographic code outside the repository (\<open>golang.org/x/crypto\<close> and
  \<open>crypto/cipher\<close>), as one parameter of the model, and what the program relies on of it.

  \<^item> \<open>seal P suite key nonce plaintext ad\<close>: what \<open>AEAD.Seal\<close> appends to its destination.
  \<^item> \<open>opened P suite key nonce ciphertext ad\<close>: \<open>Inr plaintext\<close>, or \<open>Inl junk\<close> when
    authentication fails; the documentation lets a failing \<open>Open\<close> overwrite its destination,
    and \<open>junk\<close> is what it leaves there.
  \<^item> \<open>scalar_mult P k u\<close> and \<open>scalar_base_mult P k\<close>: the X25519 functions of \<open>curve25519\<close>.
  \<^item> \<open>hkdf P secret salt info i\<close>: byte \<open>i\<close> of the output stream of
    \<open>hkdf.New(sha256.New, secret, salt, info)\<close>.
\<close>

record prims =
  seal :: "byte \<Rightarrow> bytes \<Rightarrow> bytes \<Rightarrow> bytes \<Rightarrow> bytes \<Rightarrow> bytes"
  opened :: "byte \<Rightarrow> bytes \<Rightarrow> bytes \<Rightarrow> bytes \<Rightarrow> bytes \<Rightarrow> bytes + bytes"
  scalar_mult :: "bytes \<Rightarrow> bytes \<Rightarrow> bytes"
  scalar_base_mult :: "bytes \<Rightarrow> bytes"
  hkdf :: "bytes \<Rightarrow> bytes \<Rightarrow> bytes \<Rightarrow> nat \<Rightarrow> byte"

section \<open>What the program relies on\<close>

text \<open>
  AEAD: sealing adds 16 bytes, and a ciphertext opens to a plaintext exactly when it is the sealing
  of that plaintext under the same key, nonce and additional data.
\<close>

definition aead_ok :: "prims \<Rightarrow> bool" where
  "aead_ok P \<longleftrightarrow> (\<forall>suite key nonce pt ct ad. length key = 32 \<longrightarrow> length nonce = 12 \<longrightarrow>
     length (seal P suite key nonce pt ad) = length pt + 16
     \<and> (opened P suite key nonce ct ad = Inr pt \<longleftrightarrow> ct = seal P suite key nonce pt ad))"

text \<open>X25519: results have 32 bytes, and both sides of an exchange compute the same secret.\<close>

definition dh_ok :: "prims \<Rightarrow> bool" where
  "dh_ok P \<longleftrightarrow> (\<forall>a u. length a = 32 \<longrightarrow> length u = 32 \<longrightarrow> length (scalar_mult P a u) = 32)
     \<and> (\<forall>a. length a = 32 \<longrightarrow> length (scalar_base_mult P a) = 32)
     \<and> (\<forall>a b. length a = 32 \<longrightarrow> length b = 32 \<longrightarrow>
          scalar_mult P a (scalar_base_mult P b) = scalar_mult P b (scalar_base_mult P a))"

lemma aead_lengthD:
  "aead_ok P \<Longrightarrow> length key = 32 \<Longrightarrow> length nonce = 12 \<Longrightarrow>
     length (seal P suite key nonce pt ad) = length pt + 16"
  unfolding aead_ok_def by blast

lemma aead_open_iff:
  "aead_ok P \<Longrightarrow> length key = 32 \<Longrightarrow> length nonce = 12 \<Longrightarrow>
     opened P suite key nonce ct ad = Inr pt \<longleftrightarrow> ct = seal P suite key nonce pt ad"
  unfolding aead_ok_def by blast

lemma aead_open_seal [simp]:
  "aead_ok P \<Longrightarrow> length key = 32 \<Longrightarrow> length nonce = 12 \<Longrightarrow>
     opened P suite key nonce (seal P suite key nonce pt ad) ad = Inr pt"
  by (simp add: aead_open_iff)

lemma dh_length:
  "dh_ok P \<Longrightarrow> length a = 32 \<Longrightarrow> length u = 32 \<Longrightarrow> length (scalar_mult P a u) = 32"
  "dh_ok P \<Longrightarrow> length a = 32 \<Longrightarrow> length (scalar_base_mult P a) = 32"
  unfolding dh_ok_def by blast+

lemma dh_commute:
  "dh_ok P \<Longrightarrow> length a = 32 \<Longrightarrow> length b = 32 \<Longrightarrow>
     scalar_mult P a (scalar_base_mult P b) = scalar_mult P b (scalar_base_mult P a)"
  unfolding dh_ok_def by blast

section \<open>An instance\<close>

text \<open>
  A concrete instance with these properties, which the witnesses use: the tag is a checksum of key,
  nonce, text and additional data, the exchange is the disjunction of the two scalars. It shows
  that the hypotheses can hold together; it is not a cipher.
\<close>

definition checksum :: "bytes \<Rightarrow> byte" where
  "checksum bs = fold (\<lambda>b v. 3 * v + b + 1) bs 7"

definition demo_seal :: "byte \<Rightarrow> bytes \<Rightarrow> bytes \<Rightarrow> bytes \<Rightarrow> bytes \<Rightarrow> bytes" where
  "demo_seal suite key nonce pt ad = pt @ replicate 16 (checksum (suite # key @ nonce @ pt @ ad))"

definition demo_open :: "byte \<Rightarrow> bytes \<Rightarrow> bytes \<Rightarrow> bytes \<Rightarrow> bytes \<Rightarrow> bytes + bytes" where
  "demo_open suite key nonce ct ad =
     (let pt = take (length ct - 16) ct
      in if ct = demo_seal suite key nonce pt ad then Inr pt else Inl (replicate (length pt) 0))"

definition demo_mult :: "bytes \<Rightarrow> bytes \<Rightarrow> bytes" where
  "demo_mult a u = map2 (\<lambda>x y. x OR y OR 1) a u"

definition demo_prims :: prims where
  "demo_prims = \<lparr>seal = demo_seal, opened = demo_open, scalar_mult = demo_mult,
     scalar_base_mult = (\<lambda>a. a),
     hkdf = (\<lambda>secret salt info i. checksum (secret @ salt @ info) + of_nat i)\<rparr>"

lemma demo_aead_ok: "aead_ok demo_prims"
  by (auto simp: aead_ok_def demo_prims_def demo_open_def demo_seal_def Let_def split: if_splits)

lemma demo_dh_ok: "dh_ok demo_prims"
  unfolding dh_ok_def demo_prims_def demo_mult_def
  by (auto intro!: nth_equalityI simp: or.commute or.left_commute)

lemma demo_mult_nonzero:
  "a \<noteq> [] \<Longrightarrow> u \<noteq> [] \<Longrightarrow> \<exists>b \<in> set (scalar_mult demo_prims a u). b \<noteq> 0"
proof (cases a; cases u)
  fix x xs y ys
  assume "a = x # xs" "u = y # ys"
  moreover have "x OR y OR 1 \<noteq> (0 :: byte)" by (simp add: or_eq_0_iff)
  ultimately show ?thesis by (simp add: demo_prims_def demo_mult_def)
qed simp_all

end
