(* ===== verification/Ant_Memory.thy ===== *)
theory Ant_Memory
  imports Ant_Prelude
begin

text \<open>
  \<open>pkg/security/memory.go\<close>: the wiping loops used on keys, and the constant-time comparison.
\<close>

text \<open>\<open>for i := range b { b[i] = 0 }\<close>\<close>

primrec zero_loop :: "nat list \<Rightarrow> bytes \<Rightarrow> bytes" where
  "zero_loop [] b = b"
| "zero_loop (i # is) b = zero_loop is (b[i := 0])"

definition Zero :: "bytes \<Rightarrow> bytes" where
  "Zero b = (if length b = 0 then b else zero_loop [0..<length b] b)"

text \<open>The array pointer may be nil.\<close>

definition Zero32 :: "bytes option \<Rightarrow> bytes option" where
  "Zero32 key = (case key of None \<Rightarrow> None | Some k \<Rightarrow> Some (zero_loop [0..<length k] k))"

text \<open>
  \<open>subtle.ConstantTimeCompare\<close>: 0 on different lengths, else 1 exactly when the disjunction
  of all byte differences is 0.
\<close>

definition ConstantTimeCompare :: "bytes \<Rightarrow> bytes \<Rightarrow> int" where
  "ConstantTimeCompare x y =
     (if length x \<noteq> length y then 0
      else if fold (\<lambda>(a, b) v. v OR (a XOR b)) (zip x y) 0 = 0 then 1 else 0)"

lemma length_zero_loop [simp]: "length (zero_loop is b) = length b"
  by (induction "is" arbitrary: b) simp_all

lemma nth_zero_loop:
  "j < length b \<Longrightarrow> zero_loop is b ! j = (if j \<in> set is then 0 else b ! j)"
  by (induction "is" arbitrary: b) (auto simp: nth_list_update)

lemma zero_loop_all: "zero_loop [0..<length b] b = replicate (length b) 0"
  by (rule nth_equalityI) (simp_all add: nth_zero_loop)

lemma Zero_eq [simp]: "Zero b = replicate (length b) 0"
  by (simp add: Zero_def zero_loop_all)

lemma Zero32_eq [simp]: "Zero32 (Some k) = Some (replicate (length k) 0)"
  by (simp add: Zero32_def zero_loop_all)

lemma xor_eq_zero_iff: "(a :: byte) XOR b = 0 \<longleftrightarrow> a = b"
  by (auto simp: bit_eq_iff bit_simps)

text \<open>The loop \<open>for _, b := range ss { isZero |= b }\<close>.\<close>

lemma fold_or_zero_iff: "fold (\<lambda>b v. v OR b) bs (v :: byte) = 0 \<longleftrightarrow> v = 0 \<and> (\<forall>b \<in> set bs. b = 0)"
  by (induction bs arbitrary: v) (auto simp: or_eq_0_iff)

lemma fold_diff_zero_iff:
  "length x = length y \<Longrightarrow>
     fold (\<lambda>(a, b) v. v OR (a XOR b)) (zip x y) (v :: byte) = 0 \<longleftrightarrow> v = 0 \<and> x = y"
  by (induction x y arbitrary: v rule: list_induct2) (auto simp: or_eq_0_iff xor_eq_zero_iff)

lemma ConstantTimeCompare_eq: "ConstantTimeCompare x y = (if x = y then 1 else 0)"
  by (auto simp: ConstantTimeCompare_def fold_diff_zero_iff)

end
