(* ===== verification/Ant_Base64.thy ===== *)
theory Ant_Base64
  imports Ant_Prelude
begin

text \<open>
  The text codecs that \<open>pkg/crypto/keys.go\<close> calls: \<open>base64.RawURLEncoding\<close> (unpadded,
  lenient on trailing bits, skipping CR and LF when decoding) and \<open>encoding/hex\<close>.
\<close>

section \<open>Base64\<close>

definition b64_alphabet :: string where
  "b64_alphabet = ''ABCDEFGHIJKLMNOPQRSTUVWXYZabcdefghijklmnopqrstuvwxyz0123456789-_''"

definition b64_char :: "nat \<Rightarrow> char" where "b64_char d = b64_alphabet ! d"

definition b64_val :: "char \<Rightarrow> nat option" where
  "b64_val = map_of (zip b64_alphabet [0..<64])"

text \<open>The 24-bit group of three bytes and its four digits.\<close>

definition group :: "byte \<Rightarrow> byte \<Rightarrow> byte \<Rightarrow> nat" where
  "group a b c = unat a * 65536 + unat b * 256 + unat c"

definition digit :: "nat \<Rightarrow> nat \<Rightarrow> nat" where
  "digit i v = v div 64 ^ (3 - i) mod 64"

fun b64_digits :: "bytes \<Rightarrow> nat list" where
  "b64_digits [] = []"
| "b64_digits [a] = map (\<lambda>i. digit i (group a 0 0)) [0, 1]"
| "b64_digits [a, b] = map (\<lambda>i. digit i (group a b 0)) [0, 1, 2]"
| "b64_digits (a # b # c # rest) = map (\<lambda>i. digit i (group a b c)) [0, 1, 2, 3] @ b64_digits rest"

definition b64_encode :: "bytes \<Rightarrow> string" where
  "b64_encode bs = map b64_char (b64_digits bs)"

definition ungroup :: "nat \<Rightarrow> nat \<Rightarrow> nat \<Rightarrow> nat \<Rightarrow> nat" where
  "ungroup p q r s = p * 64 ^ 3 + q * 64 ^ 2 + r * 64 + s"

definition hi :: "nat \<Rightarrow> byte" where "hi v = of_nat (v div 65536)"
definition mid :: "nat \<Rightarrow> byte" where "mid v = of_nat (v div 256)"
definition lo :: "nat \<Rightarrow> byte" where "lo v = of_nat v"

fun b64_undigits :: "nat list \<Rightarrow> bytes option" where
  "b64_undigits [] = Some []"
| "b64_undigits [p] = None"
| "b64_undigits [p, q] = Some [hi (ungroup p q 0 0)]"
| "b64_undigits [p, q, r] = Some [hi (ungroup p q r 0), mid (ungroup p q r 0)]"
| "b64_undigits (p # q # r # s # rest) =
     (case b64_undigits rest of
        None \<Rightarrow> None
      | Some bs \<Rightarrow> Some ([hi (ungroup p q r s), mid (ungroup p q r s), lo (ungroup p q r s)] @ bs))"

text \<open>All characters through a value table; the first unknown one is the error.\<close>

fun digits_of :: "(char \<Rightarrow> nat option) \<Rightarrow> string \<Rightarrow> nat list option" where
  "digits_of f [] = Some []"
| "digits_of f (c # cs) =
     (case f c of None \<Rightarrow> None | Some d \<Rightarrow> map_option (\<lambda>ds. d # ds) (digits_of f cs))"

definition is_newline :: "char \<Rightarrow> bool" where
  "is_newline c \<longleftrightarrow> c = CHR 0x0A \<or> c = CHR 0x0D"

definition b64_decode :: "string \<Rightarrow> bytes option" where
  "b64_decode s = Option.bind (digits_of b64_val (filter (\<lambda>c. \<not> is_newline c) s)) b64_undigits"

section \<open>Hexadecimal\<close>

definition hex_char :: "nat \<Rightarrow> char" where "hex_char d = ''0123456789abcdef'' ! d"

definition hex_val :: "char \<Rightarrow> nat option" where
  "hex_val = map_of (zip ''0123456789abcdefABCDEF'' ([0..<16] @ [10..<16]))"

definition hex_encode :: "bytes \<Rightarrow> string" where
  "hex_encode bs = concat (map (\<lambda>b. [hex_char (unat b div 16), hex_char (unat b mod 16)]) bs)"

fun hex_undigits :: "nat list \<Rightarrow> bytes option" where
  "hex_undigits [] = Some []"
| "hex_undigits [p] = None"
| "hex_undigits (p # q # rest) = map_option (\<lambda>bs. of_nat (p * 16 + q) # bs) (hex_undigits rest)"

definition hex_decode :: "string \<Rightarrow> bytes option" where
  "hex_decode s = Option.bind (digits_of hex_val s) hex_undigits"

section \<open>Round trips\<close>

lemma length_b64_alphabet: "length b64_alphabet = 64" and distinct_b64_alphabet: "distinct b64_alphabet"
  by code_simp+

lemma b64_val_char: "d < 64 \<Longrightarrow> b64_val (b64_char d) = Some d"
  unfolding b64_val_def b64_char_def
  using map_of_zip_nth [of b64_alphabet "[0..<64]" d]
  by (simp add: length_b64_alphabet distinct_b64_alphabet)

lemma b64_char_not_newline: "d < 64 \<Longrightarrow> \<not> is_newline (b64_char d)"
proof -
  assume "d < 64"
  then have "b64_char d \<in> set b64_alphabet" by (simp add: b64_char_def length_b64_alphabet)
  moreover have "\<forall>c \<in> set b64_alphabet. \<not> is_newline c" by code_simp
  ultimately show ?thesis by blast
qed

lemma digits_of_map:
  "(\<And>d. d \<in> set ds \<Longrightarrow> f (g d) = Some d) \<Longrightarrow> digits_of f (map g ds) = Some ds"
  by (induction ds) simp_all

lemma digits_of_length: "digits_of f cs = Some ds \<Longrightarrow> length ds = length cs"
  by (induction cs arbitrary: ds) (auto split: option.splits)

lemma b64_digits_less: "d \<in> set (b64_digits bs) \<Longrightarrow> d < 64"
  by (induction bs rule: b64_digits.induct) (auto simp: digit_def)

lemma group_less: "group a b c < 64 ^ 4"
proof -
  have "unat a < 256" "unat b < 256" "unat c < 256" by (rule unat_byte_less)+
  then show ?thesis by (simp add: group_def)
qed

lemma ungroup_digit:
  assumes "v < 64 ^ 4"
  shows "ungroup (digit 0 v) (digit 1 v) (digit 2 v) (digit 3 v) = v"
proof -
  have "v div 262144 < 64" using assms by simp
  then have "digit 0 v = v div 262144" by (simp add: digit_def)
  moreover have "digit 1 v = v div 4096 mod 64" "digit 2 v = v div 64 mod 64" "digit 3 v = v mod 64"
    by (simp_all add: digit_def)
  moreover have "v div 262144 * 262144 + v div 4096 mod 64 * 4096 + v div 64 mod 64 * 64 + v mod 64 = v"
  proof -
    have "v div 64 div 64 = v div 4096" "v div 4096 div 64 = v div 262144"
      by (simp_all flip: div_mult2_eq)
    then show ?thesis
      using div_mult_mod_eq [of v 64] div_mult_mod_eq [of "v div 64" 64] div_mult_mod_eq [of "v div 4096" 64]
      by linarith
  qed
  ultimately show ?thesis by (simp add: ungroup_def)
qed

lemma byte_parts:
  "hi (group a b c) = a" "mid (group a b c) = b" "lo (group a b c) = c"
proof -
  have lt: "unat b < 256" "unat c < 256" by (rule unat_byte_less)+
  have z: "(256 :: byte) = 0" "(65536 :: byte) = 0" by simp_all
  have "group a b c div 65536 = unat a" using lt unfolding group_def by linarith
  then show "hi (group a b c) = a" by (simp add: hi_def)
  have "group a b c div 256 = unat a * 256 + unat b" using lt unfolding group_def by linarith
  then show "mid (group a b c) = b" by (simp add: mid_def z)
  show "lo (group a b c) = c" by (simp add: lo_def group_def z)
qed

lemma digit_zero_tail:
  "digit 3 (group a b 0) = 0" "digit 2 (group a 0 0) = 0" "digit 3 (group a 0 0) = 0"
  by (simp_all add: digit_def group_def)

lemma b64_undigits_digits: "b64_undigits (b64_digits bs) = Some bs"
proof (induction bs rule: b64_digits.induct)
  case (2 a)
  show ?case using ungroup_digit [OF group_less [of a 0 0]] byte_parts [of a 0 0]
    by (simp add: digit_zero_tail)
next
  case (3 a b)
  show ?case using ungroup_digit [OF group_less [of a b 0]] byte_parts [of a b 0]
    by (simp add: digit_zero_tail)
next
  case (4 a b c rest)
  then show ?case using ungroup_digit [OF group_less [of a b c]] byte_parts [of a b c] by simp
qed simp

lemma b64_roundtrip: "b64_decode (b64_encode bs) = Some bs"
proof -
  have "filter (\<lambda>c. \<not> is_newline c) (b64_encode bs) = b64_encode bs"
    by (auto simp: b64_encode_def filter_id_conv b64_char_not_newline dest: b64_digits_less)
  moreover have "digits_of b64_val (b64_encode bs) = Some (b64_digits bs)"
    unfolding b64_encode_def by (rule digits_of_map) (simp add: b64_val_char b64_digits_less)
  ultimately show ?thesis by (simp add: b64_decode_def b64_undigits_digits)
qed

lemma hex_val_char: "d < 16 \<Longrightarrow> hex_val (hex_char d) = Some d"
proof -
  have "\<forall>d < 16. hex_val (hex_char d) = Some d"
    by code_simp
  then show "d < 16 \<Longrightarrow> hex_val (hex_char d) = Some d" by blast
qed

lemma hex_roundtrip: "hex_decode (hex_encode bs) = Some bs"
proof -
  have "digits_of hex_val (hex_encode bs) = Some (concat (map (\<lambda>b. [unat b div 16, unat b mod 16]) bs))"
  proof (induction bs)
    case (Cons b bs)
    have "unat b div 16 < 16" using unat_byte_less [of b] by simp
    then show ?case using Cons by (simp add: hex_encode_def hex_val_char)
  qed (simp add: hex_encode_def)
  moreover have "hex_undigits (concat (map (\<lambda>b. [unat b div 16, unat b mod 16]) bs)) = Some bs"
    by (induction bs) simp_all
  ultimately show ?thesis by (simp add: hex_decode_def)
qed

lemma length_hex_undigits: "hex_undigits ds = Some bs \<Longrightarrow> length ds = 2 * length bs"
  by (induction ds arbitrary: bs rule: hex_undigits.induct) auto

lemma length_hex_decode: "hex_decode s = Some bs \<Longrightarrow> length s = 2 * length bs"
  by (auto simp: hex_decode_def bind_eq_Some_conv dest!: digits_of_length length_hex_undigits)

section \<open>Every hexadecimal string is also base64\<close>

lemma hex_val_is_b64: "hex_val c = Some d \<Longrightarrow> \<not> is_newline c \<and> (\<exists>e. b64_val c = Some e)"
proof -
  assume "hex_val c = Some d"
  then have "c \<in> set ''0123456789abcdefABCDEF''"
    unfolding hex_val_def by (meson map_of_SomeD set_zip_leftD)
  moreover have "list_all (\<lambda>c. \<not> is_newline c \<and> b64_val c \<noteq> None) ''0123456789abcdefABCDEF''"
    by code_simp
  ultimately show ?thesis unfolding list_all_iff by blast
qed

lemma hex_digits_are_b64:
  "digits_of hex_val s = Some ds \<Longrightarrow>
     filter (\<lambda>c. \<not> is_newline c) s = s \<and> (\<exists>es. digits_of b64_val s = Some es)"
proof (induction s arbitrary: ds)
  case (Cons c cs)
  from Cons.prems obtain d ds' where d: "hex_val c = Some d" and cs: "digits_of hex_val cs = Some ds'"
    by (auto split: option.splits)
  show ?case using hex_val_is_b64 [OF d] Cons.IH [OF cs] by auto
qed simp

lemma b64_undigits_quads:
  "length ds = 4 * n \<Longrightarrow> \<exists>bs. b64_undigits ds = Some bs \<and> length bs = 3 * n"
proof (induction n arbitrary: ds)
  case (Suc n)
  then obtain p q r s rest where ds: "ds = p # q # r # s # rest" and "length rest = 4 * n"
    by (cases ds rule: b64_undigits.cases) simp_all
  from Suc.IH [OF this(2)] obtain bs where "b64_undigits rest = Some bs" "length bs = 3 * n" by blast
  then show ?case using ds by simp
qed simp

text \<open>A hexadecimal string of \<open>2n\<close> bytes decodes as base64 to \<open>3n\<close> bytes.\<close>

lemma hex_decodes_as_b64:
  assumes "hex_decode s = Some bs" "length bs = 2 * n"
  shows "\<exists>es. b64_decode s = Some es \<and> length es = 3 * n"
proof -
  from assms(1) obtain ds where ds: "digits_of hex_val s = Some ds"
    by (auto simp: hex_decode_def bind_eq_Some_conv)
  from hex_digits_are_b64 [OF ds] obtain es
    where es: "digits_of b64_val s = Some es" "filter (\<lambda>c. \<not> is_newline c) s = s" by blast
  have "length es = 4 * n" using digits_of_length [OF es(1)] length_hex_decode [OF assms(1)] assms(2) by simp
  from b64_undigits_quads [OF this] show ?thesis using es by (auto simp: b64_decode_def)
qed

end
