(* ===== verification/Ant_Keys.thy ===== *)
theory Ant_Keys
  imports Ant_Primitives Ant_Memory Ant_Base64
begin

text \<open>
  \<open>pkg/crypto/keys.go\<close>: X25519 key pairs, shared secrets, and keys as text. Keys are the
  32-byte arrays \<open>PrivateKey\<close> and \<open>PublicKey\<close>.
\<close>

abbreviation KeySize :: nat where "KeySize \<equiv> 32"

type_synonym PrivateKey = bytes
type_synonym PublicKey = bytes

definition is_key :: "bytes \<Rightarrow> bool" where "is_key k \<longleftrightarrow> length k = KeySize"

section \<open>Key pairs and shared secrets\<close>

text \<open>
  \<open>rnd\<close> is what \<open>io.ReadFull(rand.Reader, priv[:])\<close> delivers: 32 bytes, or an error.
\<close>

definition GenerateKeyPair :: "prims \<Rightarrow> bytes option \<Rightarrow> go_error + (PrivateKey \<times> PublicKey)" where
  "GenerateKeyPair P rnd =
     (case rnd of
        None \<Rightarrow> Inl ErrRandom
      | Some bs \<Rightarrow>
          let priv0 = go_copy (replicate KeySize 0) bs;
              priv1 = priv0[0 := priv0 ! 0 AND 248];
              priv2 = priv1[31 := priv1 ! 31 AND 127];
              priv = priv2[31 := priv2 ! 31 OR 64]
          in Inr (priv, scalar_base_mult P priv))"

definition PublicKey_of :: "prims \<Rightarrow> PrivateKey \<Rightarrow> PublicKey" where
  "PublicKey_of P k = scalar_base_mult P k"

definition SharedSecret :: "prims \<Rightarrow> PrivateKey \<Rightarrow> PublicKey \<Rightarrow> go_error + bytes" where
  "SharedSecret P k peerPub =
     (let ss = scalar_mult P k peerPub;
          isZero = fold (\<lambda>b v. v OR b) ss 0
      in if isZero = 0 then Inl ErrContributory else Inr ss)"

definition PrivateKey_Wipe :: "PrivateKey \<Rightarrow> PrivateKey" where
  "PrivateKey_Wipe k = (case Zero32 (Some k) of Some k' \<Rightarrow> k' | None \<Rightarrow> k)"

section \<open>Keys as text\<close>

definition PublicKey_Base64 :: "PublicKey \<Rightarrow> string" where "PublicKey_Base64 k = b64_encode k"
definition PublicKey_Hex :: "PublicKey \<Rightarrow> string" where "PublicKey_Hex k = hex_encode k"

definition ParsePublicKey :: "string \<Rightarrow> go_error + PublicKey" where
  "ParsePublicKey s =
     (let check = (\<lambda>data. if length data \<noteq> KeySize then Inl (ErrKeyLength (length data))
                          else Inr (go_copy (replicate KeySize 0) data))
      in case b64_decode s of
           Some data \<Rightarrow> check data
         | None \<Rightarrow>
             (case hex_decode s of
                None \<Rightarrow> Inl ErrKeyFormat
              | Some data \<Rightarrow> check data))"

definition ParsePrivateKey :: "string \<Rightarrow> go_error + PrivateKey" where
  "ParsePrivateKey s =
     (let check = (\<lambda>data. if length data \<noteq> KeySize then Inl (ErrKeyLength (length data))
                          else Inr (go_copy (replicate KeySize 0) data))
      in case b64_decode s of
           Some data \<Rightarrow> check data
         | None \<Rightarrow>
             (case hex_decode s of
                None \<Rightarrow> Inl ErrKeyFormat
              | Some data \<Rightarrow> check data))"

section \<open>Lemmas\<close>

lemma GenerateKeyPair_pub: "GenerateKeyPair P rnd = Inr (priv, pub) \<Longrightarrow> pub = PublicKey_of P priv"
  by (auto simp: GenerateKeyPair_def PublicKey_of_def Let_def split: option.splits)

lemma GenerateKeyPair_length: "GenerateKeyPair P rnd = Inr (priv, pub) \<Longrightarrow> length priv = KeySize"
  by (auto simp: GenerateKeyPair_def Let_def split: option.splits)

text \<open>The clamping of RFC 7748: a multiple of 8 with the top bit clear and the next one set.\<close>

lemma GenerateKeyPair_clamped:
  assumes "GenerateKeyPair P rnd = Inr (priv, pub)"
  shows "priv ! 0 AND 7 = 0" "priv ! 31 AND 192 = 64"
proof -
  from assms obtain bs where rnd: "rnd = Some bs"
    by (auto simp: GenerateKeyPair_def split: option.splits)
  define p where "p = go_copy (replicate KeySize (0 :: byte)) bs"
  have len: "length p = 32" by (simp add: p_def)
  have priv: "priv ! 0 = p ! 0 AND 248" "priv ! 31 = (p ! 31 AND 127) OR 64"
    using assms rnd len by (auto simp: GenerateKeyPair_def Let_def p_def [symmetric] nth_list_update)
  have "(x AND 248) AND 7 = 0" for x :: byte by (simp add: and.assoc)
  then show "priv ! 0 AND 7 = 0" by (simp add: priv)
  have "((x AND 127) OR 64) AND 192 = 64" for x :: byte
  proof -
    have "(a OR b) AND c = (a AND c) OR (b AND c)" for a b c :: byte
      by (rule bit_word_eqI) (auto simp: bit_simps)
    then have "((x AND 127) OR 64) AND 192 = ((x AND 127) AND 192) OR (64 AND 192)" .
    also have "64 AND 192 = (64 :: byte)" by simp
    also have "(x AND 127) AND 192 = (x AND 64)" by (simp add: and.assoc)
    also have "(x AND 64) OR 64 = (64 :: byte)"
      by (rule bit_word_eqI) (auto simp: bit_simps)
    finally show ?thesis by simp
  qed
  then show "priv ! 31 AND 192 = 64" by (simp add: priv)
qed

lemma SharedSecret_Inr_iff:
  "SharedSecret P k u = Inr ss \<longleftrightarrow> ss = scalar_mult P k u \<and> (\<exists>b \<in> set ss. b \<noteq> 0)"
  by (auto simp: SharedSecret_def Let_def fold_or_zero_iff)

lemma SharedSecret_Inl_iff:
  "SharedSecret P k u = Inl e \<longleftrightarrow> e = ErrContributory \<and> (\<forall>b \<in> set (scalar_mult P k u). b = 0)"
  by (auto simp: SharedSecret_def Let_def fold_or_zero_iff)

lemma SharedSecret_commute:
  assumes "dh_ok P" "length a = 32" "length b = 32"
  shows "SharedSecret P a (PublicKey_of P b) = SharedSecret P b (PublicKey_of P a)"
  using dh_commute [OF assms] by (simp add: SharedSecret_def PublicKey_of_def)

lemma PrivateKey_Wipe_eq [simp]: "PrivateKey_Wipe k = replicate (length k) 0"
  by (simp add: PrivateKey_Wipe_def)

lemma ParsePublicKey_Base64:
  "ParsePublicKey (PublicKey_Base64 k) = (if length k = 32 then Inr k else Inl (ErrKeyLength (length k)))"
  by (simp add: ParsePublicKey_def PublicKey_Base64_def b64_roundtrip)

lemma ParsePublicKey_length: "ParsePublicKey s = Inr k \<Longrightarrow> length k = KeySize"
  by (auto simp: ParsePublicKey_def Let_def split: option.splits if_splits)

lemma ParsePublicKey_hex_string:
  assumes "hex_decode s = Some d" "length d = 32"
  shows "ParsePublicKey s = Inl (ErrKeyLength 48)"
proof -
  from hex_decodes_as_b64 [OF assms(1), of 16] assms(2)
  obtain es where "b64_decode s = Some es" "length es = 48" by auto
  then show ?thesis by (simp add: ParsePublicKey_def)
qed

section \<open>Properties\<close>

text \<open>
  A printed public key parses back to itself: \<open>ParsePublicKey\<close> inverts \<open>Base64\<close> on
  every 32-byte key, and a text that parses yields a key of 32 bytes.
\<close>

lemma parse_printed_key:
  "ParsePublicKey (PublicKey_Base64 k) = (if length k = KeySize then Inr k else Inl (ErrKeyLength (length k)))
   \<and> (ParsePublicKey s = Inr k' \<longrightarrow> length k' = KeySize)"
  using ParsePublicKey_Base64 ParsePublicKey_length by blast

text \<open>
  C40: The hexadecimal form of a key is never accepted, although the code has a branch for it and
  \<open>Hex\<close> prints it: its 64 characters are also valid base64, which is tried first and yields 48
  bytes, so the length check fails.
\<close>

theorem hex_key_rejected:
  assumes "length k = KeySize"
  shows "ParsePublicKey (PublicKey_Hex k) = Inl (ErrKeyLength 48)"
  using ParsePublicKey_hex_string [OF hex_roundtrip assms] by (simp add: PublicKey_Hex_def)

theorem hex_key_rejected_witness:
  "ParsePublicKey (PublicKey_Hex (replicate 32 9)) = Inl (ErrKeyLength 48)"
  using hex_key_rejected [of "replicate 32 9"] by simp

text \<open>
  Generated private keys are clamped as RFC 7748 asks, whatever the random source delivers, and the
  public key belongs to the private one; without random bytes the call reports the error.
\<close>

lemma generated_keys_clamped:
  "GenerateKeyPair P None = Inl ErrRandom
   \<and> (\<exists>priv. GenerateKeyPair P (Some rnd) = Inr (priv, PublicKey_of P priv) \<and> length priv = KeySize
     \<and> priv ! 0 AND 7 = 0 \<and> priv ! 31 AND 192 = 64)"
proof
  show "GenerateKeyPair P None = Inl ErrRandom" by (simp add: GenerateKeyPair_def)
  obtain priv pub where g: "GenerateKeyPair P (Some rnd) = Inr (priv, pub)"
    by (simp add: GenerateKeyPair_def Let_def)
  then show "\<exists>priv. GenerateKeyPair P (Some rnd) = Inr (priv, PublicKey_of P priv) \<and> length priv = KeySize
     \<and> priv ! 0 AND 7 = 0 \<and> priv ! 31 AND 192 = 64"
    using GenerateKeyPair_pub [OF g] GenerateKeyPair_length [OF g] GenerateKeyPair_clamped [OF g] by blast
qed

end
