(* ===== verification/Ant_SHA256.thy ===== *)
theory Ant_SHA256
  imports Ant_Prelude
begin

text \<open>
  SHA-256 (\<open>crypto/sha256\<close> of the Go standard library), as FIPS 180-4 defines it. The
  handshake of \<open>pkg/crypto/noise.go\<close> hashes with it; the only fact about it that the
  development uses is the length of its digest.
\<close>

definition sha256_K :: "u32 list" where
  "sha256_K = [
    1116352408, 1899447441, 3049323471, 3921009573, 961987163, 1508970993, 2453635748, 2870763221,
    3624381080, 310598401, 607225278, 1426881987, 1925078388, 2162078206, 2614888103, 3248222580,
    3835390401, 4022224774, 264347078, 604807628, 770255983, 1249150122, 1555081692, 1996064986,
    2554220882, 2821834349, 2952996808, 3210313671, 3336571891, 3584528711, 113926993, 338241895,
    666307205, 773529912, 1294757372, 1396182291, 1695183700, 1986661051, 2177026350, 2456956037,
    2730485921, 2820302411, 3259730800, 3345764771, 3516065817, 3600352804, 4094571909, 275423344,
    430227734, 506948616, 659060556, 883997877, 958139571, 1322822218, 1537002063, 1747873779,
    1955562222, 2024104815, 2227730452, 2361852424, 2428436474, 2756734187, 3204031479, 3329325298]"

definition rotr :: "nat \<Rightarrow> u32 \<Rightarrow> u32" where
  "rotr n x = drop_bit n x OR push_bit (32 - n) x"

definition put_be :: "nat \<Rightarrow> 'w::len word \<Rightarrow> bytes" where
  "put_be n v = rev (put_le n v)"

definition get_be :: "bytes \<Rightarrow> u32" where
  "get_be bs = get_le (rev bs)"

text \<open>Padding to whole 64-byte blocks: \<open>0x80\<close>, zeros, the bit length in 64 bits big-endian.\<close>

definition sha256_pad :: "bytes \<Rightarrow> bytes" where
  "sha256_pad m = m @ [0x80] @ replicate ((119 - length m mod 64) mod 64) 0
     @ put_be 8 (of_nat (8 * length m) :: u64)"

text \<open>The message schedule, newest word first.\<close>

primrec schedule :: "nat \<Rightarrow> u32 list \<Rightarrow> u32 list" where
  "schedule 0 w = w"
| "schedule (Suc n) w =
     schedule n
       ((let s0 = rotr 7 (w ! 14) XOR rotr 18 (w ! 14) XOR drop_bit 3 (w ! 14);
             s1 = rotr 17 (w ! 1) XOR rotr 19 (w ! 1) XOR drop_bit 10 (w ! 1)
         in s1 + w ! 6 + s0 + w ! 15) # w)"

type_synonym sha_state = "u32 \<times> u32 \<times> u32 \<times> u32 \<times> u32 \<times> u32 \<times> u32 \<times> u32"

fun sha256_round :: "u32 \<times> u32 \<Rightarrow> sha_state \<Rightarrow> sha_state" where
  "sha256_round (k, w) (a, b, c, d, e, f, g, h) =
     (let S1 = rotr 6 e XOR rotr 11 e XOR rotr 25 e;
          ch = (e AND f) XOR (NOT e AND g);
          t1 = h + S1 + ch + k + w;
          S0 = rotr 2 a XOR rotr 13 a XOR rotr 22 a;
          maj = (a AND b) XOR (a AND c) XOR (b AND c);
          t2 = S0 + maj
      in (t1 + t2, a, b, c, d + t1, e, f, g))"

fun sha_add :: "sha_state \<Rightarrow> sha_state \<Rightarrow> sha_state" where
  "sha_add (a, b, c, d, e, f, g, h) (a', b', c', d', e', f', g', h') =
     (a + a', b + b', c + c', d + d', e + e', f + f', g + g', h + h')"

primrec words_of :: "nat \<Rightarrow> bytes \<Rightarrow> u32 list" where
  "words_of 0 bs = []"
| "words_of (Suc n) bs = get_be (take 4 bs) # words_of n (drop 4 bs)"

definition sha256_block :: "sha_state \<Rightarrow> bytes \<Rightarrow> sha_state" where
  "sha256_block st blk =
     sha_add st (fold sha256_round (zip sha256_K (rev (schedule 48 (rev (words_of 16 blk))))) st)"

primrec sha256_blocks :: "nat \<Rightarrow> sha_state \<Rightarrow> bytes \<Rightarrow> sha_state" where
  "sha256_blocks 0 st bs = st"
| "sha256_blocks (Suc n) st bs = sha256_blocks n (sha256_block st (take 64 bs)) (drop 64 bs)"

definition sha256_init :: sha_state where
  "sha256_init = (1779033703, 3144134277, 1013904242, 2773480762, 1359893119, 2600822924, 528734635, 1541459225)"

fun sha256_digest :: "sha_state \<Rightarrow> bytes" where
  "sha256_digest (a, b, c, d, e, f, g, h) = concat (map (put_be 4) [a, b, c, d, e, f, g, h])"

definition sha256 :: "bytes \<Rightarrow> bytes" where
  "sha256 m =
     (let p = sha256_pad m in sha256_digest (sha256_blocks (length p div 64) sha256_init p))"

lemma length_sha256_digest: "length (sha256_digest st) = 32"
  by (cases st rule: sha256_digest.cases) (simp add: put_be_def)

lemma length_sha256 [simp, len_simps]: "length (sha256 m) = 32"
  by (simp add: sha256_def Let_def length_sha256_digest)

end
