(* ===== verification/Ant_Cipher.thy ===== *)
theory Ant_Cipher
  imports Ant_Buffer Ant_Primitives
begin

text \<open>
  \<open>pkg/crypto/cipher.go\<close>: the AEAD cipher of a session and its in-place operations on packet
  buffers. The method receiver is a pointer that may be nil (\<open>None\<close>): a wiped session keeps
  calling through it.
\<close>

abbreviation TagSize :: nat where "TagSize \<equiv> 16"
abbreviation NonceSize :: nat where "NonceSize \<equiv> 12"

type_synonym CipherSuite = byte

definition CipherChaCha20Poly1305 :: CipherSuite where "CipherChaCha20Poly1305 = 1"
definition CipherAESGCM :: CipherSuite where "CipherAESGCM = 2"

text \<open>The \<open>cipher.AEAD\<close> object is determined by the suite and the key it was made from.\<close>

record AEADCipher =
  aead_key :: bytes
  suite :: CipherSuite

text \<open>
  The constructors it calls reject a key of the wrong size and nothing else, so after the length
  check their error branches cannot be taken.
\<close>

definition NewAEADCipher :: "CipherSuite \<Rightarrow> bytes \<Rightarrow> go_error + AEADCipher" where
  "NewAEADCipher s key =
     (if length key \<noteq> 32 then Inl ErrKeySize
      else if s = CipherChaCha20Poly1305 then Inr \<lparr>aead_key = key, suite = s\<rparr>
      else if s = CipherAESGCM then Inr \<lparr>aead_key = key, suite = s\<rparr>
      else Inl (ErrUnsupportedSuite s))"

definition EncodeNonce :: "u64 \<Rightarrow> bytes \<Rightarrow> bytes" where
  "EncodeNonce counter nonceBuf =
     store_at (store_at nonceBuf 0 (PutUint32 0)) 4 (PutUint64 counter)"

abbreviation nonce_of :: "u64 \<Rightarrow> bytes" where
  "nonce_of counter \<equiv> EncodeNonce counter (replicate NonceSize 0)"

text \<open>
  \<open>Seal(plaintext[:0], \<dots>)\<close> appends in place when the slice's capacity (up to the end of the
  array) holds the result, and allocates a new array otherwise.
\<close>

definition EncryptInPlace ::
  "prims \<Rightarrow> AEADCipher option \<Rightarrow> PacketBuffer \<Rightarrow> u64 \<Rightarrow> bytes \<Rightarrow> (go_error option \<times> PacketBuffer) go" where
  "EncryptInPlace P c buf counter additionalData =
     (let nonce = nonce_of counter;
          requiredCap = Offset buf + Length buf + TagSize
      in if length (Data buf) < requiredCap then Some (Some ErrTagCapacity, buf)
         else do {
           plaintext \<leftarrow> Bytes buf;
           cph \<leftarrow> c;
           let ct = seal P (suite cph) (aead_key cph) nonce plaintext additionalData;
           let data' = (if Offset buf + length ct \<le> length (Data buf)
                        then store_at (Data buf) (Offset buf) ct else Data buf);
           Some (None, buf\<lparr>Data := data', Length := Length buf + TagSize\<rparr>)
         })"

definition DecryptInPlace ::
  "prims \<Rightarrow> AEADCipher option \<Rightarrow> PacketBuffer \<Rightarrow> u64 \<Rightarrow> bytes \<Rightarrow> (go_error option \<times> PacketBuffer) go" where
  "DecryptInPlace P c buf counter additionalData =
     (if Length buf < TagSize then Some (Some ErrShorterThanTag, buf)
      else let nonce = nonce_of counter in do {
        ciphertext \<leftarrow> Bytes buf;
        cph \<leftarrow> c;
        case opened P (suite cph) (aead_key cph) nonce ciphertext additionalData of
          Inl junk \<Rightarrow>
            Some (Some ErrAuthFailed,
                  buf\<lparr>Data := store_at (Data buf) (Offset buf) (go_copy ciphertext junk)\<rparr>)
        | Inr pt \<Rightarrow>
            Some (None,
                  buf\<lparr>Data := store_at (Data buf) (Offset buf) (go_copy ciphertext pt),
                      Length := Length buf - TagSize\<rparr>)
      })"

section \<open>Nonces\<close>

lemma EncodeNonce_eq [codec_simps]:
  "length nonceBuf = NonceSize \<Longrightarrow> EncodeNonce c nonceBuf = [0, 0, 0, 0] @ PutUint64 c"
  by (simp add: EncodeNonce_def store_at_def PutUint32_def put_le_def upt_rec)

lemma length_nonce_of [simp, len_simps]: "length (nonce_of c) = NonceSize"
  by (simp add: EncodeNonce_eq)

lemma nonce_of_inject [simp]: "nonce_of c = nonce_of c' \<longleftrightarrow> c = c'"
  by (simp add: EncodeNonce_eq)

section \<open>Sealing and opening in place\<close>

definition cipher_ok :: "AEADCipher \<Rightarrow> bool" where
  "cipher_ok c \<longleftrightarrow> length (aead_key c) = 32"

lemma NewAEADCipher_ok: "NewAEADCipher s key = Inr c \<Longrightarrow> cipher_ok c \<and> aead_key c = key \<and> suite c = s"
  by (auto simp: NewAEADCipher_def cipher_ok_def split: if_splits)

lemma EncryptInPlace_full:
  "length (Data b) < Offset b + Length b + TagSize \<Longrightarrow> EncryptInPlace P c b n ad = Some (Some ErrTagCapacity, b)"
  by (simp add: EncryptInPlace_def)

lemma wf_of_cap: "Offset b + Length b + n \<le> length (Data b) \<Longrightarrow> wf_buf b"
  by (simp add: wf_buf_def)

lemma EncryptInPlace_ok:
  assumes A: "aead_ok P" and c: "cipher_ok c" and cap: "Offset b + Length b + TagSize \<le> length (Data b)"
  shows "\<exists>b'. EncryptInPlace P (Some c) b n ad = Some (None, b') \<and> wf_buf b'
    \<and> content b' = seal P (suite c) (aead_key c) (nonce_of n) (content b) ad
    \<and> Length b' = Length b + TagSize \<and> Offset b' = Offset b \<and> length (Data b') = length (Data b)"
proof -
  have wf: "wf_buf b" using cap by (rule wf_of_cap)
  let ?ct = "seal P (suite c) (aead_key c) (nonce_of n) (content b) ad"
  have len: "length ?ct = Length b + TagSize"
    using aead_lengthD [OF A] c wf by (simp add: cipher_ok_def)
  then have "Offset b + length ?ct \<le> length (Data b)" using cap by simp
  then show ?thesis using wf cap len take_drop_store_at [of "Offset b" ?ct "Data b"]
    by (simp add: EncryptInPlace_def Let_def content_def wf_buf_def)
qed

lemma EncryptInPlace_nil:
  "Offset b + Length b + TagSize \<le> length (Data b) \<Longrightarrow> EncryptInPlace P None b n ad = None"
  by (simp add: EncryptInPlace_def Let_def wf_of_cap)

lemma DecryptInPlace_short:
  "Length b < TagSize \<Longrightarrow> DecryptInPlace P c b n ad = Some (Some ErrShorterThanTag, b)"
  by (simp add: DecryptInPlace_def)

lemma DecryptInPlace_nil: "TagSize \<le> Length b \<Longrightarrow> wf_buf b \<Longrightarrow> DecryptInPlace P None b n ad = None"
  by (simp add: DecryptInPlace_def)

lemma DecryptInPlace_ok:
  assumes A: "aead_ok P" and c: "cipher_ok c" and wf: "wf_buf b"
    and ct: "content b = seal P (suite c) (aead_key c) (nonce_of n) pt ad"
  shows "\<exists>b'. DecryptInPlace P (Some c) b n ad = Some (None, b') \<and> wf_buf b' \<and> content b' = pt
    \<and> Length b' = length pt \<and> Offset b' = Offset b \<and> length (Data b') = length (Data b)"
proof -
  have key: "length (aead_key c) = 32" using c by (simp add: cipher_ok_def)
  have len: "Length b = length pt + TagSize"
    using aead_lengthD [OF A key, of "nonce_of n" "suite c" pt ad] ct wf length_content [OF wf] by simp
  have op: "opened P (suite c) (aead_key c) (nonce_of n) (content b) ad = Inr pt"
    using aead_open_iff [OF A key] ct by simp
  let ?d = "store_at (Data b) (Offset b) (go_copy (content b) pt)"
  have fits: "Offset b + length (go_copy (content b) pt) \<le> length (Data b)"
    using wf by (simp add: wf_buf_def)
  have "take (length pt) (drop (Offset b) ?d) = pt"
    using take_drop_store_at_prefix [of "length pt" "go_copy (content b) pt" "Offset b" "Data b"] fits wf len
    by (simp add: take_go_copy)
  then show ?thesis using wf len op fits
    by (simp add: DecryptInPlace_def Let_def content_def wf_buf_def)
qed

lemma DecryptInPlace_accepts_only_sealed:
  assumes A: "aead_ok P" and c: "cipher_ok c" and wf: "wf_buf b"
    and dec: "DecryptInPlace P (Some c) b n ad = Some (None, b')"
  shows "content b = seal P (suite c) (aead_key c) (nonce_of n) (content b') ad"
proof -
  have key: "length (aead_key c) = 32" using c by (simp add: cipher_ok_def)
  from dec obtain pt where "opened P (suite c) (aead_key c) (nonce_of n) (content b) ad = Inr pt"
    using wf by (auto simp: DecryptInPlace_def Let_def split: if_splits sum.splits)
  then have ct: "content b = seal P (suite c) (aead_key c) (nonce_of n) pt ad"
    using aead_open_iff [OF A key] by simp
  from DecryptInPlace_ok [OF A c wf ct] dec have "content b' = pt" by auto
  then show ?thesis using ct by simp
qed

lemma DecryptInPlace_forged:
  assumes wf: "wf_buf b" and len: "TagSize \<le> Length b"
    and junk: "opened P (suite c) (aead_key c) (nonce_of n) (content b) ad = Inl junk"
  shows "\<exists>b'. DecryptInPlace P (Some c) b n ad = Some (Some ErrAuthFailed, b') \<and> wf_buf b'"
  using assms by (simp add: DecryptInPlace_def Let_def wf_buf_def)

section \<open>Both operations are in-place stages\<close>

interpretation encrypt_stage: buffer_stage "\<lambda>b. map_option snd (EncryptInPlace P (Some c) b n ad)" for P c n ad
proof unfold_locales
  fix b b' :: PacketBuffer
  assume wf: "wf_buf b"
  then show "\<exists>b'. map_option snd (EncryptInPlace P (Some c) b n ad) = Some b'"
    by (simp add: EncryptInPlace_def Let_def)
  assume "map_option snd (EncryptInPlace P (Some c) b n ad) = Some b'"
  then show "wf_buf b'" "length (Data b') = length (Data b)"
    using wf by (auto simp: EncryptInPlace_def Let_def wf_buf_def split: if_splits)
qed

interpretation decrypt_stage: buffer_stage "\<lambda>b. map_option snd (DecryptInPlace P (Some c) b n ad)" for P c n ad
proof unfold_locales
  fix b b' :: PacketBuffer
  assume wf: "wf_buf b"
  then show "\<exists>b'. map_option snd (DecryptInPlace P (Some c) b n ad) = Some b'"
    by (auto simp: DecryptInPlace_def Let_def split: sum.splits)
  assume "map_option snd (DecryptInPlace P (Some c) b n ad) = Some b'"
  then show "wf_buf b'" "length (Data b') = length (Data b)"
    using wf by (auto simp: DecryptInPlace_def Let_def wf_buf_def split: if_splits sum.splits)
qed

section \<open>Properties\<close>

text \<open>
  In-place decryption undoes in-place encryption. For a cipher made by \<open>NewAEADCipher\<close> and
  a buffer with 16 bytes of free capacity behind its payload, encryption succeeds and grows the
  payload by the tag; decryption with the same counter and additional data succeeds and restores it, and
  the backing array keeps its size.
\<close>

lemma decrypt_encrypt:
  assumes A: "aead_ok P" and c: "NewAEADCipher s key = Inr c" and cap: "Offset b + Length b + TagSize \<le> length (Data b)"
  shows "\<exists>b1 b2. EncryptInPlace P (Some c) b n ad = Some (None, b1) \<and> Length b1 = Length b + TagSize
    \<and> DecryptInPlace P (Some c) b1 n ad = Some (None, b2) \<and> content b2 = content b
    \<and> length (Data b2) = length (Data b)"
proof -
  have ok: "cipher_ok c" using NewAEADCipher_ok [OF c] by simp
  from EncryptInPlace_ok [OF A ok cap, of n ad] obtain b1 where b1:
    "EncryptInPlace P (Some c) b n ad = Some (None, b1)" "wf_buf b1"
    "content b1 = seal P (suite c) (aead_key c) (nonce_of n) (content b) ad"
    "Length b1 = Length b + TagSize" "length (Data b1) = length (Data b)" by blast
  from DecryptInPlace_ok [OF A ok b1(2,3)] b1 show ?thesis by auto
qed

text \<open>
  C29: The in-place operations, errors included, never leave the buffer: on every well-formed buffer
  they return, and so does any sequence of encryptions and decryptions under arbitrary counters;
  the result is well-formed and has the same capacity.
\<close>

theorem inplace_pipeline_safe:
  assumes "wf_buf b"
    and "list_all (\<lambda>st. \<exists>c n ad. st = (\<lambda>b. map_option snd (EncryptInPlace P (Some c) b n ad))
                       \<or> st = (\<lambda>b. map_option snd (DecryptInPlace P (Some c) b n ad))) ss"
  shows "\<exists>b'. run_stages ss b = Some b' \<and> wf_buf b' \<and> length (Data b') = length (Data b)"
proof -
  have "list_all buffer_stage ss"
    using assms(2) encrypt_stage.buffer_stage_axioms decrypt_stage.buffer_stage_axioms
    by (auto simp: list_all_iff)
  then show ?thesis using run_stages_ok assms(1) by blast
qed

theorem inplace_pipeline_safe_witness:
  "\<exists>b'. run_stages [\<lambda>b. map_option snd (EncryptInPlace demo_prims
        (Some \<lparr>aead_key = replicate 32 1, suite = CipherAESGCM\<rparr>) b 7 [])]
      \<lparr>Data = replicate 20 3, Length = 4, Offset = 0\<rparr> = Some b' \<and> wf_buf b'"
  using inplace_pipeline_safe [of "\<lparr>Data = replicate 20 3, Length = 4, Offset = 0\<rparr>" demo_prims
      "[\<lambda>b. map_option snd (EncryptInPlace demo_prims
        (Some \<lparr>aead_key = replicate 32 1, suite = CipherAESGCM\<rparr>) b 7 [])]"]
  by (auto simp: wf_buf_def simp del: run_stages.simps)

end
