(* ===== verification/Ant_Noise.thy ===== *)
theory Ant_Noise
  imports Ant_Keys Ant_SHA256 Ant_Cipher
begin

text \<open>
  \<open>pkg/crypto/noise.go\<close>: the one-round-trip Noise IK handshake. Each method returns its
  result and the handshake object it leaves behind, also on the error branches. Randomness and
  the clock are arguments. The wiping of local shared secrets has no effect that a caller can see
  and is not represented; the wiping of the initiator's ephemeral key is.
\<close>

section \<open>State\<close>

abbreviation NoiseHandshakeInitSize :: nat where "NoiseHandshakeInitSize \<equiv> 32 + 48 + (12 + 16)"
abbreviation NoiseHandshakeRespSize :: nat where "NoiseHandshakeRespSize \<equiv> 32 + (4 + 16)"

definition bytes_of_string :: "string \<Rightarrow> bytes" where
  "bytes_of_string s = map of_char s"

definition NoiseProtocolName :: string where
  "NoiseProtocolName = ''Noise_IK_25519_ChaChaPoly_SHA256''"

record SessionKeys =
  SendKey :: bytes
  RecvKey :: bytes
  SenderID :: u32
  PeerID :: u32

definition SessionKeys_Wipe :: "SessionKeys \<Rightarrow> SessionKeys" where
  "SessionKeys_Wipe sk =
     sk\<lparr>SendKey := the (Zero32 (Some (SendKey sk))), RecvKey := the (Zero32 (Some (RecvKey sk)))\<rparr>"

record NoiseState =
  chainingKey :: bytes
  hash :: bytes

definition newNoiseState :: NoiseState where
  "newNoiseState = (let h = sha256 (bytes_of_string NoiseProtocolName) in \<lparr>chainingKey = h, hash = h\<rparr>)"

text \<open>\<open>io.ReadFull(kdf, \<dots>)\<close>: the next 32 bytes of the key stream, from position \<open>i\<close>.\<close>

definition read32 :: "(nat \<Rightarrow> byte) \<Rightarrow> nat \<Rightarrow> bytes" where
  "read32 kdf i = map kdf [i..<i + 32]"

definition mixKey :: "prims \<Rightarrow> NoiseState \<Rightarrow> bytes \<Rightarrow> bytes \<times> NoiseState" where
  "mixKey P ns inputKeyMaterial =
     (let kdf = hkdf P inputKeyMaterial (chainingKey ns) [];
          nextCk = read32 kdf 0;
          tempKey = read32 kdf 32
      in (tempKey, ns\<lparr>chainingKey := nextCk\<rparr>))"

definition mixHash :: "NoiseState \<Rightarrow> bytes \<Rightarrow> NoiseState" where
  "mixHash ns data = ns\<lparr>hash := go_copy (hash ns) (sha256 (hash ns @ data))\<rparr>"

text \<open>The final split into the two transport keys.\<close>

definition split_info :: bytes where
  "split_info = bytes_of_string ''AnonymousAnt-Split''"

definition chacha_seal :: "prims \<Rightarrow> bytes \<Rightarrow> bytes \<Rightarrow> bytes \<Rightarrow> bytes" where
  "chacha_seal P key pt ad = seal P CipherChaCha20Poly1305 key (replicate 12 0) pt ad"

definition chacha_open :: "prims \<Rightarrow> bytes \<Rightarrow> bytes \<Rightarrow> bytes \<Rightarrow> bytes option" where
  "chacha_open P key ct ad =
     (case opened P CipherChaCha20Poly1305 key (replicate 12 0) ct ad of Inl _ \<Rightarrow> None | Inr pt \<Rightarrow> Some pt)"

section \<open>Initiator\<close>

record InitiatorHandshake =
  ih_staticPriv :: PrivateKey
  ih_peerStatic :: PublicKey
  ih_ephemPriv :: PrivateKey
  ih_ephemPub :: PublicKey
  ih_localIndex :: u32
  ih_remoteIndex :: u32
  ih_noise :: NoiseState

definition NewInitiatorHandshake ::
  "prims \<Rightarrow> PrivateKey \<Rightarrow> PublicKey \<Rightarrow> u32 \<Rightarrow> bytes option \<Rightarrow> go_error + InitiatorHandshake" where
  "NewInitiatorHandshake P localStatic peerStatic localIndex rnd =
     (case GenerateKeyPair P rnd of
        Inl e \<Rightarrow> Inl e
      | Inr (ephemPriv, ephemPub) \<Rightarrow>
          let ns = mixHash newNoiseState peerStatic
          in Inr \<lparr>ih_staticPriv = localStatic, ih_peerStatic = peerStatic, ih_ephemPriv = ephemPriv,
                  ih_ephemPub = ephemPub, ih_localIndex = localIndex, ih_remoteIndex = 0,
                  ih_noise = ns\<rparr>)"

definition CreateInitiation ::
  "prims \<Rightarrow> InitiatorHandshake \<Rightarrow> int \<Rightarrow> (go_error + bytes) \<times> InitiatorHandshake" where
  "CreateInitiation P ih now =
     (let out = replicate NoiseHandshakeInitSize 0;
          out1 = store_at out 0 (ih_ephemPub ih);
          n1 = mixHash (ih_noise ih) (ih_ephemPub ih)
      in case SharedSecret P (ih_ephemPriv ih) (ih_peerStatic ih) of
           Inl e \<Rightarrow> (Inl e, ih\<lparr>ih_noise := n1\<rparr>)
         | Inr es \<Rightarrow>
             let (key1, n2) = mixKey P n1 es;
                 localPub = PublicKey_of P (ih_staticPriv ih);
                 out2 = store_at out1 32 (chacha_seal P key1 localPub (hash n2));
                 n3 = mixHash n2 (take 48 (drop 32 out2))
             in case SharedSecret P (ih_staticPriv ih) (ih_peerStatic ih) of
                  Inl e \<Rightarrow> (Inl e, ih\<lparr>ih_noise := n3\<rparr>)
                | Inr ss \<Rightarrow>
                    let (key2, n4) = mixKey P n3 ss;
                        payload = PutUint32 (ih_localIndex ih) @ PutUint64 (word_of_int now);
                        out3 = store_at out2 80 (chacha_seal P key2 payload (hash n4));
                        n5 = mixHash n4 (take 28 (drop 80 out3))
                    in (Inr out3, ih\<lparr>ih_noise := n5\<rparr>))"

definition ConsumeResponse ::
  "prims \<Rightarrow> InitiatorHandshake \<Rightarrow> bytes \<Rightarrow> (go_error + SessionKeys) \<times> InitiatorHandshake" where
  "ConsumeResponse P ih resp =
     (if length resp < NoiseHandshakeRespSize then (Inl ErrRespShort, ih)
      else
        let respEphemPub = take 32 resp;
            n1 = mixHash (ih_noise ih) respEphemPub
        in case SharedSecret P (ih_ephemPriv ih) respEphemPub of
             Inl e \<Rightarrow> (Inl e, ih\<lparr>ih_noise := n1\<rparr>)
           | Inr ee \<Rightarrow>
               let (_, n2) = mixKey P n1 ee
               in case SharedSecret P (ih_staticPriv ih) respEphemPub of
                    Inl e \<Rightarrow> (Inl e, ih\<lparr>ih_noise := n2\<rparr>)
                  | Inr se \<Rightarrow>
                      let (key, n3) = mixKey P n2 se;
                          ct = take 20 (drop 32 resp)
                      in case chacha_open P key ct (hash n3) of
                           None \<Rightarrow> (Inl ErrRespAuth, ih\<lparr>ih_noise := n3\<rparr>)
                         | Some decryptedPayload \<Rightarrow>
                             let n4 = mixHash n3 ct;
                                 remoteIndex = (if 4 \<le> length decryptedPayload
                                                then Uint32 (take 4 decryptedPayload) else ih_remoteIndex ih);
                                 kdf = hkdf P [] (chainingKey n4) split_info;
                                 sk = \<lparr>SendKey = read32 kdf 0, RecvKey = read32 kdf 32,
                                       SenderID = ih_localIndex ih, PeerID = remoteIndex\<rparr>
                             in (Inr sk,
                                 ih\<lparr>ih_noise := n4, ih_remoteIndex := remoteIndex,
                                    ih_ephemPriv := PrivateKey_Wipe (ih_ephemPriv ih)\<rparr>))"

section \<open>Responder\<close>

record ResponderHandshake =
  rh_staticPriv :: PrivateKey
  rh_localIndex :: u32
  rh_remoteIndex :: u32
  rh_peerStatic :: PublicKey
  rh_noise :: NoiseState

definition NewResponderHandshake :: "prims \<Rightarrow> PrivateKey \<Rightarrow> u32 \<Rightarrow> ResponderHandshake" where
  "NewResponderHandshake P localStatic localIndex =
     (let ns = mixHash newNoiseState (PublicKey_of P localStatic)
      in \<lparr>rh_staticPriv = localStatic, rh_localIndex = localIndex, rh_remoteIndex = 0,
          rh_peerStatic = replicate 32 0, rh_noise = ns\<rparr>)"

text \<open>The second half of \<open>ConsumeInitiation\<close>, from the responder's ephemeral key pair on.\<close>

definition respond ::
  "prims \<Rightarrow> ResponderHandshake \<Rightarrow> PublicKey \<Rightarrow> bytes option
     \<Rightarrow> (go_error + (bytes \<times> SessionKeys)) \<times> ResponderHandshake" where
  "respond P rh initEphemPub rnd =
     (case GenerateKeyPair P rnd of
        Inl e \<Rightarrow> (Inl e, rh)
      | Inr (respEphemPriv, respEphemPub) \<Rightarrow>
          let respMsg = store_at (replicate NoiseHandshakeRespSize 0) 0 respEphemPub;
              n5 = mixHash (rh_noise rh) respEphemPub
          in case SharedSecret P respEphemPriv initEphemPub of
               Inl e \<Rightarrow> (Inl e, rh\<lparr>rh_noise := n5\<rparr>)
             | Inr ee \<Rightarrow>
                 let (_, n6) = mixKey P n5 ee
                 in case SharedSecret P respEphemPriv (rh_peerStatic rh) of
                      Inl e \<Rightarrow> (Inl e, rh\<lparr>rh_noise := n6\<rparr>)
                    | Inr se \<Rightarrow>
                        let (key3, n7) = mixKey P n6 se;
                            respPayload = PutUint32 (rh_localIndex rh);
                            respMsg1 = store_at respMsg 32 (chacha_seal P key3 respPayload (hash n7));
                            n8 = mixHash n7 (take 20 (drop 32 respMsg1));
                            kdf = hkdf P [] (chainingKey n8) split_info;
                            sk = \<lparr>SendKey = read32 kdf 32, RecvKey = read32 kdf 0,
                                  SenderID = rh_localIndex rh, PeerID = rh_remoteIndex rh\<rparr>
                        in (Inr (respMsg1, sk), rh\<lparr>rh_noise := n8\<rparr>))"

definition ConsumeInitiation ::
  "prims \<Rightarrow> ResponderHandshake \<Rightarrow> bytes \<Rightarrow> bytes option
     \<Rightarrow> (go_error + (bytes \<times> SessionKeys)) \<times> ResponderHandshake" where
  "ConsumeInitiation P rh initMsg rnd =
     (if length initMsg < NoiseHandshakeInitSize then (Inl ErrInitShort, rh)
      else
        let initEphemPub = take 32 initMsg;
            n1 = mixHash (rh_noise rh) initEphemPub
        in case SharedSecret P (rh_staticPriv rh) initEphemPub of
             Inl e \<Rightarrow> (Inl e, rh\<lparr>rh_noise := n1\<rparr>)
           | Inr es \<Rightarrow>
               let (key1, n2) = mixKey P n1 es;
                   ct1 = take 48 (drop 32 initMsg)
               in case chacha_open P key1 ct1 (hash n2) of
                    None \<Rightarrow> (Inl ErrStaticDecrypt, rh\<lparr>rh_noise := n2\<rparr>)
                  | Some decryptedStatic \<Rightarrow>
                      let peerStatic = go_copy (rh_peerStatic rh) decryptedStatic;
                          n3 = mixHash n2 ct1
                      in case SharedSecret P (rh_staticPriv rh) peerStatic of
                           Inl e \<Rightarrow> (Inl e, rh\<lparr>rh_noise := n3, rh_peerStatic := peerStatic\<rparr>)
                         | Inr ss \<Rightarrow>
                             let (key2, n4) = mixKey P n3 ss;
                                 ct2 = take 28 (drop 80 initMsg)
                             in case chacha_open P key2 ct2 (hash n4) of
                                  None \<Rightarrow> (Inl ErrPayloadDecrypt,
                                          rh\<lparr>rh_noise := n4, rh_peerStatic := peerStatic\<rparr>)
                                | Some decryptedPayload \<Rightarrow>
                                    let n5 = mixHash n4 ct2;
                                        remoteIndex = (if 4 \<le> length decryptedPayload
                                                       then Uint32 (take 4 decryptedPayload)
                                                       else rh_remoteIndex rh)
                                    in respond P (rh\<lparr>rh_noise := n5, rh_peerStatic := peerStatic,
                                                     rh_remoteIndex := remoteIndex\<rparr>) initEphemPub rnd)"

definition PeerStaticKey :: "ResponderHandshake \<Rightarrow> PublicKey" where
  "PeerStaticKey rh = rh_peerStatic rh"

text \<open>\<open>rnd\<close> is what \<open>rand.Read\<close> left in the 4-byte array.\<close>

definition GenerateIndex :: "bytes \<Rightarrow> u32" where
  "GenerateIndex rnd = (let idx = Uint32 rnd in if idx = 0 then 1 else idx)"

section \<open>Lengths\<close>

lemma length_read32 [simp, len_simps]: "length (read32 kdf i) = 32"
  by (simp add: read32_def)

lemma mixKey_simps [simp]:
  "fst (mixKey P ns ikm) = read32 (hkdf P ikm (chainingKey ns) []) 32"
  "snd (mixKey P ns ikm) = ns\<lparr>chainingKey := read32 (hkdf P ikm (chainingKey ns) []) 0\<rparr>"
  by (simp_all add: mixKey_def Let_def)

lemma case_mixKey: "(case mixKey P ns ikm of (k, n) \<Rightarrow> f k n) = f (fst (mixKey P ns ikm)) (snd (mixKey P ns ikm))"
  by (simp add: case_prod_beta)

lemma length_mixKey [simp, len_simps]: "length (fst (mixKey P ns ikm)) = 32"
  by simp

lemma chacha_open_seal:
  "aead_ok P \<Longrightarrow> length key = 32 \<Longrightarrow> chacha_open P key (chacha_seal P key pt ad) ad = Some pt"
  by (simp add: chacha_open_def chacha_seal_def)

lemma chacha_open_only_sealed:
  "aead_ok P \<Longrightarrow> length key = 32 \<Longrightarrow> chacha_open P key ct ad = Some pt \<Longrightarrow> ct = chacha_seal P key pt ad"
  by (auto simp: chacha_open_def chacha_seal_def aead_open_iff split: sum.splits)

lemma length_chacha_seal:
  "aead_ok P \<Longrightarrow> length key = 32 \<Longrightarrow> length (chacha_seal P key pt ad) = length pt + 16"
  by (simp add: chacha_seal_def aead_lengthD)

lemma GenerateIndex_nonzero: "GenerateIndex rnd \<noteq> 0"
  by (simp add: GenerateIndex_def Let_def)

section \<open>One message field: mix a key, seal or open, mix the ciphertext\<close>

text \<open>The step that both sides repeat for every encrypted field of the two messages.\<close>

definition seal_step :: "prims \<Rightarrow> NoiseState \<Rightarrow> bytes \<Rightarrow> bytes \<Rightarrow> bytes \<times> NoiseState" where
  "seal_step P ns dh pt =
     (let n = snd (mixKey P ns dh); ct = chacha_seal P (fst (mixKey P ns dh)) pt (hash n)
      in (ct, mixHash n ct))"

definition open_step :: "prims \<Rightarrow> NoiseState \<Rightarrow> bytes \<Rightarrow> bytes \<Rightarrow> (bytes \<times> NoiseState) option" where
  "open_step P ns dh ct =
     (let n = snd (mixKey P ns dh)
      in map_option (\<lambda>pt. (pt, mixHash n ct)) (chacha_open P (fst (mixKey P ns dh)) ct (hash n)))"

lemma open_seal_step: "aead_ok P \<Longrightarrow> seal_step P ns dh pt = (ct, ns') \<Longrightarrow> open_step P ns dh ct = Some (pt, ns')"
  by (auto simp: seal_step_def open_step_def Let_def chacha_open_seal simp del: mixKey_simps)

lemma open_step_only_sealed: "aead_ok P \<Longrightarrow> open_step P ns dh ct = Some (pt, ns') \<Longrightarrow> seal_step P ns dh pt = (ct, ns')"
  by (auto simp: seal_step_def open_step_def Let_def simp del: mixKey_simps
      dest!: chacha_open_only_sealed [OF _ length_mixKey])

lemma length_seal_step: "aead_ok P \<Longrightarrow> seal_step P ns dh pt = (ct, ns') \<Longrightarrow> length ct = length pt + 16"
  by (auto simp: seal_step_def Let_def length_chacha_seal simp del: mixKey_simps)

section \<open>The four methods on their successful paths\<close>

lemma store_at_zeros:
  "store_at (replicate n 0) 0 xs = xs @ replicate (n - length xs) 0"
  by (simp add: store_at_def)

lemma CreateInitiation_ok:
  assumes A: "aead_ok P" and pub: "length (ih_ephemPub ih) = 32"
    and stat: "length (PublicKey_of P (ih_staticPriv ih)) = 32"
    and es: "SharedSecret P (ih_ephemPriv ih) (ih_peerStatic ih) = Inr es"
    and ss: "SharedSecret P (ih_staticPriv ih) (ih_peerStatic ih) = Inr ss"
    and s1: "seal_step P (mixHash (ih_noise ih) (ih_ephemPub ih)) es (PublicKey_of P (ih_staticPriv ih)) = (ct1, n3)"
    and s2: "seal_step P n3 ss (PutUint32 (ih_localIndex ih) @ PutUint64 (word_of_int now)) = (ct2, n5)"
  shows "CreateInitiation P ih now = (Inr (ih_ephemPub ih @ ct1 @ ct2), ih\<lparr>ih_noise := n5\<rparr>)"
proof -
  have len: "length ct1 = 48" "length ct2 = 28"
    using length_seal_step [OF A s1] length_seal_step [OF A s2] stat by simp_all
  have out1: "store_at (replicate NoiseHandshakeInitSize 0) 0 (ih_ephemPub ih) = ih_ephemPub ih @ replicate 76 0"
    using pub by (simp add: store_at_zeros)
  have out2: "store_at (ih_ephemPub ih @ replicate 76 0) 32 ct1 = ih_ephemPub ih @ ct1 @ replicate 28 0"
    using pub len by (simp add: store_at_def)
  have out3: "store_at (ih_ephemPub ih @ ct1 @ replicate 28 0) 80 ct2 = ih_ephemPub ih @ ct1 @ ct2"
    using pub len by (simp add: store_at_def)
  let ?n2 = "snd (mixKey P (mixHash (ih_noise ih) (ih_ephemPub ih)) es)"
  have c1: "chacha_seal P (fst (mixKey P (mixHash (ih_noise ih) (ih_ephemPub ih)) es))
      (PublicKey_of P (ih_staticPriv ih)) (hash ?n2) = ct1" "mixHash ?n2 ct1 = n3"
    using s1 by (auto simp: seal_step_def Let_def simp del: mixKey_simps)
  have c2: "chacha_seal P (fst (mixKey P n3 ss)) (PutUint32 (ih_localIndex ih) @ PutUint64 (word_of_int now))
      (hash (snd (mixKey P n3 ss))) = ct2" "mixHash (snd (mixKey P n3 ss)) ct2 = n5"
    using s2 by (auto simp: seal_step_def Let_def simp del: mixKey_simps)
  show ?thesis
    unfolding CreateInitiation_def Let_def es ss sum.case case_mixKey out1 c1 out2
    using pub len by (simp add: c1 c2 out3 del: mixKey_simps)
qed

lemma ConsumeInitiation_ok:
  assumes len: "length epub = 32" "length ct1 = 48" "length ct2 = 28"
    and peer: "length (rh_peerStatic rh) = 32" "length pt1 = 32" "4 \<le> length pt2"
    and es: "SharedSecret P (rh_staticPriv rh) epub = Inr es"
    and o1: "open_step P (mixHash (rh_noise rh) epub) es ct1 = Some (pt1, n3)"
    and ss: "SharedSecret P (rh_staticPriv rh) pt1 = Inr ss"
    and o2: "open_step P n3 ss ct2 = Some (pt2, n5)"
  shows "ConsumeInitiation P rh (epub @ ct1 @ ct2) rnd =
    respond P (rh\<lparr>rh_noise := n5, rh_peerStatic := pt1, rh_remoteIndex := Uint32 (take 4 pt2)\<rparr>) epub rnd"
proof -
  let ?m = "mixKey P (mixHash (rh_noise rh) epub) es"
  have c1: "chacha_open P (fst ?m) ct1 (hash (snd ?m)) = Some pt1" "mixHash (snd ?m) ct1 = n3"
    using o1 by (auto simp: open_step_def Let_def simp del: mixKey_simps)
  have c2: "chacha_open P (fst (mixKey P n3 ss)) ct2 (hash (snd (mixKey P n3 ss))) = Some pt2"
    "mixHash (snd (mixKey P n3 ss)) ct2 = n5"
    using o2 by (auto simp: open_step_def Let_def simp del: mixKey_simps)
  show ?thesis
    using len peer by (simp add: ConsumeInitiation_def Let_def case_mixKey es ss c1 c2 del: mixKey_simps)
qed

lemma respond_ok:
  assumes A: "aead_ok P" and g: "GenerateKeyPair P rnd = Inr (epriv, epub)" and pub: "length epub = 32"
    and ee: "SharedSecret P epriv initEphemPub = Inr ee"
    and se: "SharedSecret P epriv (rh_peerStatic rh) = Inr se"
    and s3: "seal_step P (snd (mixKey P (mixHash (rh_noise rh) epub) ee)) se (PutUint32 (rh_localIndex rh)) = (ct3, n8)"
  shows "respond P rh initEphemPub rnd =
    (Inr (epub @ ct3,
          \<lparr>SendKey = read32 (hkdf P [] (chainingKey n8) split_info) 32,
           RecvKey = read32 (hkdf P [] (chainingKey n8) split_info) 0,
           SenderID = rh_localIndex rh, PeerID = rh_remoteIndex rh\<rparr>), rh\<lparr>rh_noise := n8\<rparr>)"
proof -
  have len: "length ct3 = 20" using length_seal_step [OF A s3] by simp
  have out1: "store_at (replicate NoiseHandshakeRespSize 0) 0 epub = epub @ replicate 20 0"
    using pub by (simp add: store_at_zeros)
  have out2: "store_at (epub @ replicate 20 0) 32 ct3 = epub @ ct3"
    using pub len by (simp add: store_at_def)
  let ?m = "mixKey P (snd (mixKey P (mixHash (rh_noise rh) epub) ee)) se"
  have c3: "chacha_seal P (fst ?m) (PutUint32 (rh_localIndex rh)) (hash (snd ?m)) = ct3" "mixHash (snd ?m) ct3 = n8"
    using s3 by (auto simp: seal_step_def Let_def simp del: mixKey_simps)
  show ?thesis
    unfolding respond_def Let_def g sum.case prod.case ee se case_mixKey out1 c3 out2
    using pub len by (simp add: c3 out2 del: mixKey_simps)
qed

lemma ConsumeResponse_ok:
  assumes len: "length epub = 32" "length ct3 = 20" "4 \<le> length pt"
    and ee: "SharedSecret P (ih_ephemPriv ih) epub = Inr ee"
    and se: "SharedSecret P (ih_staticPriv ih) epub = Inr se"
    and o3: "open_step P (snd (mixKey P (mixHash (ih_noise ih) epub) ee)) se ct3 = Some (pt, n4)"
  shows "ConsumeResponse P ih (epub @ ct3) =
    (Inr \<lparr>SendKey = read32 (hkdf P [] (chainingKey n4) split_info) 0,
          RecvKey = read32 (hkdf P [] (chainingKey n4) split_info) 32,
          SenderID = ih_localIndex ih, PeerID = Uint32 (take 4 pt)\<rparr>,
     ih\<lparr>ih_noise := n4, ih_remoteIndex := Uint32 (take 4 pt),
        ih_ephemPriv := PrivateKey_Wipe (ih_ephemPriv ih)\<rparr>)"
proof -
  let ?m = "mixKey P (snd (mixKey P (mixHash (ih_noise ih) epub) ee)) se"
  have c3: "chacha_open P (fst ?m) ct3 (hash (snd ?m)) = Some pt" "mixHash (snd ?m) ct3 = n4"
    using o3 by (auto simp: open_step_def Let_def simp del: mixKey_simps)
  show ?thesis
    using len by (simp add: ConsumeResponse_def Let_def case_mixKey ee se c3 del: mixKey_simps PrivateKey_Wipe_eq)
qed

lemma respond_length:
  assumes A: "aead_ok P" and D: "dh_ok P" and r: "respond P rh initEphemPub rnd = (Inr (resp, sk), rh')"
  shows "length resp = NoiseHandshakeRespSize \<and> length (SendKey sk) = 32 \<and> length (RecvKey sk) = 32"
proof -
  obtain f fpub where g: "GenerateKeyPair P rnd = Inr (f, fpub)"
    using r by (auto simp: respond_def split: sum.splits)
  have "length fpub = 32"
    using GenerateKeyPair_length [OF g] GenerateKeyPair_pub [OF g] dh_length(2) [OF D, of f] by (simp add: PublicKey_of_def)
  then show ?thesis using r g
    by (auto simp: respond_def Let_def case_mixKey store_at_def length_chacha_seal [OF A] simp del: mixKey_simps
        split: sum.splits)
qed

lemma ConsumeInitiation_respond:
  assumes "ConsumeInitiation P rh msg rnd = (Inr r, rh')"
  shows "\<exists>rh1. respond P rh1 (take 32 msg) rnd = (Inr r, rh')"
  using assms by (auto simp: ConsumeInitiation_def Let_def case_mixKey simp del: mixKey_simps
      split: if_splits sum.splits option.splits)

section \<open>Agreement and authentication\<close>

text \<open>The initiator's object after \<open>NewInitiatorHandshake\<close> with ephemeral key \<open>e\<close>.\<close>

definition initiator_start :: "prims \<Rightarrow> PrivateKey \<Rightarrow> PublicKey \<Rightarrow> PrivateKey \<Rightarrow> u32 \<Rightarrow> InitiatorHandshake" where
  "initiator_start P a peer e ci = \<lparr>ih_staticPriv = a, ih_peerStatic = peer, ih_ephemPriv = e,
     ih_ephemPub = PublicKey_of P e, ih_localIndex = ci, ih_remoteIndex = 0,
     ih_noise = mixHash newNoiseState peer\<rparr>"

lemma NewInitiatorHandshake_eq:
  assumes "GenerateKeyPair P r1 = Inr (e, epub)"
  shows "NewInitiatorHandshake P a peer ci r1 = Inr (initiator_start P a peer e ci)"
  using assms GenerateKeyPair_pub [OF assms]
  by (simp add: NewInitiatorHandshake_def initiator_start_def Let_def)

lemma length_PublicKey_of: "dh_ok P \<Longrightarrow> length k = 32 \<Longrightarrow> length (PublicKey_of P k) = 32"
  by (simp add: PublicKey_of_def dh_length)

text \<open>The first message: the responder recovers the initiator's static key, index and transcript.\<close>

lemma initiation_run:
  fixes ci si :: u32
  assumes A: "aead_ok P" and D: "dh_ok P" and len: "length a = 32" "length b = 32" "length e = 32"
    and es: "SharedSecret P e (PublicKey_of P b) = Inr es" and ss: "SharedSecret P a (PublicKey_of P b) = Inr ss"
  defines "ih \<equiv> initiator_start P a (PublicKey_of P b) e ci" and "rh \<equiv> NewResponderHandshake P b si"
  shows "\<exists>msg n5. CreateInitiation P ih now = (Inr msg, ih\<lparr>ih_noise := n5\<rparr>)
    \<and> length msg = NoiseHandshakeInitSize
    \<and> ConsumeInitiation P rh msg r2 =
        respond P (rh\<lparr>rh_noise := n5, rh_peerStatic := PublicKey_of P a, rh_remoteIndex := ci\<rparr>)
          (PublicKey_of P e) r2"
proof -
  note plen = length_PublicKey_of [OF D len(1)] length_PublicKey_of [OF D len(3)]
  let ?ns = "mixHash newNoiseState (PublicKey_of P b)" and ?epub = "PublicKey_of P e"
  let ?pay = "PutUint32 ci @ PutUint64 (word_of_int now)"
  obtain ct1 n3 where s1: "seal_step P (mixHash ?ns ?epub) es (PublicKey_of P a) = (ct1, n3)" by fastforce
  obtain ct2 n5 where s2: "seal_step P n3 ss ?pay = (ct2, n5)" by fastforce
  have ctlen: "length ct1 = 48" "length ct2 = 28"
    using length_seal_step [OF A s1] length_seal_step [OF A s2] plen by simp_all
  have create: "CreateInitiation P ih now = (Inr (?epub @ ct1 @ ct2), ih\<lparr>ih_noise := n5\<rparr>)"
    using CreateInitiation_ok [OF A, of ih es ss ct1 n3 now ct2 n5] es ss s1 s2 plen
    by (simp add: ih_def initiator_start_def)
  have rh: "rh_staticPriv rh = b" "rh_noise rh = ?ns" "length (rh_peerStatic rh) = 32"
    by (simp_all add: rh_def NewResponderHandshake_def Let_def)
  have "SharedSecret P b ?epub = Inr es" "SharedSecret P b (PublicKey_of P a) = Inr ss"
    using SharedSecret_commute [OF D] es ss len by metis+
  then have "ConsumeInitiation P rh (?epub @ ct1 @ ct2) r2 =
      respond P (rh\<lparr>rh_noise := n5, rh_peerStatic := PublicKey_of P a, rh_remoteIndex := ci\<rparr>) ?epub r2"
    using ConsumeInitiation_ok [OF _ ctlen, of ?epub rh "PublicKey_of P a" ?pay P es n3 ss n5 r2]
      open_seal_step [OF A s1] open_seal_step [OF A s2] rh plen by simp
  with create show ?thesis using plen ctlen
    by (intro exI [of _ "?epub @ ct1 @ ct2"] exI [of _ n5]) simp
qed

text \<open>The second message: from the same transcript both sides derive mirrored keys.\<close>

lemma response_run:
  assumes A: "aead_ok P" and D: "dh_ok P" and g2: "GenerateKeyPair P r2 = Inr (f, fpub)"
    and len: "length a = 32" "length e = 32"
    and ee: "SharedSecret P e fpub = Inr ee" and se: "SharedSecret P a fpub = Inr se"
    and ih: "ih_staticPriv ih = a" "ih_ephemPriv ih = e" "ih_noise ih = n5"
    and rh: "rh_noise rh = n5" "rh_peerStatic rh = PublicKey_of P a"
  shows "\<exists>resp sks rh' skc ih2. respond P rh (PublicKey_of P e) r2 = (Inr (resp, sks), rh')
    \<and> length resp = NoiseHandshakeRespSize \<and> ConsumeResponse P ih resp = (Inr skc, ih2)
    \<and> SendKey skc = RecvKey sks \<and> RecvKey skc = SendKey sks
    \<and> length (SendKey skc) = 32 \<and> length (RecvKey skc) = 32
    \<and> SenderID skc = ih_localIndex ih \<and> PeerID skc = rh_localIndex rh
    \<and> SenderID sks = rh_localIndex rh \<and> PeerID sks = rh_remoteIndex rh
    \<and> PeerStaticKey rh' = PublicKey_of P a \<and> ih_ephemPriv ih2 = replicate 32 0"
proof -
  have f: "length f = 32" "fpub = PublicKey_of P f"
    using GenerateKeyPair_length [OF g2] GenerateKeyPair_pub [OF g2] by simp_all
  have flen: "length fpub = 32" using length_PublicKey_of [OF D f(1)] f(2) by simp
  have dh: "SharedSecret P f (PublicKey_of P e) = Inr ee" "SharedSecret P f (PublicKey_of P a) = Inr se"
    using SharedSecret_commute [OF D] ee se len f by metis+
  let ?n6 = "snd (mixKey P (mixHash n5 fpub) ee)" and ?idx = "PutUint32 (rh_localIndex rh)"
  obtain ct3 n8 where s3: "seal_step P ?n6 se ?idx = (ct3, n8)" by fastforce
  have len3: "length ct3 = 20" using length_seal_step [OF A s3] by simp
  note resp = respond_ok [OF A g2 flen dh(1), of rh se ct3 n8]
  note final = ConsumeResponse_ok [OF flen len3, of ?idx P ih ee se n8]
  show ?thesis
    using resp final dh s3 open_seal_step [OF A s3] ee se ih rh len flen len3
    by (simp add: PeerStaticKey_def)
qed

lemma handshake_run:
  assumes A: "aead_ok P" and D: "dh_ok P" and ab: "length a = 32" "length b = 32"
    and g1: "GenerateKeyPair P r1 = Inr (e, epub)" and g2: "GenerateKeyPair P r2 = Inr (f, fpub)"
    and es: "SharedSecret P e (PublicKey_of P b) = Inr es" and ss: "SharedSecret P a (PublicKey_of P b) = Inr ss"
    and ee: "SharedSecret P e fpub = Inr ee" and se: "SharedSecret P a fpub = Inr se"
  shows "\<exists>ih msg ih1 resp sks rh skc ih2.
      NewInitiatorHandshake P a (PublicKey_of P b) ci r1 = Inr ih
    \<and> CreateInitiation P ih now = (Inr msg, ih1) \<and> length msg = NoiseHandshakeInitSize
    \<and> ConsumeInitiation P (NewResponderHandshake P b si) msg r2 = (Inr (resp, sks), rh)
    \<and> length resp = NoiseHandshakeRespSize
    \<and> ConsumeResponse P ih1 resp = (Inr skc, ih2)
    \<and> SendKey skc = RecvKey sks \<and> RecvKey skc = SendKey sks
    \<and> length (SendKey skc) = 32 \<and> length (RecvKey skc) = 32
    \<and> SenderID skc = ci \<and> PeerID skc = si \<and> SenderID sks = si \<and> PeerID sks = ci
    \<and> PeerStaticKey rh = PublicKey_of P a \<and> ih_ephemPriv ih2 = replicate 32 0"
proof -
  have e: "length e = 32" "epub = PublicKey_of P e"
    using GenerateKeyPair_length [OF g1] GenerateKeyPair_pub [OF g1] by simp_all
  let ?ih = "initiator_start P a (PublicKey_of P b) e ci" and ?rh = "NewResponderHandshake P b si"
  from initiation_run [OF A D ab e(1) es ss, of ci now si r2] obtain msg n5 where init:
    "CreateInitiation P ?ih now = (Inr msg, ?ih\<lparr>ih_noise := n5\<rparr>)" "length msg = NoiseHandshakeInitSize"
    "ConsumeInitiation P ?rh msg r2 =
       respond P (?rh\<lparr>rh_noise := n5, rh_peerStatic := PublicKey_of P a, rh_remoteIndex := ci\<rparr>) (PublicKey_of P e) r2"
    by blast
  note resp = response_run [OF A D g2 ab(1) e(1) ee se, of "?ih\<lparr>ih_noise := n5\<rparr>" n5
      "?rh\<lparr>rh_noise := n5, rh_peerStatic := PublicKey_of P a, rh_remoteIndex := ci\<rparr>"]
  have idx: "rh_localIndex ?rh = si" by (simp add: NewResponderHandshake_def Let_def)
  show ?thesis
    using resp init NewInitiatorHandshake_eq [OF g1, of a "PublicKey_of P b" ci]
    by (simp add: initiator_start_def idx)
qed

text \<open>Whatever the secrets, an initiation that is produced has its fixed size.\<close>

lemma CreateInitiation_length:
  assumes A: "aead_ok P" and D: "dh_ok P" and a: "length a = 32" and new: "NewInitiatorHandshake P a peer ci r1 = Inr ih"
    and c: "CreateInitiation P ih now = (Inr msg, ih')"
  shows "length msg = NoiseHandshakeInitSize"
proof -
  obtain e epub where g: "GenerateKeyPair P r1 = Inr (e, epub)"
    using new by (auto simp: NewInitiatorHandshake_def split: sum.splits)
  have len: "length (ih_ephemPub ih) = 32" "length (PublicKey_of P (ih_staticPriv ih)) = 32"
    using new GenerateKeyPair_length [OF g] length_PublicKey_of [OF D] a
    unfolding NewInitiatorHandshake_eq [OF g] by (auto simp: initiator_start_def)
  obtain es where es: "SharedSecret P (ih_ephemPriv ih) (ih_peerStatic ih) = Inr es"
    using c by (cases "SharedSecret P (ih_ephemPriv ih) (ih_peerStatic ih)") (auto simp: CreateInitiation_def Let_def)
  obtain ss where ss: "SharedSecret P (ih_staticPriv ih) (ih_peerStatic ih) = Inr ss"
    using c es by (cases "SharedSecret P (ih_staticPriv ih) (ih_peerStatic ih)")
      (auto simp: CreateInitiation_def Let_def case_mixKey simp del: mixKey_simps)
  obtain ct1 n3 where s1: "seal_step P (mixHash (ih_noise ih) (ih_ephemPub ih)) es (PublicKey_of P (ih_staticPriv ih)) = (ct1, n3)"
    by fastforce
  obtain ct2 n5 where s2: "seal_step P n3 ss (PutUint32 (ih_localIndex ih) @ PutUint64 (word_of_int now)) = (ct2, n5)" by fastforce
  from CreateInitiation_ok [OF A len es ss s1 s2] c length_seal_step [OF A s1] length_seal_step [OF A s2] len
  show ?thesis by simp
qed

text \<open>A concrete run, with the demonstration primitives.\<close>

lemma demo_secrets:
  obtains e epub f fpub where "GenerateKeyPair demo_prims (Some (replicate 32 4)) = Inr (e, epub)"
    "GenerateKeyPair demo_prims (Some (replicate 32 5)) = Inr (f, fpub)"
    "\<forall>k \<in> {e, replicate 32 2}. \<forall>u \<in> {fpub, PublicKey_of demo_prims (replicate 32 3)}.
       SharedSecret demo_prims k u = Inr (scalar_mult demo_prims k u)"
proof -
  obtain e epub where g1: "GenerateKeyPair demo_prims (Some (replicate 32 4)) = Inr (e, epub)"
    by (simp add: GenerateKeyPair_def Let_def)
  obtain f fpub where g2: "GenerateKeyPair demo_prims (Some (replicate 32 5)) = Inr (f, fpub)"
    by (simp add: GenerateKeyPair_def Let_def)
  have "length e = 32" "length fpub = 32"
    using GenerateKeyPair_length [OF g1] GenerateKeyPair_length [OF g2] GenerateKeyPair_pub [OF g2]
      length_PublicKey_of [OF demo_dh_ok, of f] by simp_all
  then have ok: "SharedSecret demo_prims k u = Inr (scalar_mult demo_prims k u)"
    if "k \<in> {e, replicate 32 2}" "u \<in> {fpub, PublicKey_of demo_prims (replicate 32 3)}" for k u
    using that length_PublicKey_of [OF demo_dh_ok, of "replicate 32 3"]
    by (intro iffD2 [OF SharedSecret_Inr_iff] conjI demo_mult_nonzero) fastforce+
  with g1 g2 that show ?thesis by blast
qed

lemma demo_handshake:
  "\<exists>ih msg ih1 resp sks rh skc ih2.
      NewInitiatorHandshake demo_prims (replicate 32 2) (PublicKey_of demo_prims (replicate 32 3)) 11
        (Some (replicate 32 4)) = Inr ih
    \<and> CreateInitiation demo_prims ih 0 = (Inr msg, ih1)
    \<and> ConsumeInitiation demo_prims (NewResponderHandshake demo_prims (replicate 32 3) 22) msg
        (Some (replicate 32 5)) = (Inr (resp, sks), rh)
    \<and> ConsumeResponse demo_prims ih1 resp = (Inr skc, ih2)
    \<and> SendKey skc = RecvKey sks \<and> RecvKey skc = SendKey sks \<and> PeerID skc = 22 \<and> PeerID sks = 11"
proof -
  obtain e epub f fpub where g: "GenerateKeyPair demo_prims (Some (replicate 32 4)) = Inr (e, epub)"
    "GenerateKeyPair demo_prims (Some (replicate 32 5)) = Inr (f, fpub)"
    "\<forall>k \<in> {e, replicate 32 2}. \<forall>u \<in> {fpub, PublicKey_of demo_prims (replicate 32 3)}.
       SharedSecret demo_prims k u = Inr (scalar_mult demo_prims k u)"
    by (rule demo_secrets)
  note ok = g(3) [rule_format]
  from handshake_run [OF demo_aead_ok demo_dh_ok _ _ g(1,2) ok ok ok ok,
      of "replicate 32 2" "replicate 32 3" 11 0 22]
  show ?thesis by fastforce
qed

text \<open>What an accepted message proves: the field was sealed under the key of this very transcript.\<close>

section \<open>Properties\<close>

text \<open>
  C10: A response is accepted only if it is the sealing, under a key derived from this very transcript
  and both Diffie-Hellman results with the response's ephemeral key, of the 4-byte index that
  the session then uses for its peer.
\<close>

theorem response_authentic:
  assumes A: "aead_ok P" and c: "ConsumeResponse P ih resp = (Inr sk, ih')"
  shows "\<exists>ee se pt. SharedSecret P (ih_ephemPriv ih) (take 32 resp) = Inr ee
    \<and> SharedSecret P (ih_staticPriv ih) (take 32 resp) = Inr se
    \<and> seal_step P (snd (mixKey P (mixHash (ih_noise ih) (take 32 resp)) ee)) se pt
        = (take 20 (drop 32 resp), ih_noise ih')
    \<and> length pt = 4 \<and> PeerID sk = Uint32 pt \<and> SenderID sk = ih_localIndex ih"
proof -
  from c obtain ee se pt
    where r: "length resp \<ge> NoiseHandshakeRespSize"
      "SharedSecret P (ih_ephemPriv ih) (take 32 resp) = Inr ee"
      "SharedSecret P (ih_staticPriv ih) (take 32 resp) = Inr se"
      "open_step P (snd (mixKey P (mixHash (ih_noise ih) (take 32 resp)) ee)) se (take 20 (drop 32 resp))
        = Some (pt, ih_noise ih')"
      "PeerID sk = (if 4 \<le> length pt then Uint32 (take 4 pt) else ih_remoteIndex ih)"
      "SenderID sk = ih_localIndex ih"
    by (auto simp: ConsumeResponse_def Let_def case_mixKey open_step_def simp del: mixKey_simps
        split: if_splits sum.splits option.splits)
  have st: "seal_step P (snd (mixKey P (mixHash (ih_noise ih) (take 32 resp)) ee)) se pt
      = (take 20 (drop 32 resp), ih_noise ih')"
    using open_step_only_sealed [OF A r(4)] .
  have "length pt = 4" using length_seal_step [OF A st] r(1) by simp
  then show ?thesis using r st by (intro exI [of _ ee] exI [of _ se] exI [of _ pt]) simp
qed

theorem response_authentic_witness:
  "\<exists>ih resp sk ih' pt. ConsumeResponse demo_prims ih resp = (Inr sk, ih') \<and> length pt = 4 \<and> PeerID sk = Uint32 pt"
  using demo_handshake response_authentic [OF demo_aead_ok] by meson

text \<open>
  C11: An initiation is accepted only if the static key the responder reports was sealed under the
  secret shared with it and this transcript, and the payload under the secret of the two static
  keys: nobody without the initiator's static private key can name it as the peer.
\<close>

theorem initiation_authentic:
  assumes A: "aead_ok P" and c: "ConsumeInitiation P rh msg rnd = (Inr (resp, sk), rh')"
    and peer: "length (rh_peerStatic rh) = 32"
  shows "\<exists>es ss n3 pt. SharedSecret P (rh_staticPriv rh) (take 32 msg) = Inr es
    \<and> seal_step P (mixHash (rh_noise rh) (take 32 msg)) es (PeerStaticKey rh') = (take 48 (drop 32 msg), fst n3)
    \<and> SharedSecret P (rh_staticPriv rh) (PeerStaticKey rh') = Inr ss
    \<and> seal_step P (fst n3) ss pt = (take 28 (drop 80 msg), snd n3)
    \<and> length pt = 12 \<and> PeerID sk = Uint32 (take 4 pt)"
proof -
  from c obtain es pt1 n3 ss pt2 n5
    where r: "length msg \<ge> NoiseHandshakeInitSize"
      "SharedSecret P (rh_staticPriv rh) (take 32 msg) = Inr es"
      "open_step P (mixHash (rh_noise rh) (take 32 msg)) es (take 48 (drop 32 msg)) = Some (pt1, n3)"
      "SharedSecret P (rh_staticPriv rh) (go_copy (rh_peerStatic rh) pt1) = Inr ss"
      "open_step P n3 ss (take 28 (drop 80 msg)) = Some (pt2, n5)"
      "respond P (rh\<lparr>rh_noise := n5, rh_peerStatic := go_copy (rh_peerStatic rh) pt1,
          rh_remoteIndex := if 4 \<le> length pt2 then Uint32 (take 4 pt2) else rh_remoteIndex rh\<rparr>)
          (take 32 msg) rnd = (Inr (resp, sk), rh')"
    by (auto simp: ConsumeInitiation_def Let_def case_mixKey open_step_def simp del: mixKey_simps
        split: if_splits sum.splits option.splits)
  note s1 = open_step_only_sealed [OF A r(3)] and s2 = open_step_only_sealed [OF A r(5)]
  have len: "length pt1 = 32" "length pt2 = 12"
    using length_seal_step [OF A s1] length_seal_step [OF A s2] r(1) by simp_all
  have "rh_peerStatic rh' = go_copy (rh_peerStatic rh) pt1" "PeerID sk = Uint32 (take 4 pt2)"
    using r(6) len by (auto simp: respond_def Let_def case_mixKey simp del: mixKey_simps
        split: sum.splits prod.splits)
  then show ?thesis using r s1 s2 len peer
    by (intro exI [of _ es] exI [of _ ss] exI [of _ "(n3, n5)"] exI [of _ pt2]) (simp add: PeerStaticKey_def)
qed

theorem initiation_authentic_witness:
  "\<exists>rh msg rnd resp sk rh' ss. ConsumeInitiation demo_prims rh msg rnd = (Inr (resp, sk), rh')
    \<and> SharedSecret demo_prims (rh_staticPriv rh) (PeerStaticKey rh') = Inr ss"
proof -
  obtain msg resp sks rh where c:
    "ConsumeInitiation demo_prims (NewResponderHandshake demo_prims (replicate 32 3) 22) msg
        (Some (replicate 32 5)) = (Inr (resp, sks), rh)" using demo_handshake by blast
  have "length (rh_peerStatic (NewResponderHandshake demo_prims (replicate 32 3) 22)) = 32"
    by (simp add: NewResponderHandshake_def Let_def)
  from c initiation_authentic [OF demo_aead_ok c this] show ?thesis by blast
qed

end
