(* ===== verification/Ant_Session.thy ===== *)
theory Ant_Session
  imports Ant_Packet Ant_Replay Ant_Noise "HOL-Library.AList"
begin

text \<open>
  \<open>pkg/protocol/session.go\<close>: a session (its two ciphers, send counter and replay window),
  the encryption and decryption of packets, and the table of active sessions.

  Sessions are shared by pointer between the session table and, on the server, the peer table. A
  pointer is an index into a store of sessions (a list that only grows).
\<close>

section \<open>Session\<close>

datatype net_addr = UDPAddr string | TCPAddr string | WSAddr string

record Session =
  LocalIndex :: u32
  RemoteIndex :: u32
  SendCipher :: "AEADCipher option"
  RecvCipher :: "AEADCipher option"
  sendCounter :: u64
  replay :: ReplayWindow
  RemoteAddr :: "net_addr option"
  LastActive :: int
  CreatedAt :: int

definition NewSession :: "SessionKeys \<Rightarrow> net_addr option \<Rightarrow> CipherSuite \<Rightarrow> int \<Rightarrow> go_error + Session" where
  "NewSession keys addr cs now =
     (case NewAEADCipher cs (SendKey keys) of
        Inl e \<Rightarrow> Inl e
      | Inr sendCipher \<Rightarrow>
          (case NewAEADCipher cs (RecvKey keys) of
             Inl e \<Rightarrow> Inl e
           | Inr recvCipher \<Rightarrow>
               Inr \<lparr>LocalIndex = SenderID keys, RemoteIndex = PeerID keys,
                    SendCipher = Some sendCipher, RecvCipher = Some recvCipher,
                    sendCounter = 0, replay = new_ReplayWindow,
                    RemoteAddr = addr, LastActive = now, CreatedAt = now\<rparr>))"

text \<open>Nanoseconds, as in \<open>time.Duration\<close>. No code reads the first one: sessions are never rekeyed.\<close>

definition RekeyTime :: int where "RekeyTime = 2 * 3600 * 1000000000"
definition KeepaliveInterval :: int where "KeepaliveInterval = 15 * 1000000000"

definition EncryptPacket ::
  "prims \<Rightarrow> Session \<Rightarrow> PacketBuffer \<Rightarrow> MessageType \<Rightarrow> byte \<Rightarrow> int
     \<Rightarrow> (go_error option \<times> Session \<times> PacketBuffer) go" where
  "EncryptPacket P s buf msgType flags now =
     (let s1 = s\<lparr>sendCounter := sendCounter s + 1\<rparr>;
          counter = sendCounter s1 - 1;
          h = \<lparr>Type = msgType, Flags = flags, ReceiverIndex = RemoteIndex s, Counter = counter\<rparr>
      in do {
        ad \<leftarrow> EncodeHeader h (replicate HeaderSize 0);
        r1 \<leftarrow> EncryptInPlace P (SendCipher s1) buf counter ad;
        case r1 of
          (Some e, buf1) \<Rightarrow> Some (Some e, s1, buf1)
        | (None, buf1) \<Rightarrow> do {
            r2 \<leftarrow> PrependHeader buf1 h;
            case r2 of
              (Some e, buf2) \<Rightarrow> Some (Some e, s1, buf2)
            | (None, buf2) \<Rightarrow> Some (None, s1\<lparr>LastActive := now\<rparr>, buf2)
          }
      })"

definition DecryptPacket ::
  "prims \<Rightarrow> Session \<Rightarrow> PacketBuffer \<Rightarrow> Header \<Rightarrow> int \<Rightarrow> (go_error option \<times> Session \<times> PacketBuffer) go" where
  "DecryptPacket P s buf h now =
     (case CheckAndSet (replay s) (Counter h) of
        (ok, rw) \<Rightarrow>
          let s1 = s\<lparr>replay := rw\<rparr>
          in if \<not> ok then Some (Some ErrReplay, s1, buf)
             else do {
               ad \<leftarrow> EncodeHeader h (replicate HeaderSize 0);
               r \<leftarrow> DecryptInPlace P (RecvCipher s1) buf (Counter h) ad;
               case r of
                 (Some e, buf1) \<Rightarrow> Some (Some e, s1, buf1)
               | (None, buf1) \<Rightarrow> Some (None, s1\<lparr>LastActive := now\<rparr>, buf1)
             })"

definition Session_Wipe :: "Session \<Rightarrow> Session" where
  "Session_Wipe s =
     s\<lparr>SendCipher := None, RecvCipher := None, replay := (replay s)\<lparr>bitmap0 := 0, bitmap1 := 0\<rparr>\<rparr>"

section \<open>Session table\<close>

type_synonym sref = nat
type_synonym session_store = "Session list"

text \<open>A Go map from indices to session pointers; keys are distinct.\<close>

record SessionManager =
  sessions :: "(u32 \<times> sref) list"

definition NewSessionManager :: SessionManager where
  "NewSessionManager = \<lparr>sessions = []\<rparr>"

definition SessionManager_Register :: "SessionManager \<Rightarrow> session_store \<Rightarrow> sref \<Rightarrow> SessionManager" where
  "SessionManager_Register sm st r = sm\<lparr>sessions := AList.update (LocalIndex (st ! r)) r (sessions sm)\<rparr>"

definition SessionManager_Get :: "SessionManager \<Rightarrow> u32 \<Rightarrow> sref option" where
  "SessionManager_Get sm i = map_of (sessions sm) i"

definition SessionManager_Remove ::
  "SessionManager \<Rightarrow> session_store \<Rightarrow> u32 \<Rightarrow> SessionManager \<times> session_store" where
  "SessionManager_Remove sm st i =
     (case map_of (sessions sm) i of
        None \<Rightarrow> (sm, st)
      | Some r \<Rightarrow> (sm\<lparr>sessions := AList.delete i (sessions sm)\<rparr>, st[r := Session_Wipe (st ! r)]))"

text \<open>The loop \<open>for idx, s := range sm.sessions\<close> wipes and deletes every entry.\<close>

primrec clear_loop :: "(u32 \<times> sref) list \<Rightarrow> SessionManager \<Rightarrow> session_store \<Rightarrow> SessionManager \<times> session_store" where
  "clear_loop [] sm st = (sm, st)"
| "clear_loop (e # es) sm st =
     clear_loop es (sm\<lparr>sessions := AList.delete (fst e) (sessions sm)\<rparr>)
       (st[snd e := Session_Wipe (st ! snd e)])"

definition SessionManager_Clear :: "SessionManager \<Rightarrow> session_store \<Rightarrow> SessionManager \<times> session_store" where
  "SessionManager_Clear sm st = clear_loop (sessions sm) sm st"

section \<open>Encryption\<close>

definition live :: "Session \<Rightarrow> bool" where
  "live s \<longleftrightarrow> (\<exists>c d. SendCipher s = Some c \<and> RecvCipher s = Some d \<and> cipher_ok c \<and> cipher_ok d)"

lemma live_NewSession: "NewSession keys addr cs now = Inr s \<Longrightarrow> live s"
  by (auto simp: NewSession_def live_def dest!: NewAEADCipher_ok split: sum.splits)

definition out_header :: "Session \<Rightarrow> MessageType \<Rightarrow> byte \<Rightarrow> Header" where
  "out_header s ty fl = \<lparr>Type = ty, Flags = fl, ReceiverIndex = RemoteIndex s, Counter = sendCounter s\<rparr>"

lemma out_header_simps [simp]:
  "Type (out_header s ty fl) = ty" "Flags (out_header s ty fl) = fl"
  "ReceiverIndex (out_header s ty fl) = RemoteIndex s" "Counter (out_header s ty fl) = sendCounter s"
  by (simp_all add: out_header_def)

text \<open>The room a packet needs in its buffer: the tag behind it and the header in front.\<close>

definition has_room :: "PacketBuffer \<Rightarrow> bool" where
  "has_room b \<longleftrightarrow> Offset b + Length b + TagSize \<le> length (Data b)
     \<and> (HeaderSize \<le> Offset b \<or> Length b + TagSize + HeaderSize \<le> length (Data b))"

lemma has_room_wf: "has_room b \<Longrightarrow> wf_buf b"
  by (simp add: has_room_def wf_buf_def)

lemma EncryptPacket_ok:
  assumes A: "aead_ok P" and c: "SendCipher s = Some c" "cipher_ok c" and room: "has_room b"
  shows "\<exists>b'. EncryptPacket P s b ty fl now =
      Some (None, s\<lparr>sendCounter := sendCounter s + 1, LastActive := now\<rparr>, b')
    \<and> wf_buf b' \<and> length (Data b') = length (Data b) \<and> Length b' = Length b + TagSize + HeaderSize
    \<and> content b' = header_bytes (out_header s ty fl) @
        seal P (suite c) (aead_key c) (nonce_of (sendCounter s)) (content b) (header_bytes (out_header s ty fl))"
proof -
  let ?h = "out_header s ty fl"
  have cap: "Offset b + Length b + TagSize \<le> length (Data b)" using room by (simp add: has_room_def)
  from EncryptInPlace_ok [OF A c(2) cap, of "sendCounter s" "header_bytes ?h"]
  obtain b1 where b1: "EncryptInPlace P (Some c) b (sendCounter s) (header_bytes ?h) = Some (None, b1)"
    "wf_buf b1" "Length b1 = Length b + TagSize" "Offset b1 = Offset b" "length (Data b1) = length (Data b)"
    "content b1 = seal P (suite c) (aead_key c) (nonce_of (sendCounter s)) (content b) (header_bytes ?h)"
    by blast
  have "HeaderSize \<le> Offset b1 \<or> Length b1 + HeaderSize \<le> length (Data b1)"
    using room b1 by (simp add: has_room_def)
  from PrependHeader_ok [OF b1(2) this, of ?h]
  obtain b2 where "PrependHeader b1 ?h = Some (None, b2)" "wf_buf b2"
    "content b2 = header_bytes ?h @ content b1" "Length b2 = Length b1 + HeaderSize"
    "length (Data b2) = length (Data b1)" by blast
  then show ?thesis using b1 c by (simp add: EncryptPacket_def Let_def out_header_def)
qed

lemma EncryptPacket_session:
  assumes "EncryptPacket P s b ty fl now = Some (e, s', b')"
  shows "s' = s\<lparr>sendCounter := sendCounter s + 1\<rparr> \<or> s' = s\<lparr>sendCounter := sendCounter s + 1, LastActive := now\<rparr>"
proof -
  let ?h = "out_header s ty fl"
  obtain e1 b1 where b1: "EncryptInPlace P (SendCipher s) b (sendCounter s) (header_bytes ?h) = Some (e1, b1)"
    using assms by (cases "EncryptInPlace P (SendCipher s) b (sendCounter s) (header_bytes ?h)")
      (simp_all add: EncryptPacket_def Let_def out_header_def, fastforce)
  show ?thesis
  proof (cases e1)
    case (Some x)
    then show ?thesis using assms b1 by (simp add: EncryptPacket_def Let_def out_header_def)
  next
    case None
    then show ?thesis using assms b1
      by (cases "PrependHeader b1 ?h")
        (auto simp: EncryptPacket_def Let_def out_header_def split: option.splits)
  qed
qed

lemma EncryptPacket_counter:
  "EncryptPacket P s b ty fl now = Some (e, s', b') \<Longrightarrow> sendCounter s' = sendCounter s + 1
     \<and> SendCipher s' = SendCipher s \<and> RecvCipher s' = RecvCipher s \<and> replay s' = replay s
     \<and> LocalIndex s' = LocalIndex s \<and> RemoteIndex s' = RemoteIndex s"
  by (drule EncryptPacket_session) auto

lemma EncryptPacket_wiped:
  assumes "SendCipher s = None" "Offset b + Length b + TagSize \<le> length (Data b)"
  shows "EncryptPacket P s b ty fl now = None"
  using assms EncryptInPlace_nil [OF assms(2)] by (simp add: EncryptPacket_def Let_def)

lemma EncryptPacket_full:
  assumes "length (Data b) < Offset b + Length b + TagSize"
  shows "EncryptPacket P s b ty fl now = Some (Some ErrTagCapacity, s\<lparr>sendCounter := sendCounter s + 1\<rparr>, b)"
  using EncryptInPlace_full [OF assms] by (simp add: EncryptPacket_def Let_def)

lemma EncryptPacket_total:
  assumes "SendCipher s = Some c" "wf_buf b"
  shows "\<exists>e s' b'. EncryptPacket P s b ty fl now = Some (e, s', b') \<and> wf_buf b' \<and> length (Data b') = length (Data b)"
proof -
  let ?h = "out_header s ty fl"
  from stage_result [OF encrypt_stage.buffer_stage_axioms assms(2), of P c "sendCounter s" "header_bytes ?h"]
  obtain e b1 where b1: "EncryptInPlace P (Some c) b (sendCounter s) (header_bytes ?h) = Some (e, b1)"
    "wf_buf b1" "length (Data b1) = length (Data b)" by blast
  from stage_result [OF prepend_stage.buffer_stage_axioms b1(2), of ?h]
  obtain e2 b2 where "PrependHeader b1 ?h = Some (e2, b2)" "wf_buf b2" "length (Data b2) = length (Data b1)"
    by blast
  then show ?thesis using b1 assms(1)
    by (cases e; cases e2) (simp_all add: EncryptPacket_def Let_def out_header_def)
qed

section \<open>Decryption\<close>

lemma DecryptPacket_replayed:
  "\<not> fst (CheckAndSet (replay s) (Counter h)) \<Longrightarrow>
     DecryptPacket P s b h now = Some (Some ErrReplay, s\<lparr>replay := snd (CheckAndSet (replay s) (Counter h))\<rparr>, b)"
  by (simp add: DecryptPacket_def Let_def case_prod_beta)

lemma DecryptPacket_ok:
  assumes A: "aead_ok P" and c: "RecvCipher s = Some c" "cipher_ok c" and wf: "wf_buf b"
    and fresh: "fst (CheckAndSet (replay s) (Counter h))"
    and ct: "content b = seal P (suite c) (aead_key c) (nonce_of (Counter h)) pt (header_bytes h)"
  shows "\<exists>b'. DecryptPacket P s b h now =
      Some (None, s\<lparr>replay := snd (CheckAndSet (replay s) (Counter h)), LastActive := now\<rparr>, b')
    \<and> wf_buf b' \<and> content b' = pt \<and> length (Data b') = length (Data b)"
proof -
  from DecryptInPlace_ok [OF A c(2) wf ct]
  obtain b' where "DecryptInPlace P (Some c) b (Counter h) (header_bytes h) = Some (None, b')"
    "wf_buf b'" "content b' = pt" "length (Data b') = length (Data b)" by blast
  then show ?thesis using fresh c by (simp add: DecryptPacket_def Let_def case_prod_beta)
qed

lemma DecryptPacket_total:
  assumes "RecvCipher s = Some c" "wf_buf b"
  shows "\<exists>e s' b'. DecryptPacket P s b h now = Some (e, s', b') \<and> wf_buf b' \<and> length (Data b') = length (Data b)
    \<and> RecvCipher s' = Some c \<and> replay s' = snd (CheckAndSet (replay s) (Counter h))
    \<and> (e = None \<longrightarrow> fst (CheckAndSet (replay s) (Counter h)))"
proof -
  from stage_result [OF decrypt_stage.buffer_stage_axioms assms(2), of P c "Counter h" "header_bytes h"]
  obtain e b1 where "DecryptInPlace P (Some c) b (Counter h) (header_bytes h) = Some (e, b1)"
    "wf_buf b1" "length (Data b1) = length (Data b)" by blast
  then show ?thesis using assms
    by (cases e) (auto simp: DecryptPacket_def Let_def case_prod_beta)
qed

lemma DecryptPacket_session:
  assumes "DecryptPacket P s b h now = Some (e, s', b')"
  shows "s' = s\<lparr>replay := snd (CheckAndSet (replay s) (Counter h))\<rparr>
    \<or> s' = s\<lparr>replay := snd (CheckAndSet (replay s) (Counter h)), LastActive := now\<rparr>"
proof (cases "fst (CheckAndSet (replay s) (Counter h))")
  case False
  then have "s' = s\<lparr>replay := snd (CheckAndSet (replay s) (Counter h))\<rparr>"
    using assms DecryptPacket_replayed [OF False, of P b now] by simp
  then show ?thesis ..
next
  case True
  define rw where "rw = snd (CheckAndSet (replay s) (Counter h))"
  have rw: "CheckAndSet (replay s) (Counter h) = (True, rw)"
    using True by (simp add: rw_def prod_eq_iff)
  have unf: "DecryptPacket P s b h now =
      Option.bind (DecryptInPlace P (RecvCipher s) b (Counter h) (header_bytes h))
        (\<lambda>r. Some (fst r, if fst r = None then s\<lparr>replay := rw, LastActive := now\<rparr> else s\<lparr>replay := rw\<rparr>, snd r))"
    by (simp add: DecryptPacket_def Let_def rw case_prod_beta)
      (rule arg_cong [where f = "Option.bind _"], auto split: option.splits)
  have "(if e = None then s\<lparr>replay := rw, LastActive := now\<rparr> else s\<lparr>replay := rw\<rparr>) = s'"
    using assms unfolding unf bind_eq_Some_conv option.inject prod.inject by blast
  then show ?thesis unfolding rw_def [symmetric] by (auto split: if_splits)
qed

lemma DecryptPacket_frame:
  "DecryptPacket P s b h now = Some (e, s', b') \<Longrightarrow>
     sendCounter s' = sendCounter s \<and> SendCipher s' = SendCipher s \<and> RecvCipher s' = RecvCipher s
     \<and> replay s' = snd (CheckAndSet (replay s) (Counter h))
     \<and> LocalIndex s' = LocalIndex s \<and> RemoteIndex s' = RemoteIndex s"
  by (drule DecryptPacket_session) auto

lemma DecryptPacket_authentic:
  assumes A: "aead_ok P" and c: "RecvCipher s = Some c" "cipher_ok c" and wf: "wf_buf b"
    and dec: "DecryptPacket P s b h now = Some (None, s', b')"
  shows "content b = seal P (suite c) (aead_key c) (nonce_of (Counter h)) (content b') (header_bytes h)"
proof -
  have "fst (CheckAndSet (replay s) (Counter h))"
    using dec DecryptPacket_replayed [of s h P b now] by auto
  with dec c have "DecryptInPlace P (Some c) b (Counter h) (header_bytes h) = Some (None, b')"
    by (cases "DecryptInPlace P (Some c) b (Counter h) (header_bytes h)")
      (auto simp: DecryptPacket_def Let_def case_prod_beta split: option.splits)
  then show ?thesis by (rule DecryptInPlace_accepts_only_sealed [OF A c(2) wf])
qed

lemma DecryptPacket_wiped:
  assumes "RecvCipher s = None" "wf_buf b" "TagSize \<le> Length b"
    and "fst (CheckAndSet (replay s) (Counter h))"
  shows "DecryptPacket P s b h now = None"
  using assms DecryptInPlace_nil [OF assms(3,2)]
  by (simp add: DecryptPacket_def Let_def case_prod_beta)

lemma DecryptPacket_forged:
  assumes c: "RecvCipher s = Some c" and wf: "wf_buf b" and len: "TagSize \<le> Length b"
    and fresh: "fst (CheckAndSet (replay s) (Counter h))"
    and junk: "opened P (suite c) (aead_key c) (nonce_of (Counter h)) (content b) (header_bytes h) = Inl junk"
  shows "\<exists>b'. DecryptPacket P s b h now =
    Some (Some ErrAuthFailed, s\<lparr>replay := snd (CheckAndSet (replay s) (Counter h))\<rparr>, b')"
proof -
  from DecryptInPlace_forged [OF wf len junk]
  obtain b' where "DecryptInPlace P (Some c) b (Counter h) (header_bytes h) = Some (Some ErrAuthFailed, b')"
    by blast
  then show ?thesis using fresh c by (simp add: DecryptPacket_def Let_def case_prod_beta)
qed

section \<open>Interface of the session table\<close>

text \<open>
  What the packet handlers rely on: a lookup returns the session registered last under the index,
  unless it has been removed since, and other indices are not disturbed.
\<close>

locale session_table =
  fixes empty :: 't
    and register :: "'t \<Rightarrow> u32 \<Rightarrow> 'r \<Rightarrow> 't"
    and get :: "'t \<Rightarrow> u32 \<Rightarrow> 'r option"
    and remove :: "'t \<Rightarrow> u32 \<Rightarrow> 't"
  assumes get_empty: "get empty i = None"
    and get_register: "get (register t i r) j = (if j = i then Some r else get t j)"
    and get_remove: "get (remove t i) j = (if j = i then None else get t j)"
begin

fun run :: "'t \<Rightarrow> (u32 \<times> 'r option) list \<Rightarrow> 't" where
  "run t [] = t"
| "run t ((i, Some r) # ops) = run (register t i r) ops"
| "run t ((i, None) # ops) = run (remove t i) ops"

lemma get_run_other: "j \<notin> fst ` set ops \<Longrightarrow> get (run t ops) j = get t j"
  by (induction t ops rule: run.induct) (auto simp: get_register get_remove)

lemma run_append: "run t (xs @ ys) = run (run t xs) ys"
  by (induction t xs rule: run.induct) auto

lemma get_run_last:
  assumes "j \<notin> fst ` set later"
  shows "get (run t (earlier @ (j, v) # later)) j = v"
  using assms by (cases v) (simp_all add: run_append get_run_other get_register get_remove)

end

interpretation mgr: session_table "NewSessionManager"
  "\<lambda>sm i r. sm\<lparr>sessions := AList.update i r (sessions sm)\<rparr>"
  SessionManager_Get "\<lambda>sm i. sm\<lparr>sessions := AList.delete i (sessions sm)\<rparr>"
  by unfold_locales
    (simp_all add: NewSessionManager_def SessionManager_Get_def update_conv' delete_conv')

lemma SessionManager_Get_Register:
  "SessionManager_Get (SessionManager_Register sm st r) j
     = (if j = LocalIndex (st ! r) then Some r else SessionManager_Get sm j)"
  unfolding SessionManager_Register_def by (rule mgr.get_register)

lemma SessionManager_Get_Remove:
  "SessionManager_Get (fst (SessionManager_Remove sm st i)) j
     = (if j = i then None else SessionManager_Get sm j)"
  using mgr.get_remove [where t = sm and i = i and j = j]
  by (auto simp: SessionManager_Remove_def SessionManager_Get_def split: option.splits)

lemma SessionManager_Remove_store:
  "SessionManager_Get sm i = Some r \<Longrightarrow>
     snd (SessionManager_Remove sm st i) = st[r := Session_Wipe (st ! r)]"
  by (simp add: SessionManager_Remove_def SessionManager_Get_def)

definition wiped :: "Session \<Rightarrow> bool" where
  "wiped s \<longleftrightarrow> SendCipher s = None \<and> RecvCipher s = None \<and> bitmap0 (replay s) = 0 \<and> bitmap1 (replay s) = 0"

lemma wiped_Wipe [simp]: "wiped (Session_Wipe s)"
  by (simp add: wiped_def Session_Wipe_def)

lemma clear_loop_spec:
  "clear_loop es sm st = (sm', st') \<Longrightarrow> length st' = length st
     \<and> (\<forall>e \<in> set es. snd e < length st \<longrightarrow> wiped (st' ! snd e))
     \<and> (\<forall>r. wiped (st ! r) \<longrightarrow> wiped (st' ! r))
     \<and> (\<forall>r. r \<notin> snd ` set es \<longrightarrow> st' ! r = st ! r)
     \<and> map_of (sessions sm') = (map_of (sessions sm)) |` (- fst ` set es)"
proof (induction es arbitrary: sm st)
  case Nil
  then show ?case by auto
next
  case (Cons e es)
  let ?st = "st[snd e := Session_Wipe (st ! snd e)]"
  have w: "wiped (?st ! r)" if "wiped (st ! r) \<or> r = snd e \<and> r < length st" for r
    using that by (cases "snd e < length st") (auto simp: nth_list_update list_update_beyond)
  have "clear_loop es (sm\<lparr>sessions := AList.delete (fst e) (sessions sm)\<rparr>) ?st = (sm', st')"
    using Cons.prems by simp
  note IH = Cons.IH [OF this]
  have "map_of (sessions sm') = (map_of (sessions sm)) |` (- fst ` set (e # es))"
    using IH by (auto simp: delete_conv' fun_eq_iff restrict_map_def)
  then show ?case using IH w by (auto simp: nth_list_update_neq)
qed

section \<open>Properties\<close>

text \<open>
  C5: \<open>DecryptPacket\<close> on any well-formed buffer returns, and accepts exactly the packets whose
  counter the replay window accepts and whose bytes are the sealing of some plaintext under the session's
  key, the counter's nonce and the header as additional data; the buffer then holds that
  plaintext. A packet that was altered anywhere, header included, is rejected. The window
  moves on in either case.
\<close>

theorem DecryptPacket_decision:
  assumes A: "aead_ok P" and c: "RecvCipher s = Some c" "cipher_ok c" and wf: "wf_buf b"
  shows "\<exists>e s' b'. DecryptPacket P s b h now = Some (e, s', b') \<and> wf_buf b'
    \<and> (e = None \<longleftrightarrow> fst (CheckAndSet (replay s) (Counter h))
         \<and> (\<exists>pt. content b = seal P (suite c) (aead_key c) (nonce_of (Counter h)) pt (header_bytes h)))
    \<and> (e = None \<longrightarrow>
         content b = seal P (suite c) (aead_key c) (nonce_of (Counter h)) (content b') (header_bytes h))
    \<and> replay s' = snd (CheckAndSet (replay s) (Counter h))"
proof -
  from DecryptPacket_total [OF c(1) wf, of P h now] obtain e s' b' where d:
    "DecryptPacket P s b h now = Some (e, s', b')" "wf_buf b'"
    "replay s' = snd (CheckAndSet (replay s) (Counter h))"
    "e = None \<longrightarrow> fst (CheckAndSet (replay s) (Counter h))" by blast
  have auth: "content b = seal P (suite c) (aead_key c) (nonce_of (Counter h)) (content b') (header_bytes h)"
    if "e = None" using DecryptPacket_authentic [OF A c wf] d(1) that by blast
  have "e = None" if "fst (CheckAndSet (replay s) (Counter h))"
    "content b = seal P (suite c) (aead_key c) (nonce_of (Counter h)) pt (header_bytes h)" for pt
    using DecryptPacket_ok [OF A c wf that, of now] d(1) by auto
  then show ?thesis using d auth by blast
qed

definition demo_recv :: Session where
  "demo_recv = \<lparr>LocalIndex = 2, RemoteIndex = 1, SendCipher = None,
     RecvCipher = Some \<lparr>aead_key = replicate 32 5, suite = CipherChaCha20Poly1305\<rparr>, sendCounter = 0,
     replay = new_ReplayWindow, RemoteAddr = None, LastActive = 0, CreatedAt = 0\<rparr>"

definition demo_junk :: PacketBuffer where
  "demo_junk = \<lparr>Data = 9 # replicate 40 0, Length = 20, Offset = 0\<rparr>"

lemma demo_recv: "RecvCipher demo_recv = Some \<lparr>aead_key = replicate 32 5, suite = CipherChaCha20Poly1305\<rparr>"
  "cipher_ok \<lparr>aead_key = replicate 32 5, suite = CipherChaCha20Poly1305\<rparr>" "wf_buf demo_junk"
  by (simp_all add: demo_recv_def cipher_ok_def demo_junk_def wf_buf_def)

theorem DecryptPacket_decision_witness:
  "\<exists>e s' b'. DecryptPacket demo_prims demo_recv demo_junk \<lparr>Type = 3, Flags = 0, ReceiverIndex = 2, Counter = 1\<rparr> 0
      = Some (e, s', b') \<and> wf_buf b'"
  using DecryptPacket_decision [OF demo_aead_ok demo_recv] by blast

text \<open>
  C33: A forged packet can close the window. The window is advanced before the packet is authenticated, so
  a packet that fails authentication with a counter far ahead makes the session reject, as
  replays, all later packets whose counters lie 128 or more below it, genuine ones included.
\<close>

theorem forged_counter_closes_window:
  assumes c: "RecvCipher s = Some c" and wf: "wf_buf b" and len: "TagSize \<le> Length b"
    and ahead: "maxSeq (replay s) < Counter h"
    and junk: "opened P (suite c) (aead_key c) (nonce_of (Counter h)) (content b) (header_bytes h) = Inl junk"
    and below: "unat (Counter h') + 128 \<le> unat (Counter h)"
  shows "\<exists>s1 b1. DecryptPacket P s b h now = Some (Some ErrAuthFailed, s1, b1)
    \<and> DecryptPacket P s1 b' h' now' = Some (Some ErrReplay, s1, b')"
proof -
  note adv = CheckAndSet_advance [OF ahead]
  define rw where "rw = snd (CheckAndSet (replay s) (Counter h))"
  have max: "maxSeq rw = Counter h" using adv by (simp add: rw_def)
  from DecryptPacket_forged [OF c wf len conjunct1 [OF adv] junk, of now]
  obtain b1 where b1: "DecryptPacket P s b h now = Some (Some ErrAuthFailed, s\<lparr>replay := rw\<rparr>, b1)"
    by (auto simp: rw_def)
  have "CheckAndSet rw (Counter h') = (False, rw)"
    using below by (intro CheckAndSet_old) (simp_all add: max word_less_nat_alt)
  then have "DecryptPacket P (s\<lparr>replay := rw\<rparr>) b' h' now' = Some (Some ErrReplay, s\<lparr>replay := rw\<rparr>, b')"
    using DecryptPacket_replayed [of "s\<lparr>replay := rw\<rparr>" h' P b' now'] by simp
  with b1 show ?thesis by blast
qed

theorem forged_counter_closes_window_witness:
  "\<exists>s1 b1. DecryptPacket demo_prims demo_recv demo_junk \<lparr>Type = 3, Flags = 0, ReceiverIndex = 2, Counter = 1000\<rparr> 0
      = Some (Some ErrAuthFailed, s1, b1)
    \<and> DecryptPacket demo_prims s1 demo_junk \<lparr>Type = 3, Flags = 0, ReceiverIndex = 2, Counter = 872\<rparr> 0
      = Some (Some ErrReplay, s1, demo_junk)"
proof -
  have "opened demo_prims CipherChaCha20Poly1305 (replicate 32 5) (nonce_of 1000) (content demo_junk)
      (header_bytes \<lparr>Type = 3, Flags = 0, ReceiverIndex = 2, Counter = 1000\<rparr>) = Inl (replicate 4 0)"
    by code_simp
  then show ?thesis
    by (intro forged_counter_closes_window [OF demo_recv(1,3)])
      (simp_all add: demo_junk_def demo_recv_def new_ReplayWindow_def)
qed

text \<open>
  The session table behaves as a map from indices to sessions under every operation of the
  manager: a lookup after \<open>Register\<close> or \<open>Remove\<close> sees exactly that change, and
  \<open>Remove\<close> wipes the session it removes and no other.
\<close>

lemma session_table_laws:
  "SessionManager_Get NewSessionManager j = None
   \<and> SessionManager_Get (SessionManager_Register sm st r) j
       = (if j = LocalIndex (st ! r) then Some r else SessionManager_Get sm j)
   \<and> SessionManager_Get (fst (SessionManager_Remove sm st i)) j = (if j = i then None else SessionManager_Get sm j)
   \<and> snd (SessionManager_Remove sm st i) =
       (case SessionManager_Get sm i of None \<Rightarrow> st | Some q \<Rightarrow> st[q := Session_Wipe (st ! q)])"
  using mgr.get_empty SessionManager_Get_Register SessionManager_Get_Remove
  by (auto simp: SessionManager_Remove_def SessionManager_Get_def split: option.splits)

text \<open>
  \<open>Clear\<close> leaves an empty table, wipes every session that was in it (both ciphers gone, both
  bitmap words zero) and touches no other session.
\<close>

lemma Clear_wipes_all:
  assumes "SessionManager_Clear sm st = (sm', st')"
  shows "SessionManager_Get sm' i = None \<and> length st' = length st
    \<and> (SessionManager_Get sm i = Some r \<and> r < length st \<longrightarrow> wiped (st' ! r))
    \<and> (r \<notin> snd ` set (sessions sm) \<longrightarrow> st' ! r = st ! r)"
proof -
  note spec = clear_loop_spec [OF assms [unfolded SessionManager_Clear_def]]
  have "SessionManager_Get sm' i = None"
    using spec map_of_eq_None_iff [of "sessions sm" i]
    by (auto simp: SessionManager_Get_def restrict_map_def)
  moreover have "SessionManager_Get sm i = Some r \<and> r < length st \<longrightarrow> wiped (st' ! r)"
    using spec by (fastforce simp: SessionManager_Get_def dest: map_of_SomeD)
  ultimately show ?thesis using spec by blast
qed

end
