(* ===== verification/Ant_Tunnel.thy ===== *)
theory Ant_Tunnel
  imports Ant_Session "HOL-Library.Sublist"
begin

text \<open>
  Two sessions at work: what a sender's sequence of \<open>EncryptPacket\<close> calls puts on the wire, and
  what a receiver's sequence of \<open>DecryptPacket\<close> calls delivers. The runs below only repeat
  the calls of the packet loops; the loops themselves are in the client and server theories.
\<close>

section \<open>Paired sessions\<close>

text \<open>The receiver opens with the key the sender seals with, and the sender addresses its index.\<close>

definition paired :: "Session \<Rightarrow> Session \<Rightarrow> bool" where
  "paired s r \<longleftrightarrow> (\<exists>c. SendCipher s = Some c \<and> RecvCipher r = Some c \<and> cipher_ok c)
     \<and> RemoteIndex s = LocalIndex r"

lemma NewSession_Inr:
  assumes "length (SendKey k) = 32" "length (RecvKey k) = 32" "cs = CipherChaCha20Poly1305 \<or> cs = CipherAESGCM"
  shows "NewSession k addr cs now = Inr \<lparr>LocalIndex = SenderID k, RemoteIndex = PeerID k,
    SendCipher = Some \<lparr>aead_key = SendKey k, suite = cs\<rparr>, RecvCipher = Some \<lparr>aead_key = RecvKey k, suite = cs\<rparr>,
    sendCounter = 0, replay = new_ReplayWindow, RemoteAddr = addr, LastActive = now, CreatedAt = now\<rparr>"
  using assms by (auto simp: NewSession_def NewAEADCipher_def)

lemma NewSession_paired:
  assumes "SendKey k = RecvKey l" "PeerID k = SenderID l"
    and "NewSession k a1 cs t1 = Inr s" "NewSession l a2 cs t2 = Inr r"
  shows "paired s r"
  using assms by (auto simp: NewSession_def paired_def NewAEADCipher_def cipher_ok_def
      split: sum.splits if_splits)

text \<open>One packet through the tunnel.\<close>

lemma tunnel_packet:
  assumes A: "aead_ok P" and pr: "paired s r" and room: "has_room b"
    and fresh: "fst (CheckAndSet (replay r) (sendCounter s))"
  shows "\<exists>s' w h w1 r' w2. EncryptPacket P s b ty fl t1 = Some (None, s', w)
    \<and> StripHeader w = Some (Inr h, w1) \<and> h = out_header s ty fl \<and> ReceiverIndex h = LocalIndex r
    \<and> DecryptPacket P r w1 h t2 = Some (None, r', w2) \<and> content w2 = content b
    \<and> Length w = Length b + TagSize + HeaderSize"
proof -
  from pr obtain c where c: "SendCipher s = Some c" "RecvCipher r = Some c" "cipher_ok c"
    and idx: "RemoteIndex s = LocalIndex r" by (auto simp: paired_def)
  from EncryptPacket_ok [OF A c(1,3) room, of ty fl t1]
  obtain w where w: "EncryptPacket P s b ty fl t1 = Some (None, s\<lparr>sendCounter := sendCounter s + 1, LastActive := t1\<rparr>, w)"
    "wf_buf w" "Length w = Length b + TagSize + HeaderSize"
    "content w = header_bytes (out_header s ty fl) @
       seal P (suite c) (aead_key c) (nonce_of (sendCounter s)) (content b) (header_bytes (out_header s ty fl))"
    by blast
  from StripHeader_ok [OF w(2)] w(3) obtain h w1 where h: "StripHeader w = Some (Inr h, w1)"
    "content w = header_bytes h @ content w1" "wf_buf w1" by auto
  have h': "h = out_header s ty fl"
    using h(2) w(4) DecodeHeader_bytes [of h "content w1"] DecodeHeader_bytes [of "out_header s ty fl"]
    by (metis sum.inject(2))
  then have ct: "content w1 = seal P (suite c) (aead_key c) (nonce_of (Counter h)) (content b) (header_bytes h)"
    using h(2) w(4) by simp
  have "fst (CheckAndSet (replay r) (Counter h))" using fresh h' by simp
  from DecryptPacket_ok [OF A c(2,3) h(3) this ct, of t2]
  obtain w2 where "DecryptPacket P r w1 h t2 =
      Some (None, r\<lparr>replay := snd (CheckAndSet (replay r) (Counter h)), LastActive := t2\<rparr>, w2)"
    "content w2 = content b" by blast
  then show ?thesis using w h h' idx by auto
qed

section \<open>Receiving: every packet at most once\<close>

text \<open>
  The deliveries of a receiver fed with any packets whatever, genuine, replayed or forged: the
  counter and the plaintext of each packet that \<open>DecryptPacket\<close> lets through.
\<close>

fun recv_run :: "prims \<Rightarrow> int \<Rightarrow> Session \<Rightarrow> (Header \<times> PacketBuffer) list \<Rightarrow> (Header \<times> bytes) list go" where
  "recv_run P now r [] = Some []"
| "recv_run P now r ((h, b) # ps) =
     Option.bind (DecryptPacket P r b h now) (\<lambda>(e, r', b').
       Option.bind (recv_run P now r' ps) (\<lambda>ds.
         Some (if e = None then (h, content b') # ds else ds)))"

abbreviation counters :: "(Header \<times> 'a) list \<Rightarrow> u64 list" where
  "counters ps \<equiv> map (\<lambda>p. Counter (fst p)) ps"

lemma recv_run_subseq:
  assumes "RecvCipher r = Some c" "list_all (\<lambda>p. wf_buf (snd p)) ps"
  shows "\<exists>ds. recv_run P now r ps = Some ds \<and> subseq (counters ds) (accepted_run (replay r) (counters ps))"
  using assms
proof (induction ps arbitrary: r)
  case Nil
  then show ?case by simp
next
  case (Cons p ps)
  obtain h b where p: "p = (h, b)" by (cases p)
  from DecryptPacket_total [OF Cons.prems(1), of b P h now] Cons.prems(2) p
  obtain e r1 b1 where d: "DecryptPacket P r b h now = Some (e, r1, b1)"
    "RecvCipher r1 = Some c" "replay r1 = snd (CheckAndSet (replay r) (Counter h))"
    "e = None \<longrightarrow> fst (CheckAndSet (replay r) (Counter h))" by auto
  have "list_all (\<lambda>p. wf_buf (snd p)) ps" using Cons.prems(2) by simp
  from Cons.IH [OF d(2) this] obtain ds where IH: "recv_run P now r1 ps = Some ds"
    "subseq (counters ds) (accepted_run (replay r1) (counters ps))" by blast
  have acc: "accepted_run (replay r) (counters (p # ps)) =
      (if fst (CheckAndSet (replay r) (Counter h)) then [Counter h] else []) @ accepted_run (replay r1) (counters ps)"
    using d(3) p by (simp add: case_prod_beta)
  have "recv_run P now r (p # ps) = Some (if e = None then (h, content b1) # ds else ds)"
    using d(1) IH(1) p by simp
  moreover have "subseq (counters (if e = None then (h, content b1) # ds else ds))
      (accepted_run (replay r) (counters (p # ps)))"
    using IH(2) d(4) unfolding acc by auto
  ultimately show ?case by blast
qed

lemma subseq_distinct: "subseq xs ys \<Longrightarrow> distinct ys \<Longrightarrow> distinct xs"
  by (auto simp: subseq_conv_nths)

lemma accepted_run_distinct: "distinct (accepted_run new_ReplayWindow qs)"
proof -
  have v: "list_all (\<lambda>n. n < 2 ^ 64) (map unat qs)"
  proof -
    have "unat q < 2 ^ 64" for q :: u64 using unsigned_less [of q, where 'a = nat] by simp
    then show ?thesis by (simp add: list_all_iff)
  qed
  have inj: "inj_on (of_nat :: nat \<Rightarrow> u64) (set (rw.accepted new_ReplayWindow (map unat qs)))"
  proof (rule inj_on_subset [of _ "{n. n < 2 ^ 64}"])
    show "inj_on (of_nat :: nat \<Rightarrow> u64) {n. n < 2 ^ 64}"
      by (rule inj_on_inverseI [of _ unat]) (simp add: unat_of_nat take_bit_nat_eq_self)
    show "set (rw.accepted new_ReplayWindow (map unat qs)) \<subseteq> {n. n < 2 ^ 64}"
      using rw.accepted_fresh [OF represents_new v] v by (auto simp: list_all_iff)
  qed
  show ?thesis unfolding accepted_run_filter
    using rw.never_twice [OF v] inj by (simp add: distinct_map)
qed

section \<open>Sending and delivering a sequence\<close>

lemma unat_of_nat64: "i < n \<Longrightarrow> n \<le> 2 ^ 64 \<Longrightarrow> unat (of_nat i :: u64) = i"
  by (simp add: unat_of_nat take_bit_nat_eq_self)

text \<open>The wire buffers of consecutive \<open>EncryptPacket\<close> calls on one session.\<close>

fun send_run :: "prims \<Rightarrow> int \<Rightarrow> MessageType \<Rightarrow> byte \<Rightarrow> Session \<Rightarrow> PacketBuffer list \<Rightarrow> PacketBuffer list go" where
  "send_run P now ty fl s [] = Some []"
| "send_run P now ty fl s (b # bs) =
     Option.bind (EncryptPacket P s b ty fl now) (\<lambda>(e, s', w).
       Option.bind (send_run P now ty fl s' bs) (\<lambda>ws. Some (if e = None then w # ws else ws)))"

text \<open>A receiver that strips and decrypts every wire buffer, and drops what fails.\<close>

fun deliver_run :: "prims \<Rightarrow> int \<Rightarrow> Session \<Rightarrow> PacketBuffer list \<Rightarrow> bytes list go" where
  "deliver_run P now r [] = Some []"
| "deliver_run P now r (w # ws) =
     Option.bind (StripHeader w) (\<lambda>(res, w1).
       case res of
         Inl e \<Rightarrow> deliver_run P now r ws
       | Inr h \<Rightarrow>
           Option.bind (DecryptPacket P r w1 h now) (\<lambda>(e, r', w2).
             Option.bind (deliver_run P now r' ws) (\<lambda>ds. Some (if e = None then content w2 # ds else ds))))"

text \<open>A wire buffer that carries the plaintext \<open>pt\<close> under counter \<open>q\<close>.\<close>

definition carries :: "prims \<Rightarrow> AEADCipher \<Rightarrow> Header \<Rightarrow> bytes \<Rightarrow> PacketBuffer \<Rightarrow> bool" where
  "carries P c h pt w \<longleftrightarrow> wf_buf w \<and>
     content w = header_bytes h @ seal P (suite c) (aead_key c) (nonce_of (Counter h)) pt (header_bytes h)"

lemma carries_strip:
  assumes "carries P c h pt w"
  shows "\<exists>w1. StripHeader w = Some (Inr h, w1) \<and> wf_buf w1
    \<and> content w1 = seal P (suite c) (aead_key c) (nonce_of (Counter h)) pt (header_bytes h)"
proof -
  from assms have w: "wf_buf w" "content w = header_bytes h @
      seal P (suite c) (aead_key c) (nonce_of (Counter h)) pt (header_bytes h)" by (auto simp: carries_def)
  have "HeaderSize \<le> Length w" using length_content [OF w(1)] w(2) by simp
  from StripHeader_ok [OF w(1) this] obtain h' w1 where s: "StripHeader w = Some (Inr h', w1)"
    "content w = header_bytes h' @ content w1" "wf_buf w1" by blast
  then have "h' = h" using w(2) by (metis DecodeHeader_bytes sum.inject(2))
  then show ?thesis using s w(2) by auto
qed

lemma send_run_carries:
  assumes A: "aead_ok P" and "SendCipher s = Some c" "cipher_ok c" "list_all has_room bs"
  shows "\<exists>ws. send_run P now ty fl s bs = Some ws \<and> length ws = length bs
    \<and> (\<forall>i < length bs. carries P c (out_header (s\<lparr>sendCounter := sendCounter s + of_nat i\<rparr>) ty fl)
          (content (bs ! i)) (ws ! i))"
  using assms(2-)
proof (induction bs arbitrary: s)
  case Nil
  then show ?case by simp
next
  case (Cons b bs)
  let ?s = "s\<lparr>sendCounter := sendCounter s + 1, LastActive := now\<rparr>"
  have room: "has_room b" using Cons.prems by simp
  from EncryptPacket_ok [OF A Cons.prems(1,2) room, of ty fl now]
  obtain w where w: "EncryptPacket P s b ty fl now = Some (None, ?s, w)"
    "carries P c (out_header s ty fl) (content b) w" by (auto simp: carries_def)
  have "SendCipher ?s = Some c" "list_all has_room bs" using Cons.prems by simp_all
  from Cons.IH [OF this(1) Cons.prems(2) this(2)] obtain ws where ws:
    "send_run P now ty fl ?s bs = Some ws" "length ws = length bs"
    "\<forall>i < length bs. carries P c (out_header (?s\<lparr>sendCounter := sendCounter ?s + of_nat i\<rparr>) ty fl)
        (content (bs ! i)) (ws ! i)" by blast
  have step: "carries P c (out_header (s\<lparr>sendCounter := sendCounter s + of_nat i\<rparr>) ty fl)
      (content ((b # bs) ! i)) ((w # ws) ! i)" if "i < length (b # bs)" for i
    using that w(2) ws(3) by (cases i) (simp_all add: out_header_def add.assoc)
  then show ?case using w(1) ws(1,2) by (intro exI [of _ "w # ws"]) simp
qed

lemma deliver_run_carries:
  assumes A: "aead_ok P" and "RecvCipher r = Some c" "cipher_ok c"
    and "list_all2 (\<lambda>w q. carries P c (hq q) (pt q) w \<and> Counter (hq q) = q) ws qs"
  shows "deliver_run P now r ws = Some (map pt (accepted_run (replay r) qs))"
  using assms(2-)
proof (induction ws arbitrary: r qs)
  case Nil
  then show ?case by simp
next
  case (Cons w ws)
  then obtain q qs' where qs: "qs = q # qs'" and w: "carries P c (hq q) (pt q) w" "Counter (hq q) = q"
    and rest: "list_all2 (\<lambda>w q. carries P c (hq q) (pt q) w \<and> Counter (hq q) = q) ws qs'"
    by (auto simp: list_all2_Cons1)
  from carries_strip [OF w(1)] obtain w1 where w1: "StripHeader w = Some (Inr (hq q), w1)" "wf_buf w1"
    "content w1 = seal P (suite c) (aead_key c) (nonce_of (Counter (hq q))) (pt q) (header_bytes (hq q))" by blast
  define rw where "rw = snd (CheckAndSet (replay r) q)"
  show ?case
  proof (cases "fst (CheckAndSet (replay r) q)")
    case True
    from DecryptPacket_ok [OF A Cons.prems(1,2) w1(2) _ w1(3), of now] True w(2)
    obtain w2 where "DecryptPacket P r w1 (hq q) now = Some (None, r\<lparr>replay := rw, LastActive := now\<rparr>, w2)"
      "content w2 = pt q" by (auto simp: rw_def)
    then show ?thesis using Cons.IH [of "r\<lparr>replay := rw, LastActive := now\<rparr>", OF _ Cons.prems(2) rest] Cons.prems(1) w1(1) True
      by (simp add: qs case_prod_beta rw_def)
  next
    case False
    then have "DecryptPacket P r w1 (hq q) now = Some (Some ErrReplay, r\<lparr>replay := rw\<rparr>, w1)"
      using DecryptPacket_replayed [of r "hq q" P w1 now] w(2) by (simp add: rw_def)
    then show ?thesis using Cons.IH [of "r\<lparr>replay := rw\<rparr>", OF _ Cons.prems(2) rest] Cons.prems(1) w1(1) False
      by (simp add: qs case_prod_beta rw_def)
  qed
qed

text \<open>In order, every counter from 0 on is accepted.\<close>

lemma accepted_run_ascending:
  assumes "maxSeq rw < of_nat k" "k + n \<le> 2 ^ 64"
  shows "accepted_run rw (map of_nat [k..<k + n]) = map of_nat [k..<k + n]"
  using assms
proof (induction n arbitrary: k rw)
  case 0
  then show ?case by simp
next
  case (Suc n)
  define rw' where "rw' = snd (CheckAndSet rw (of_nat k))"
  have st: "CheckAndSet rw (of_nat k) = (True, rw')" "maxSeq rw' = of_nat k"
    using CheckAndSet_advance [OF Suc.prems(1)] by (simp_all add: rw'_def prod_eq_iff)
  have upt: "[k..<k + Suc n] = k # [Suc k..<Suc k + n]" by (simp add: upt_conv_Cons)
  show ?case
  proof (cases n)
    case 0
    then show ?thesis using st by simp
  next
    case (Suc m)
    then have "Suc k < 2 ^ 64" using Suc.prems(2) by simp
    then have "(of_nat k :: u64) < of_nat (Suc k)"
      by (simp only: word_less_nat_alt unat_of_nat take_bit_nat_eq_self) (simp add: take_bit_nat_eq_self)
    then have "accepted_run rw' (map of_nat [Suc k..<Suc k + n]) = map of_nat [Suc k..<Suc k + n]"
      using Suc.IH [of rw' "Suc k"] Suc.prems(2) st(2) by simp
    then show ?thesis using st(1) unfolding upt by simp
  qed
qed

lemma accepted_run_in_order:
  assumes "n \<le> 2 ^ 64"
  shows "accepted_run new_ReplayWindow (map of_nat [0..<n]) = map of_nat [0..<n]"
proof (cases n)
  case 0
  then show ?thesis by simp
next
  case (Suc m)
  define rw' where "rw' = snd (CheckAndSet new_ReplayWindow 0)"
  have st: "CheckAndSet new_ReplayWindow 0 = (True, rw')" "maxSeq rw' = 0"
    by (simp_all add: rw'_def CheckAndSet_def new_ReplayWindow_def Let_def WindowSize_def)
  have "[0..<n] = 0 # [1..<1 + m]" using Suc by (simp add: upt_conv_Cons)
  then show ?thesis using accepted_run_ascending [of rw' 1 m] assms st Suc by simp
qed

text \<open>What one run of the sender lets every network and receiver do.\<close>

lemma delivery:
  assumes A: "aead_ok P" and pr: "paired s r" and zero: "sendCounter s = 0"
    and room: "list_all has_room bs" and few: "length bs \<le> 2 ^ 64"
  shows "\<exists>ws. send_run P t1 ty fl s bs = Some ws \<and> length ws = length bs
    \<and> (\<forall>net. list_all (\<lambda>i. i < length bs) net \<longrightarrow> deliver_run P t2 r (map ((!) ws) net)
        = Some (map (\<lambda>q. content (bs ! unat q)) (accepted_run (replay r) (map of_nat net))))"
proof -
  from pr obtain c where c: "SendCipher s = Some c" "RecvCipher r = Some c" "cipher_ok c"
    by (auto simp: paired_def)
  define hq where "hq = (\<lambda>q. out_header (s\<lparr>sendCounter := q\<rparr>) ty fl)"
  from send_run_carries [OF A c(1,3) room, of t1 ty fl] zero obtain ws where ws:
    "send_run P t1 ty fl s bs = Some ws" "length ws = length bs"
    "\<forall>i < length bs. carries P c (hq (of_nat i)) (content (bs ! i)) (ws ! i)" by (auto simp: hq_def)
  have "deliver_run P t2 r (map ((!) ws) net)
      = Some (map (\<lambda>q. content (bs ! unat q)) (accepted_run (replay r) (map of_nat net)))"
    if net: "list_all (\<lambda>i. i < length bs) net" for net
  proof -
    have "list_all2 (\<lambda>w q. carries P c (hq q) (content (bs ! unat q)) w \<and> Counter (hq q) = q)
        (map ((!) ws) net) (map of_nat net)"
      using net ws(3) unat_of_nat64 few by (auto simp: list_all2_conv_all_nth list_all_length hq_def)
    from deliver_run_carries [OF A c(2,3) this] show ?thesis .
  qed
  then show ?thesis using ws(1,2) by blast
qed

section \<open>Properties\<close>

text \<open>Two concrete sessions that share a key, for the witnesses.\<close>

definition demo_cipher :: AEADCipher where
  "demo_cipher = \<lparr>aead_key = replicate 32 5, suite = CipherChaCha20Poly1305\<rparr>"

definition demo_session :: "u32 \<Rightarrow> u32 \<Rightarrow> Session" where
  "demo_session l r = \<lparr>LocalIndex = l, RemoteIndex = r, SendCipher = Some demo_cipher,
     RecvCipher = Some demo_cipher, sendCounter = 0, replay = new_ReplayWindow, RemoteAddr = None,
     LastActive = 0, CreatedAt = 0\<rparr>"

definition demo_packet :: "byte \<Rightarrow> PacketBuffer" where
  "demo_packet x = \<lparr>Data = replicate 64 x, Length = 3, Offset = 14\<rparr>"

lemma demo_paired: "paired (demo_session 1 2) (demo_session 2 1)"
  by (simp add: paired_def demo_session_def demo_cipher_def cipher_ok_def)

lemma demo_session_live: "live (demo_session i j)"
  by (simp add: live_def demo_session_def demo_cipher_def cipher_ok_def)

lemma demo_room: "has_room (demo_packet x)" "content (demo_packet x) = [x, x, x]"
  by (simp_all add: has_room_def demo_packet_def content_def numeral_eq_Suc)

lemma demo_fields: "sendCounter (demo_session l r) = 0" "replay (demo_session l r) = new_ReplayWindow"
  "SendCipher (demo_session l r) = Some demo_cipher" "RecvCipher (demo_session l r) = Some demo_cipher"
  "cipher_ok demo_cipher"
  by (simp_all add: demo_session_def demo_cipher_def cipher_ok_def)

text \<open>
  C3: Delivery over a network that loses, duplicates and reorders. The sender encrypts any sequence
  of packets on a fresh session; the network hands the receiver any sequence \<open>net\<close> of
  positions of sent packets. Nothing panics, every packet is sent, and the receiver delivers exactly
  the plaintexts of the positions its replay window accepts, unmodified and in the order of arrival.
\<close>

theorem lossy_delivery:
  assumes A: "aead_ok P" and pr: "paired s r" and zero: "sendCounter s = 0"
    and room: "list_all has_room bs" and few: "length bs \<le> 2 ^ 64" and net: "list_all (\<lambda>i. i < length bs) net"
  shows "\<exists>ws. send_run P t1 ty fl s bs = Some ws \<and> length ws = length bs
    \<and> deliver_run P t2 r (map ((!) ws) net)
        = Some (map (\<lambda>q. content (bs ! unat q)) (accepted_run (replay r) (map of_nat net)))"
  using delivery [OF A pr zero room few] net by blast

theorem lossy_delivery_witness:
  "\<exists>ws. send_run demo_prims 1 TypeData 0 (demo_session 1 2) [demo_packet 7, demo_packet 8] = Some ws
    \<and> deliver_run demo_prims 2 (demo_session 2 1) (map ((!) ws) [1, 0, 1]) = Some [[8, 8, 8], [7, 7, 7]]"
proof -
  have acc: "accepted_run new_ReplayWindow [1, 0, 1] = [1, 0]" by code_simp
  from lossy_delivery [OF demo_aead_ok demo_paired, of "[demo_packet 7, demo_packet 8]" "[1, 0, 1]" 1 TypeData 0 2]
  show ?thesis by (auto simp: demo_room demo_fields acc simp del: send_run.simps deliver_run.simps accepted_run.simps)
qed

text \<open>
  C15: Lossless in-order delivery. When the network delivers every packet once and in order, up to
  \<open>2 ^ 64\<close> packets arrive all and unchanged: the replay window never rejects a packet of an
  undisturbed stream.
\<close>

theorem in_order_delivery:
  assumes A: "aead_ok P" and pr: "paired s r" and zero: "sendCounter s = 0"
    and new: "replay r = new_ReplayWindow" and room: "list_all has_room bs" and few: "length bs \<le> 2 ^ 64"
  shows "\<exists>ws. send_run P t1 ty fl s bs = Some ws \<and> deliver_run P t2 r ws = Some (map content bs)"
proof -
  let ?net = "[0..<length bs]"
  from delivery [OF A pr zero room few, of t1 ty fl t2] obtain ws where ws:
    "send_run P t1 ty fl s bs = Some ws" "length ws = length bs"
    "deliver_run P t2 r (map ((!) ws) ?net)
       = Some (map (\<lambda>q. content (bs ! unat q)) (accepted_run (replay r) (map of_nat ?net)))"
    by (auto simp: list_all_length)
  have "map (\<lambda>q. content (bs ! unat q)) (map (of_nat :: nat \<Rightarrow> u64) ?net) = map content bs"
    using unat_of_nat64 few by (auto intro: nth_equalityI)
  moreover have "map ((!) ws) ?net = ws" using map_nth [of ws] ws(2) by simp
  ultimately show ?thesis using ws(1,3) by (simp only: new accepted_run_in_order [OF few]) blast
qed

theorem in_order_delivery_witness:
  "\<exists>ws. send_run demo_prims 1 TypeData 0 (demo_session 1 2) [demo_packet 7, demo_packet 8] = Some ws
    \<and> deliver_run demo_prims 2 (demo_session 2 1) ws = Some [[7, 7, 7], [8, 8, 8]]"
  using in_order_delivery [OF demo_aead_ok demo_paired, of "[demo_packet 7, demo_packet 8]" 1 TypeData 0 2]
  by (auto simp: demo_room demo_fields simp del: send_run.simps deliver_run.simps)

text \<open>
  C8: No packet is delivered twice. A session that is fed any sequence of packets whatever, forged and
  replayed ones included, handles all of them without a panic and lets each counter through at
  most once.
\<close>

theorem at_most_once:
  assumes "RecvCipher r = Some c" "replay r = new_ReplayWindow" "list_all (\<lambda>p. wf_buf (snd p)) ps"
  shows "\<exists>ds. recv_run P now r ps = Some ds \<and> distinct (counters ds)"
  using recv_run_subseq [OF assms(1,3)] accepted_run_distinct assms(2)
  by (metis subseq_distinct)

theorem at_most_once_witness:
  "\<exists>ds. recv_run demo_prims 0 (demo_session 2 1)
      [(\<lparr>Type = 3, Flags = 0, ReceiverIndex = 2, Counter = 4\<rparr>, demo_packet 1),
       (\<lparr>Type = 3, Flags = 0, ReceiverIndex = 2, Counter = 4\<rparr>, demo_packet 2)] = Some ds
    \<and> distinct (counters ds)"
  using at_most_once [of "demo_session 2 1" demo_cipher
      "[(\<lparr>Type = 3, Flags = 0, ReceiverIndex = 2, Counter = 4\<rparr>, demo_packet 1),
       (\<lparr>Type = 3, Flags = 0, ReceiverIndex = 2, Counter = 4\<rparr>, demo_packet 2)]" demo_prims 0]
  by (simp add: demo_fields demo_room has_room_wf del: recv_run.simps)

text \<open>
  Nonces are not reused. Any two packets of a run of at most \<open>2 ^ 64\<close> packets of a fresh
  session carry headers with different counters, so they are sealed under different nonces.
\<close>

lemma nonces_unique:
  assumes A: "aead_ok P" and c: "SendCipher s = Some c" "cipher_ok c" and room: "list_all has_room bs"
    and few: "length bs \<le> 2 ^ 64" and ij: "i < length bs" "j < length bs" "i \<noteq> j"
  shows "\<exists>ws hi hj. send_run P t ty fl s bs = Some ws \<and> length ws = length bs
    \<and> DecodeHeader (content (ws ! i)) = Inr hi \<and> DecodeHeader (content (ws ! j)) = Inr hj
    \<and> nonce_of (Counter hi) \<noteq> nonce_of (Counter hj)"
proof -
  from send_run_carries [OF A c room, of t ty fl] obtain ws where ws: "send_run P t ty fl s bs = Some ws"
    "length ws = length bs" "\<forall>i < length bs. carries P c
        (out_header (s\<lparr>sendCounter := sendCounter s + of_nat i\<rparr>) ty fl) (content (bs ! i)) (ws ! i)" by blast
  have "(of_nat i :: u64) \<noteq> of_nat j" using unat_of_nat64 [OF _ few] ij by metis
  then show ?thesis using ws ij by (auto simp: carries_def)
qed

end
