(* ===== verification/Ant_Strings.thy ===== *)
theory Ant_Strings
  imports Ant_Prelude "HOL-Library.Sublist"
begin

text \<open>
  The functions of Go's \<open>strings\<close>, \<open>strconv\<close> and \<open>net\<close> packages that the programs
  use on addresses and connection strings. Strings are byte strings; the texts handled here are ASCII.
\<close>

section \<open>strings\<close>

definition HasPrefix :: "string \<Rightarrow> string \<Rightarrow> bool" where
  "HasPrefix s p \<longleftrightarrow> take (length p) s = p"

definition HasSuffix :: "string \<Rightarrow> string \<Rightarrow> bool" where
  "HasSuffix s p \<longleftrightarrow> length p \<le> length s \<and> drop (length s - length p) s = p"

definition TrimPrefix :: "string \<Rightarrow> string \<Rightarrow> string" where
  "TrimPrefix s p = (if HasPrefix s p then drop (length p) s else s)"

fun Index :: "string \<Rightarrow> string \<Rightarrow> nat option" where
  "Index [] sub = (if sub = [] then Some 0 else None)"
| "Index (c # s) sub = (if HasPrefix (c # s) sub then Some 0 else map_option Suc (Index s sub))"

definition Contains :: "string \<Rightarrow> string \<Rightarrow> bool" where
  "Contains s sub \<longleftrightarrow> Index s sub \<noteq> None"

text \<open>\<open>strings.Split\<close> at a one-byte separator.\<close>

fun Split :: "string \<Rightarrow> char \<Rightarrow> string list" where
  "Split [] sep = [[]]"
| "Split (c # s) sep = (if c = sep then [] # Split s sep
     else case Split s sep of [] \<Rightarrow> [[c]] | p # ps \<Rightarrow> (c # p) # ps)"

text \<open>\<open>strings.ReplaceAll(s, "::", ":")\<close>: non-overlapping, from the left.\<close>

fun replace_double_colon :: "string \<Rightarrow> string" where
  "replace_double_colon (a # b # s) =
     (if a = CHR '':'' \<and> b = CHR '':'' then CHR '':'' # replace_double_colon s
      else a # replace_double_colon (b # s))"
| "replace_double_colon s = s"

definition is_space :: "char \<Rightarrow> bool" where
  "is_space c \<longleftrightarrow> c \<in> {CHR 0x09, CHR 0x0A, CHR 0x0B, CHR 0x0C, CHR 0x0D, CHR '' ''}"

definition TrimSpace :: "string \<Rightarrow> string" where
  "TrimSpace s = rev (dropWhile is_space (rev (dropWhile is_space s)))"

section \<open>strconv\<close>

fun dec_digits :: "nat \<Rightarrow> string" where
  "dec_digits n = (if n < 10 then [char_of (48 + n)] else dec_digits (n div 10) @ [char_of (48 + n mod 10)])"

declare dec_digits.simps [simp del]

definition digit_val :: "char \<Rightarrow> nat option" where
  "digit_val c = (let n = of_char c in if 48 \<le> n \<and> n \<le> 57 then Some (n - 48) else None)"

fun parse_digits :: "nat \<Rightarrow> string \<Rightarrow> nat option" where
  "parse_digits acc [] = Some acc"
| "parse_digits acc (c # s) = (case digit_val c of None \<Rightarrow> None | Some d \<Rightarrow> parse_digits (10 * acc + d) s)"

text \<open>
  The number \<open>strconv.Atoi\<close> returns next to its error, which every caller ignores: 0 for a
  malformed text, the nearest 64-bit value for one out of range.
\<close>

definition clamp64 :: "int \<Rightarrow> int" where
  "clamp64 n = max (- (2 ^ 63)) (min (2 ^ 63 - 1) n)"

definition Atoi :: "string \<Rightarrow> int" where
  "Atoi s =
     (let neg = HasPrefix s ''-'';
          t = (if neg \<or> HasPrefix s ''+'' then drop 1 s else s)
      in if t = [] then 0
         else case parse_digits 0 t of
                None \<Rightarrow> 0
              | Some n \<Rightarrow> clamp64 (if neg then - int n else int n))"

section \<open>net\<close>

definition JoinHostPort :: "string \<Rightarrow> string \<Rightarrow> string" where
  "JoinHostPort host port =
     (if CHR '':'' \<in> set host then ''['' @ host @ '']:'' @ port else host @ '':'' @ port)"

text \<open>Positions of the first and the last occurrence of a character.\<close>

fun first_pos :: "char \<Rightarrow> string \<Rightarrow> nat option" where
  "first_pos c [] = None"
| "first_pos c (x # s) = (if x = c then Some 0 else map_option Suc (first_pos c s))"

definition last_pos :: "char \<Rightarrow> string \<Rightarrow> nat option" where
  "last_pos c s = map_option (\<lambda>k. length s - 1 - k) (first_pos c (rev s))"

text \<open>\<open>net.SplitHostPort\<close>; \<open>None\<close> for each of its errors.\<close>

definition SplitHostPort :: "string \<Rightarrow> (string \<times> string) option" where
  "SplitHostPort hp =
     (case last_pos CHR '':'' hp of
        None \<Rightarrow> None
      | Some i \<Rightarrow>
          if HasPrefix hp ''['' then
            (case first_pos CHR '']'' hp of
               None \<Rightarrow> None
             | Some e \<Rightarrow>
                 if e + 1 \<noteq> i then None
                 else if CHR ''['' \<in> set (drop 1 hp) \<or> CHR '']'' \<in> set (drop (e + 1) hp) then None
                 else Some (take (e - 1) (drop 1 hp), drop (i + 1) hp))
          else if CHR '':'' \<in> set (take i hp) then None
          else if CHR ''['' \<in> set hp \<or> CHR '']'' \<in> set hp then None
          else Some (take i hp, drop (i + 1) hp))"

text \<open>\<open>net.IP(b).String()\<close> for four bytes.\<close>

definition ip_string :: "bytes \<Rightarrow> string" where
  "ip_string b = dec_digits (unat (b ! 0)) @ ''.'' @ dec_digits (unat (b ! 1)) @ ''.''
     @ dec_digits (unat (b ! 2)) @ ''.'' @ dec_digits (unat (b ! 3))"

text \<open>\<open>%d\<close> of an int.\<close>

definition fmt_d :: "int \<Rightarrow> string" where
  "fmt_d n = (if n < 0 then ''-'' @ dec_digits (nat (- n)) else dec_digits (nat n))"

text \<open>An external command with its arguments, as \<open>exec.Command\<close> takes them.\<close>

type_synonym command = "string list"

section \<open>Lemmas\<close>

lemma HasPrefix_iff: "HasPrefix s p \<longleftrightarrow> (\<exists>r. s = p @ r)"
  unfolding HasPrefix_def by (metis append_take_drop_id append_eq_conv_conj)

lemma HasPrefix_append [simp]: "HasPrefix (p @ s) p"
  by (simp add: HasPrefix_def)

lemma HasPrefix_single: "HasPrefix s [c] \<longleftrightarrow> s \<noteq> [] \<and> hd s = c"
  by (cases s) (auto simp: HasPrefix_def)

lemma HasSuffix_single: "HasSuffix s [c] \<longleftrightarrow> s \<noteq> [] \<and> last s = c"
  by (cases s rule: rev_cases) (auto simp: HasSuffix_def)

lemma Contains_single: "Contains s [c] \<longleftrightarrow> c \<in> set s"
  unfolding Contains_def by (induction s) (auto simp: HasPrefix_def)

lemma first_pos_None: "first_pos c s = None \<longleftrightarrow> c \<notin> set s"
  by (induction s) auto

lemma first_pos_append: "c \<notin> set xs \<Longrightarrow> first_pos c (xs @ c # ys) = Some (length xs)"
  by (induction xs) auto

lemma last_pos_append: "c \<notin> set ys \<Longrightarrow> last_pos c (xs @ c # ys) = Some (length xs)"
  using first_pos_append [of c "rev ys" "rev xs"] by (simp add: last_pos_def)

lemma last_pos_None: "last_pos c s = None \<longleftrightarrow> c \<notin> set s"
  by (simp add: last_pos_def first_pos_None)

text \<open>A host without colons and brackets is what \<open>SplitHostPort\<close> finds again.\<close>

lemma SplitHostPort_plain:
  assumes "set host \<inter> {CHR '':'', CHR ''['', CHR '']''} = {}" "set port \<inter> {CHR '':'', CHR ''['', CHR '']''} = {}"
  shows "SplitHostPort (host @ '':'' @ port) = Some (host, port)"
proof -
  have l: "last_pos CHR '':'' (host @ CHR '':'' # port) = Some (length host)"
    using assms by (intro last_pos_append) auto
  have "\<not> HasPrefix (host @ CHR '':'' # port) ''[''"
    using assms(1) by (cases host) (auto simp: HasPrefix_def)
  then show ?thesis using assms l by (auto simp: SplitHostPort_def)
qed

lemma SplitHostPort_bracketed:
  assumes "set host \<inter> {CHR ''['', CHR '']''} = {}" "set port \<inter> {CHR '':'', CHR ''['', CHR '']''} = {}"
  shows "SplitHostPort (''['' @ host @ '']:'' @ port) = Some (host, port)"
proof -
  let ?hp = "''['' @ host @ '']:'' @ port"
  have l: "last_pos CHR '':'' ?hp = Some (length host + 2)"
    using last_pos_append [of "CHR '':''" port "''['' @ host @ '']''"] assms(2) by simp
  have f: "first_pos CHR '']'' ?hp = Some (length host + 1)"
    using first_pos_append [of "CHR '']''" "''['' @ host" "'':'' @ port"] assms(1) by simp
  have "HasPrefix ?hp ''[''" by (simp add: HasPrefix_def)
  then show ?thesis using assms l f by (auto simp: SplitHostPort_def)
qed

lemma SplitHostPort_JoinHostPort:
  assumes "set host \<inter> {CHR ''['', CHR '']''} = {}" "set port \<inter> {CHR '':'', CHR ''['', CHR '']''} = {}"
  shows "SplitHostPort (JoinHostPort host port) = Some (host, port)"
  using assms SplitHostPort_plain [of host port] SplitHostPort_bracketed [of host port]
  by (auto simp: JoinHostPort_def)

text \<open>Decimal numbers read back.\<close>

lemma digit_val_char: "d < 10 \<Longrightarrow> digit_val (char_of (48 + d)) = Some d"
  by (simp add: digit_val_def Let_def)

lemma parse_digits_append:
  "parse_digits acc (s @ t) = Option.bind (parse_digits acc s) (\<lambda>a. parse_digits a t)"
  by (induction acc s rule: parse_digits.induct) (auto split: option.splits)

lemma parse_dec_digits: "parse_digits 0 (dec_digits n) = Some n"
proof (induction n rule: dec_digits.induct)
  case (1 n)
  show ?case
  proof (cases "n < 10")
    case True
    then show ?thesis by (simp add: dec_digits.simps [of n] digit_val_char)
  next
    case False
    then show ?thesis using 1 digit_val_char [of "n mod 10"]
      by (simp add: dec_digits.simps [of n] parse_digits_append)
  qed
qed

lemma dec_digits_set: "set (dec_digits n) \<subseteq> set ''0123456789''"
proof (induction n rule: dec_digits.induct)
  case (1 n)
  have "list_all (\<lambda>d. char_of (48 + d) \<in> set ''0123456789'') [0..<10]" by code_simp
  then have "char_of (48 + d) \<in> set ''0123456789''" if "d < 10" for d :: nat
    using that by (auto simp only: list_all_iff set_upt atLeastLessThan_iff)
  then show ?case using 1
    by (subst dec_digits.simps) (simp only: if_split set_append list.set empty_subsetI insert_subset Un_subset_iff not_less, simp)
qed

lemma dec_digits_nonempty [simp]: "dec_digits n \<noteq> []"
  by (subst dec_digits.simps) simp

lemma Split_nonempty [simp]: "Split s sep \<noteq> []"
  by (induction s) (auto split: list.splits)

lemma Split_no_sep: "sep \<notin> set s \<Longrightarrow> Split s sep = [s]"
  by (induction s) auto

lemma Split_append: "sep \<notin> set a \<Longrightarrow> Split (a @ sep # b) sep = a # Split b sep"
  by (induction a) auto

end
