(* ===== verification/Ant_Server.thy ===== *)
theory Ant_Server
  imports Ant_Tunnel Ant_Strings
begin

text \<open>
  \<open>cmd/antserver/main.go\<close>: the peer table that routes return traffic, the handler of incoming
  packets and the body of the egress loop. Sessions and peers are shared by pointer: a pointer is an
  index into the lists \<open>sv_store\<close> and \<open>sv_peers\<close>, which only grow. A transport is
  named by its position in the server's list; \<open>sv_sent\<close> records the calls of
  \<open>Transport.Send\<close> and \<open>sv_tun\<close> the packets handed to the TUN device, whose errors
  the code ignores. Random bytes and the clock are arguments.
\<close>

section \<open>Peer table\<close>

type_synonym pref = nat

record ClientPeer =
  peer_Session :: sref
  peer_Transport :: nat
  peer_RemoteAddr :: net_addr
  VirtualIP :: string
  peer_LastActive :: int

record PeerTable =
  peersByIP :: "(string \<times> pref) list"
  lastActive :: "pref option"

definition NewPeerTable :: PeerTable where
  "NewPeerTable = \<lparr>peersByIP = [], lastActive = None\<rparr>"

definition PeerTable_Register ::
  "PeerTable \<Rightarrow> ClientPeer list \<Rightarrow> string \<Rightarrow> sref \<Rightarrow> nat \<Rightarrow> net_addr \<Rightarrow> int \<Rightarrow> PeerTable \<times> ClientPeer list" where
  "PeerTable_Register pt ps ip session tr raddr now =
     (let (p, pt1, ps1) =
        (case map_of (peersByIP pt) ip of
           Some p \<Rightarrow> (p, pt, ps)
         | None \<Rightarrow>
             (length ps, pt\<lparr>peersByIP := AList.update ip (length ps) (peersByIP pt)\<rparr>,
              ps @ [\<lparr>peer_Session = session, peer_Transport = tr, peer_RemoteAddr = raddr,
                     VirtualIP = ip, peer_LastActive = now\<rparr>]))
      in (pt1\<lparr>lastActive := Some p\<rparr>,
          ps1[p := (ps1 ! p)\<lparr>peer_Session := session, peer_Transport := tr,
                             peer_RemoteAddr := raddr, peer_LastActive := now\<rparr>]))"

definition PeerTable_Lookup :: "PeerTable \<Rightarrow> string \<Rightarrow> pref option" where
  "PeerTable_Lookup pt ip = (case map_of (peersByIP pt) ip of Some p \<Rightarrow> Some p | None \<Rightarrow> lastActive pt)"

section \<open>Server state\<close>

record server =
  sv_store :: session_store
  sv_mgr :: SessionManager
  sv_peers :: "ClientPeer list"
  sv_table :: PeerTable
  sv_sent :: "(nat \<times> net_addr \<times> bytes) list"
  sv_tun :: "bytes list"

definition server_start :: server where
  "server_start = \<lparr>sv_store = [], sv_mgr = NewSessionManager, sv_peers = [], sv_table = NewPeerTable,
     sv_sent = [], sv_tun = []\<rparr>"

record server_cfg =
  serverPriv :: PrivateKey
  has_tun :: bool
  defaultPeerIP :: string

definition learn_peer :: "server \<Rightarrow> string \<Rightarrow> sref \<Rightarrow> nat \<Rightarrow> net_addr \<Rightarrow> int \<Rightarrow> server" where
  "learn_peer sv ip r tr raddr now =
     (case PeerTable_Register (sv_table sv) (sv_peers sv) ip r tr raddr now of
        (pt, ps) \<Rightarrow> sv\<lparr>sv_table := pt, sv_peers := ps\<rparr>)"

section \<open>Incoming packets\<close>

text \<open>\<open>buf.Length >= 20 && buf.Bytes()[0]>>4 == 4\<close>\<close>

definition is_ipv4 :: "PacketBuffer \<Rightarrow> bool go" where
  "is_ipv4 buf =
     (if 20 \<le> Length buf then do { bs \<leftarrow> Bytes buf; x \<leftarrow> index bs 0; Some (drop_bit 4 x = 4) }
      else Some False)"

text \<open>\<open>net.IP(buf.Bytes()[i:i+4]).String()\<close>\<close>

definition ip_at :: "PacketBuffer \<Rightarrow> nat \<Rightarrow> string go" where
  "ip_at buf i = do { bs \<leftarrow> Bytes buf; a \<leftarrow> slice bs i (i + 4); Some (ip_string a) }"

text \<open>A message of the size of a handshake initiation. \<open>idx\<close> and \<open>eph\<close> are the random bytes drawn.\<close>

definition handle_initiation ::
  "prims \<Rightarrow> server_cfg \<Rightarrow> bytes \<Rightarrow> bytes option \<Rightarrow> int \<Rightarrow> nat \<Rightarrow> net_addr \<Rightarrow> PacketBuffer \<Rightarrow> server \<Rightarrow> server go" where
  "handle_initiation P cfg idx eph now tr raddr buf sv =
     (let serverIndex = GenerateIndex idx;
          responder = NewResponderHandshake P (serverPriv cfg) serverIndex
      in do {
        initMsg \<leftarrow> Bytes buf;
        (case fst (ConsumeInitiation P responder initMsg eph) of
           Inl e \<Rightarrow> Some sv
         | Inr (respMsg, sessionKeys) \<Rightarrow>
             (case NewSession sessionKeys (Some raddr) CipherChaCha20Poly1305 now of
                Inl e \<Rightarrow> Some sv
              | Inr session \<Rightarrow>
                  let r = length (sv_store sv);
                      store1 = sv_store sv @ [session];
                      sv1 = sv\<lparr>sv_store := store1, sv_mgr := SessionManager_Register (sv_mgr sv) store1 r\<rparr>;
                      sv2 = learn_peer sv1 (defaultPeerIP cfg) r tr raddr now;
                      respBuf = fill (Reset (pool_New GlobalPool)) respMsg
                  in do {
                    out \<leftarrow> Bytes respBuf;
                    Some (sv2\<lparr>sv_sent := sv_sent sv2 @ [(tr, raddr, out)]\<rparr>)
                  }))
      })"

text \<open>The \<open>switch\<close> on the type of an authenticated packet.\<close>

definition dispatch ::
  "server_cfg \<Rightarrow> int \<Rightarrow> nat \<Rightarrow> net_addr \<Rightarrow> PacketBuffer \<Rightarrow> Header \<Rightarrow> sref \<Rightarrow> server \<Rightarrow> server go" where
  "dispatch cfg now tr raddr buf h r sv =
     (if Type h = TypeData then do {
        v4 \<leftarrow> is_ipv4 buf;
        ip \<leftarrow> (if v4 then ip_at buf 12 else Some (defaultPeerIP cfg));
        let sv1 = learn_peer sv ip r tr raddr now;
        Some (if has_tun cfg then sv1\<lparr>sv_tun := sv_tun sv1 @ [content buf]\<rparr> else sv1)
      }
      else if Type h = TypeKeepalive then
        Some (learn_peer (sv\<lparr>sv_store := (sv_store sv)[r := (sv_store sv ! r)\<lparr>LastActive := now\<rparr>]\<rparr>)
                (defaultPeerIP cfg) r tr raddr now)
      else if Type h = TypeDisconnect then
        (case SessionManager_Remove (sv_mgr sv) (sv_store sv) (ReceiverIndex h) of
           (mgr, st) \<Rightarrow> Some (sv\<lparr>sv_mgr := mgr, sv_store := st\<rparr>))
      else Some sv)"

definition handle_tunnel ::
  "prims \<Rightarrow> server_cfg \<Rightarrow> int \<Rightarrow> nat \<Rightarrow> net_addr \<Rightarrow> PacketBuffer \<Rightarrow> server \<Rightarrow> server go" where
  "handle_tunnel P cfg now tr raddr buf sv = do {
     sh \<leftarrow> StripHeader buf;
     (case sh of
        (Inl e, buf1) \<Rightarrow> Some sv
      | (Inr h, buf1) \<Rightarrow>
          (case SessionManager_Get (sv_mgr sv) (ReceiverIndex h) of
             None \<Rightarrow> Some sv
           | Some r \<Rightarrow> do {
               d \<leftarrow> DecryptPacket P (sv_store sv ! r) buf1 h now;
               (case d of
                  (e, s, buf2) \<Rightarrow>
                    let sv1 = sv\<lparr>sv_store := (sv_store sv)[r := s]\<rparr>
                    in if e \<noteq> None then Some sv1 else dispatch cfg now tr raddr buf2 h r sv1)
             }))
   }"

definition handleIncomingPacket ::
  "prims \<Rightarrow> server_cfg \<Rightarrow> bytes \<Rightarrow> bytes option \<Rightarrow> int \<Rightarrow> nat \<Rightarrow> net_addr \<Rightarrow> PacketBuffer \<Rightarrow> server \<Rightarrow> server go" where
  "handleIncomingPacket P cfg idx eph now tr raddr buf sv =
     (if Length buf = NoiseHandshakeInitSize then handle_initiation P cfg idx eph now tr raddr buf sv
      else handle_tunnel P cfg now tr raddr buf sv)"

section \<open>Egress\<close>

text \<open>One round of the egress loop, for a packet read from the TUN device.\<close>

definition egress_step :: "prims \<Rightarrow> int \<Rightarrow> PacketBuffer \<Rightarrow> server \<Rightarrow> server go" where
  "egress_step P now buf sv = do {
     v4 \<leftarrow> is_ipv4 buf;
     ip \<leftarrow> (if v4 then ip_at buf 16 else Some []);
     (case PeerTable_Lookup (sv_table sv) ip of
        None \<Rightarrow> Some sv
      | Some p \<Rightarrow>
          let peer = sv_peers sv ! p; r = peer_Session peer in do {
            enc \<leftarrow> EncryptPacket P (sv_store sv ! r) buf TypeData 0 now;
            (case enc of
               (e, s, buf1) \<Rightarrow>
                 let sv1 = sv\<lparr>sv_store := (sv_store sv)[r := s]\<rparr>
                 in if e \<noteq> None then Some sv1
                    else do {
                      out \<leftarrow> Bytes buf1;
                      Some (sv1\<lparr>sv_sent := sv_sent sv1 @ [(peer_Transport peer, peer_RemoteAddr peer, out)]\<rparr>)
                    })
          })
   }"

section \<open>Invariant\<close>

text \<open>
  Sessions in the manager are in the store under their own index and have both ciphers; the
  routing table and the last active peer point to peers, which carry their own address and point into
  the session store.
\<close>

definition mgr_ok :: "SessionManager \<Rightarrow> session_store \<Rightarrow> bool" where
  "mgr_ok mgr st \<longleftrightarrow> (\<forall>i r. SessionManager_Get mgr i = Some r \<longrightarrow>
     r < length st \<and> LocalIndex (st ! r) = i \<and> live (st ! r))"

definition table_ok :: "PeerTable \<Rightarrow> ClientPeer list \<Rightarrow> nat \<Rightarrow> bool" where
  "table_ok pt ps n \<longleftrightarrow>
     (\<forall>ip p. map_of (peersByIP pt) ip = Some p \<longrightarrow> p < length ps \<and> VirtualIP (ps ! p) = ip)
     \<and> (\<forall>p. lastActive pt = Some p \<longrightarrow> p < length ps)
     \<and> (\<forall>p < length ps. peer_Session (ps ! p) < n)"

definition server_ok :: "server \<Rightarrow> bool" where
  "server_ok sv \<longleftrightarrow> mgr_ok (sv_mgr sv) (sv_store sv) \<and> table_ok (sv_table sv) (sv_peers sv) (length (sv_store sv))"

lemma server_ok_start: "server_ok server_start"
  by (simp add: server_ok_def server_start_def mgr_ok_def table_ok_def NewPeerTable_def
      NewSessionManager_def SessionManager_Get_def)

lemma table_ok_mono: "table_ok pt ps n \<Longrightarrow> n \<le> m \<Longrightarrow> table_ok pt ps m"
  by (auto simp: table_ok_def)

text \<open>The peer that \<open>Register\<close> leaves under an address.\<close>

definition the_peer :: "string \<Rightarrow> sref \<Rightarrow> nat \<Rightarrow> net_addr \<Rightarrow> int \<Rightarrow> ClientPeer" where
  "the_peer ip r tr raddr now =
     \<lparr>peer_Session = r, peer_Transport = tr, peer_RemoteAddr = raddr, VirtualIP = ip, peer_LastActive = now\<rparr>"

lemma the_peer_simps [simp]:
  "peer_Session (the_peer ip r tr a now) = r" "peer_Transport (the_peer ip r tr a now) = tr"
  "peer_RemoteAddr (the_peer ip r tr a now) = a" "VirtualIP (the_peer ip r tr a now) = ip"
  by (simp_all add: the_peer_def)

lemma table_okD:
  assumes "table_ok pt ps n"
  shows "map_of (peersByIP pt) ip = Some p \<Longrightarrow> p < length ps \<and> VirtualIP (ps ! p) = ip"
    and "lastActive pt = Some p \<Longrightarrow> p < length ps" and "p < length ps \<Longrightarrow> peer_Session (ps ! p) < n"
  using assms by (simp_all add: table_ok_def)

lemma Register_known:
  assumes "table_ok pt ps n" "map_of (peersByIP pt) ip = Some p"
  shows "PeerTable_Register pt ps ip r tr a now = (pt\<lparr>lastActive := Some p\<rparr>, ps[p := the_peer ip r tr a now])"
  using table_okD(1) [OF assms] assms(2)
  by (cases "ps ! p") (auto simp: PeerTable_Register_def the_peer_def)

lemma Register_new:
  assumes "map_of (peersByIP pt) ip = None"
  shows "PeerTable_Register pt ps ip r tr a now =
    (pt\<lparr>peersByIP := AList.update ip (length ps) (peersByIP pt), lastActive := Some (length ps)\<rparr>,
     ps @ [the_peer ip r tr a now])"
  using assms by (simp add: PeerTable_Register_def the_peer_def)

lemma Register_ok:
  assumes ok: "table_ok pt ps n" and r: "r < n" and reg: "PeerTable_Register pt ps ip r tr a now = (pt', ps')"
  shows "table_ok pt' ps' n"
proof (cases "map_of (peersByIP pt) ip")
  case (Some p)
  have "VirtualIP (ps[p := the_peer ip r tr a now] ! q) = jp" if "map_of (peersByIP pt) jp = Some q" for jp q
    using table_okD(1) [OF ok that] table_okD(1) [OF ok Some] by (cases "q = p") auto
  moreover have "peer_Session (ps[p := the_peer ip r tr a now] ! q) < n" if "q < length ps" for q
    using table_okD(3) [OF ok that] r that by (cases "q = p") simp_all
  ultimately show ?thesis
    using reg Register_known [OF ok Some, of r tr a now] table_okD(1) [OF ok] table_okD(1) [OF ok Some]
    by (auto simp: table_ok_def)
next
  case None
  have "peer_Session ((ps @ [the_peer ip r tr a now]) ! q) < n" if "q < Suc (length ps)" for q
    using table_okD(3) [OF ok, of q] r that by (cases "q = length ps") (simp_all add: nth_append)
  moreover have "q < Suc (length ps) \<and> VirtualIP ((ps @ [the_peer ip r tr a now]) ! q) = jp"
    if "map_of (AList.update ip (length ps) (peersByIP pt)) jp = Some q" for jp q
    using that table_okD(1) [OF ok, of jp q] by (cases "jp = ip") (auto simp: update_conv' nth_append)
  ultimately show ?thesis using reg Register_new [OF None, of ps r tr a now] by (auto simp: table_ok_def)
qed

lemma Register_found:
  assumes ok: "table_ok pt ps n" and reg: "PeerTable_Register pt ps ip r tr a now = (pt', ps')"
  shows "\<exists>p. map_of (peersByIP pt') ip = Some p \<and> lastActive pt' = Some p \<and> p < length ps' \<and> ps' ! p = the_peer ip r tr a now"
  using reg Register_known [OF ok, of ip _ r tr a now] Register_new [of pt ip ps r tr a now] table_okD(1) [OF ok, of ip]
  by (cases "map_of (peersByIP pt) ip") (auto simp: update_conv')

lemma Register_other:
  assumes ok: "table_ok pt ps n" and reg: "PeerTable_Register pt ps ip r tr a now = (pt', ps')" and ne: "jp \<noteq> ip"
  shows "map_of (peersByIP pt') jp = map_of (peersByIP pt) jp"
    and "map_of (peersByIP pt) jp = Some q \<Longrightarrow> ps' ! q = ps ! q"
proof -
  have "map_of (peersByIP pt') jp = map_of (peersByIP pt) jp
      \<and> (map_of (peersByIP pt) jp = Some q \<longrightarrow> ps' ! q = ps ! q)"
  proof (cases "map_of (peersByIP pt) ip")
    case (Some p)
    then show ?thesis using reg Register_known [OF ok Some, of r tr a now] table_okD(1) [OF ok] ne
      by (metis ClientPeer.select_convs(4) PeerTable.ext_inject PeerTable.surjective PeerTable.update_convs(2)
          Pair_inject nth_list_update_neq)
  next
    case None
    then show ?thesis using reg Register_new [OF None, of ps r tr a now] table_okD(1) [OF ok, of jp q] ne
      by (auto simp: update_conv' nth_append)
  qed
  then show "map_of (peersByIP pt') jp = map_of (peersByIP pt) jp"
    and "map_of (peersByIP pt) jp = Some q \<Longrightarrow> ps' ! q = ps ! q" by blast+
qed

lemma mgr_ok_update:
  assumes "mgr_ok mgr st" "LocalIndex s = LocalIndex (st ! r)" "live (st ! r) \<Longrightarrow> live s"
  shows "mgr_ok mgr (st[r := s])"
  using assms by (auto simp: mgr_ok_def) (metis nth_list_update_eq nth_list_update_neq)+

lemma mgr_ok_register:
  assumes "mgr_ok mgr st" "live s"
  shows "mgr_ok (SessionManager_Register mgr (st @ [s]) (length st)) (st @ [s])"
  using assms by (auto simp: mgr_ok_def SessionManager_Get_Register nth_append less_SucI split: if_splits)

lemma mgr_ok_remove:
  assumes "mgr_ok mgr st" "SessionManager_Remove mgr st i = (mgr', st')"
  shows "mgr_ok mgr' st'" "length st' = length st"
proof -
  have get: "SessionManager_Get mgr' j = (if j = i then None else SessionManager_Get mgr j)" for j
    using SessionManager_Get_Remove [of mgr st i j] assms(2) by simp
  have st: "st' = (case SessionManager_Get mgr i of None \<Rightarrow> st | Some q \<Rightarrow> st[q := Session_Wipe (st ! q)])"
    using assms(2) by (auto simp: SessionManager_Remove_def SessionManager_Get_def split: option.splits)
  have "st' ! r = st ! r" if "SessionManager_Get mgr' j = Some r" for j r
    using that assms(1) get [of j] unfolding st mgr_ok_def
    by (auto simp: nth_list_update split: option.splits if_splits)
  moreover show "length st' = length st" unfolding st by (simp split: option.splits)
  ultimately show "mgr_ok mgr' st'" using assms(1) get unfolding mgr_ok_def by (auto split: if_splits)
qed

lemma live_update: "live s \<Longrightarrow> live (s\<lparr>LastActive := t\<rparr>)"
  by (simp add: live_def)

lemma learn_peer_simps [simp]:
  "sv_store (learn_peer sv ip r tr a now) = sv_store sv" "sv_mgr (learn_peer sv ip r tr a now) = sv_mgr sv"
  "sv_sent (learn_peer sv ip r tr a now) = sv_sent sv" "sv_tun (learn_peer sv ip r tr a now) = sv_tun sv"
  by (simp_all add: learn_peer_def split: prod.splits)

lemma server_ok_learn:
  assumes "server_ok sv" "r < length (sv_store sv)"
  shows "server_ok (learn_peer sv ip r tr a now)"
proof -
  obtain pt ps where reg: "PeerTable_Register (sv_table sv) (sv_peers sv) ip r tr a now = (pt, ps)" by fastforce
  from assms Register_ok [OF _ assms(2) reg] show ?thesis
    by (simp add: server_ok_def learn_peer_def reg)
qed

lemma is_ipv4_Some: "wf_buf b \<Longrightarrow> \<exists>v. is_ipv4 b = Some v \<and> (v \<longrightarrow> 20 \<le> Length b)"
proof (cases "20 \<le> Length b")
  case True
  moreover assume "wf_buf b"
  moreover have "content b \<noteq> []" using length_content [OF \<open>wf_buf b\<close>] True by auto
  ultimately show ?thesis by (simp add: is_ipv4_def index_def)
next
  case False
  then show ?thesis by (auto simp: is_ipv4_def)
qed

lemma ip_at_Some: "wf_buf b \<Longrightarrow> i + 4 \<le> Length b \<Longrightarrow> ip_at b i = Some (ip_string (take 4 (drop i (content b))))"
  by (simp add: ip_at_def slice_def)

lemma dispatch_ok:
  assumes ok: "server_ok sv" and wf: "wf_buf b" and r: "r < length (sv_store sv)"
  shows "\<exists>sv'. dispatch cfg now tr a b h r sv = Some sv' \<and> server_ok sv'"
proof -
  obtain v where v: "is_ipv4 b = Some v" "v \<longrightarrow> 20 \<le> Length b" using is_ipv4_Some [OF wf] by blast
  have tun: "server_ok (sv\<lparr>sv_tun := x\<rparr>) = server_ok sv" for sv x by (simp add: server_ok_def)
  consider "Type h = TypeData" | "Type h \<noteq> TypeData" "Type h = TypeKeepalive"
    | "Type h \<noteq> TypeData" "Type h \<noteq> TypeKeepalive" by blast
  then show ?thesis
  proof cases
    case 1
    obtain ip where "(if v then ip_at b 12 else Some (defaultPeerIP cfg)) = Some ip"
      using ip_at_Some [OF wf, of 12] v(2) by (cases v) auto
    then show ?thesis using 1 v(1) server_ok_learn [OF ok r] by (simp add: dispatch_def Let_def tun)
  next
    case 2
    have "server_ok (sv\<lparr>sv_store := (sv_store sv)[r := (sv_store sv ! r)\<lparr>LastActive := now\<rparr>]\<rparr>)"
      using ok mgr_ok_update [of "sv_mgr sv" "sv_store sv" "(sv_store sv ! r)\<lparr>LastActive := now\<rparr>" r] live_update
      by (simp add: server_ok_def)
    then show ?thesis using 2 r server_ok_learn by (simp add: dispatch_def)
  next
    case 3
    obtain mgr st where rem: "SessionManager_Remove (sv_mgr sv) (sv_store sv) (ReceiverIndex h) = (mgr, st)" by fastforce
    have "server_ok (sv\<lparr>sv_mgr := mgr, sv_store := st\<rparr>)"
      using ok mgr_ok_remove [OF _ rem] by (simp add: server_ok_def)
    then show ?thesis using 3 ok rem by (simp add: dispatch_def)
  qed
qed

text \<open>An accepted initiation registers a session and a route, and is answered.\<close>

lemma handle_initiation_run:
  assumes wf: "wf_buf b" and res: "fst (ConsumeInitiation P (NewResponderHandshake P (serverPriv cfg) (GenerateIndex idx)) (content b) eph) = Inr (respMsg, keys)"
    and len: "length respMsg = NoiseHandshakeRespSize" and s: "NewSession keys (Some a) CipherChaCha20Poly1305 now = Inr s"
  shows "handle_initiation P cfg idx eph now tr a b sv = Some ((learn_peer (sv\<lparr>sv_store := sv_store sv @ [s],
      sv_mgr := SessionManager_Register (sv_mgr sv) (sv_store sv @ [s]) (length (sv_store sv))\<rparr>)
      (defaultPeerIP cfg) (length (sv_store sv)) tr a now)\<lparr>sv_sent := sv_sent sv @ [(tr, a, respMsg)]\<rparr>)"
proof -
  have "Bytes (fill (Reset (pool_New GlobalPool)) respMsg) = Some respMsg"
    using fill_fits [of respMsg "Reset (pool_New GlobalPool)"] len
    by (simp add: pool_New_def GlobalPool_def NewPool_def DefaultBufferSize_def Reset_def)
  then show ?thesis using wf res s by (simp add: handle_initiation_def Let_def)
qed

lemma handle_initiation_ok:
  assumes A: "aead_ok P" and D: "dh_ok P" and ok: "server_ok sv" and wf: "wf_buf b"
  shows "\<exists>sv'. handle_initiation P cfg idx eph now tr a b sv = Some sv' \<and> server_ok sv' \<and> sv_tun sv' = sv_tun sv"
proof -
  define res where "res = fst (ConsumeInitiation P (NewResponderHandshake P (serverPriv cfg) (GenerateIndex idx)) (content b) eph)"
  note unf = handle_initiation_def [of P cfg idx eph now tr a b sv]
  show ?thesis
  proof (cases res)
    case (Inl e)
    then show ?thesis using ok wf by (simp add: unf res_def [symmetric] Let_def)
  next
    case (Inr mk)
    obtain respMsg keys where mk: "mk = (respMsg, keys)" by fastforce
    show ?thesis
    proof (cases "NewSession keys (Some a) CipherChaCha20Poly1305 now")
      case (Inl e)
      then show ?thesis using ok wf Inr mk by (simp add: unf res_def [symmetric] Let_def)
    next
      case (Inr s)
      let ?st = "sv_store sv @ [s]" and ?r = "length (sv_store sv)"
      let ?sv1 = "sv\<lparr>sv_store := ?st, sv_mgr := SessionManager_Register (sv_mgr sv) ?st ?r\<rparr>"
      have len: "length respMsg = NoiseHandshakeRespSize"
        using \<open>res = Inr mk\<close> mk ConsumeInitiation_respond respond_length [OF A D] unfolding res_def
        by (metis prod.collapse)
      have "server_ok ?sv1"
        using ok mgr_ok_register [of "sv_mgr sv" "sv_store sv" s] live_NewSession [OF Inr]
          table_ok_mono [of "sv_table sv" "sv_peers sv" ?r "Suc ?r"] by (simp add: server_ok_def)
      then have "server_ok (learn_peer ?sv1 (defaultPeerIP cfg) ?r tr a now)" by (intro server_ok_learn) simp_all
      then show ?thesis
        using handle_initiation_run [OF wf _ len Inr] \<open>res = Inr mk\<close> mk unfolding res_def by (simp add: server_ok_def)
    qed
  qed
qed

lemma handle_tunnel_ok:
  assumes ok: "server_ok sv" and wf: "wf_buf b"
  shows "\<exists>sv'. handle_tunnel P cfg now tr a b sv = Some sv' \<and> server_ok sv'"
  using wf
proof (cases rule: StripHeader_cases)
  case (1 e b1)
  then show ?thesis using ok by (simp add: handle_tunnel_def)
next
  case (2 h b1)
  show ?thesis
  proof (cases "SessionManager_Get (sv_mgr sv) (ReceiverIndex h)")
    case None
    then show ?thesis using ok 2 by (simp add: handle_tunnel_def)
  next
    case (Some r)
    then have r: "r < length (sv_store sv)" "live (sv_store sv ! r)"
      using ok by (auto simp: server_ok_def mgr_ok_def)
    then obtain c where c: "RecvCipher (sv_store sv ! r) = Some c" by (auto simp: live_def)
    from DecryptPacket_total [OF c 2(2), of P h now] obtain e s b2 where d:
      "DecryptPacket P (sv_store sv ! r) b1 h now = Some (e, s, b2)" "wf_buf b2" by blast
    let ?sv = "sv\<lparr>sv_store := (sv_store sv)[r := s]\<rparr>"
    have "live s" "LocalIndex s = LocalIndex (sv_store sv ! r)"
      using DecryptPacket_frame [OF d(1)] r(2) by (auto simp: live_def)
    then have ok': "server_ok ?sv" using ok mgr_ok_update by (simp add: server_ok_def)
    have unf: "handle_tunnel P cfg now tr a b sv =
        (if e \<noteq> None then Some ?sv else dispatch cfg now tr a b2 h r ?sv)"
      using 2 Some d by (simp add: handle_tunnel_def Let_def)
    show ?thesis unfolding unf using ok' dispatch_ok [OF ok' d(2), of r cfg now tr a h] r(1) by auto
  qed
qed

text \<open>A sequence of packets from any transports and addresses, with the random bytes drawn for each.\<close>

record arrival =
  arr_idx :: bytes
  arr_eph :: "bytes option"
  arr_now :: int
  arr_transport :: nat
  arr_addr :: net_addr
  arr_buf :: PacketBuffer

fun serve :: "prims \<Rightarrow> server_cfg \<Rightarrow> arrival list \<Rightarrow> server \<Rightarrow> server go" where
  "serve P cfg [] sv = Some sv"
| "serve P cfg (a # as) sv =
     Option.bind (handleIncomingPacket P cfg (arr_idx a) (arr_eph a) (arr_now a) (arr_transport a) (arr_addr a) (arr_buf a) sv)
       (serve P cfg as)"

lemma handleIncomingPacket_ok:
  assumes "aead_ok P" "dh_ok P" "server_ok sv" "wf_buf b"
  shows "\<exists>sv'. handleIncomingPacket P cfg idx eph now tr a b sv = Some sv' \<and> server_ok sv'"
  using handle_initiation_ok [OF assms, of cfg idx eph now tr a] handle_tunnel_ok [OF assms(3,4), of P cfg now tr a]
  by (auto simp: handleIncomingPacket_def)

lemma serve_ok:
  assumes "aead_ok P" "dh_ok P"
  shows "server_ok sv \<Longrightarrow> list_all (\<lambda>a. wf_buf (arr_buf a)) as \<Longrightarrow> \<exists>sv'. serve P cfg as sv = Some sv' \<and> server_ok sv'"
proof (induction as arbitrary: sv)
  case Nil
  then show ?case by simp
next
  case (Cons a as)
  have "wf_buf (arr_buf a)" using Cons.prems(2) by simp
  from handleIncomingPacket_ok [OF assms Cons.prems(1) this]
  obtain sv1 where "handleIncomingPacket P cfg (arr_idx a) (arr_eph a) (arr_now a) (arr_transport a) (arr_addr a) (arr_buf a) sv = Some sv1"
    "server_ok sv1" by blast
  then show ?case using Cons.IH [of sv1] Cons.prems(2) by simp
qed

text \<open>What a handled packet can add to the TUN device.\<close>

lemma dispatch_tun:
  "dispatch cfg now tr a b h r sv = Some sv' \<Longrightarrow>
     sv_tun sv' = sv_tun sv \<or> Type h = TypeData \<and> has_tun cfg \<and> sv_tun sv' = sv_tun sv @ [content b]"
  by (auto simp: dispatch_def Let_def bind_eq_Some_conv split: if_splits prod.splits)

lemma handle_tunnel_tun:
  assumes A: "aead_ok P" and ok: "server_ok sv" and wf: "wf_buf b"
    and run: "handle_tunnel P cfg now tr a b sv = Some sv'" and new: "sv_tun sv' \<noteq> sv_tun sv"
  shows "\<exists>h r c pt. SessionManager_Get (sv_mgr sv) (ReceiverIndex h) = Some r \<and> RecvCipher (sv_store sv ! r) = Some c
    \<and> Type h = TypeData \<and> fst (CheckAndSet (replay (sv_store sv ! r)) (Counter h))
    \<and> content b = header_bytes h @ seal P (suite c) (aead_key c) (nonce_of (Counter h)) pt (header_bytes h)
    \<and> sv_tun sv' = sv_tun sv @ [pt]"
  using wf
proof (cases rule: StripHeader_cases)
  case (1 e b1)
  then show ?thesis using run new by (simp add: handle_tunnel_def)
next
  case (2 h b1)
  obtain r where r: "SessionManager_Get (sv_mgr sv) (ReceiverIndex h) = Some r"
    using run new 2 by (cases "SessionManager_Get (sv_mgr sv) (ReceiverIndex h)") (auto simp: handle_tunnel_def)
  then obtain c where c: "RecvCipher (sv_store sv ! r) = Some c" "cipher_ok c"
    using ok by (auto simp: server_ok_def mgr_ok_def live_def)
  from DecryptPacket_total [OF c(1) 2(2), of P h now] obtain e s b2 where d:
    "DecryptPacket P (sv_store sv ! r) b1 h now = Some (e, s, b2)"
    "e = None \<longrightarrow> fst (CheckAndSet (replay (sv_store sv ! r)) (Counter h))" by blast
  have unf: "handle_tunnel P cfg now tr a b sv =
      (if e \<noteq> None then Some (sv\<lparr>sv_store := (sv_store sv)[r := s]\<rparr>)
       else dispatch cfg now tr a b2 h r (sv\<lparr>sv_store := (sv_store sv)[r := s]\<rparr>))"
    using 2 r d by (simp add: handle_tunnel_def Let_def)
  have e: "e = None" using run new unf by (auto split: if_splits)
  then have disp: "Type h = TypeData" "sv_tun sv' = sv_tun sv @ [content b2]"
    using dispatch_tun [of cfg now tr a b2 h r "sv\<lparr>sv_store := (sv_store sv)[r := s]\<rparr>" sv'] run new unf by auto
  have "content b1 = seal P (suite c) (aead_key c) (nonce_of (Counter h)) (content b2) (header_bytes h)"
    using DecryptPacket_authentic [OF A c 2(2)] d(1) e by blast
  moreover have "content b = header_bytes h @ content b1" using StripHeader_Inr(1) [OF wf] 2 by blast
  ultimately show ?thesis using r c(1) disp d(2) e by auto
qed

text \<open>A genuine packet of a registered session, up to the dispatch on its type.\<close>

lemma handle_tunnel_genuine:
  fixes now :: int
  assumes A: "aead_ok P" and r: "SessionManager_Get (sv_mgr sv) (ReceiverIndex h) = Some r"
    and c: "RecvCipher (sv_store sv ! r) = Some c" "cipher_ok c"
    and fresh: "fst (CheckAndSet (replay (sv_store sv ! r)) (Counter h))" and b: "carries P c h pt b"
  defines "s \<equiv> (sv_store sv ! r)\<lparr>replay := snd (CheckAndSet (replay (sv_store sv ! r)) (Counter h)), LastActive := now\<rparr>"
  shows "\<exists>b2. wf_buf b2 \<and> content b2 = pt
    \<and> handle_tunnel P cfg now tr a b sv = dispatch cfg now tr a b2 h r (sv\<lparr>sv_store := (sv_store sv)[r := s]\<rparr>)"
proof -
  from carries_strip [OF b] obtain b1 where b1: "StripHeader b = Some (Inr h, b1)" "wf_buf b1"
    "content b1 = seal P (suite c) (aead_key c) (nonce_of (Counter h)) pt (header_bytes h)" by blast
  from DecryptPacket_ok [OF A c b1(2) fresh b1(3), of now] obtain b2 where d:
    "DecryptPacket P (sv_store sv ! r) b1 h now = Some (None, s, b2)" "wf_buf b2" "content b2 = pt"
    unfolding s_def by blast
  have "handle_tunnel P cfg now tr a b sv = dispatch cfg now tr a b2 h r (sv\<lparr>sv_store := (sv_store sv)[r := s]\<rparr>)"
    using b1(1) r d(1) by (simp add: handle_tunnel_def Let_def)
  then show ?thesis using d by blast
qed

lemma is_ipv4_content:
  assumes "wf_buf b" "20 \<le> Length b"
  shows "is_ipv4 b = Some (drop_bit 4 (content b ! 0) = 4)"
proof -
  have "content b \<noteq> []" using assms by (intro content_nonempty) auto
  then show ?thesis using assms by (simp add: is_ipv4_def index_def)
qed

lemma registered:
  "server_ok sv \<Longrightarrow> SessionManager_Get (sv_mgr sv) i = Some r \<Longrightarrow>
     r < length (sv_store sv) \<and> (RecvCipher (sv_store sv ! r) = Some c \<longrightarrow> cipher_ok c)"
  by (fastforce simp: server_ok_def mgr_ok_def live_def)

lemma data_packet_run:
  assumes A: "aead_ok P" and ok: "server_ok sv" and tun: "has_tun cfg"
    and r: "SessionManager_Get (sv_mgr sv) (ReceiverIndex h) = Some r" "RecvCipher (sv_store sv ! r) = Some c"
    and fresh: "fst (CheckAndSet (replay (sv_store sv ! r)) (Counter h))" and b: "carries P c h pt b"
    and data: "Type h = TypeData" "20 \<le> length pt" "drop_bit 4 (pt ! 0) = 4" "Length b \<noteq> NoiseHandshakeInitSize"
    and reg: "PeerTable_Register (sv_table sv) (sv_peers sv) (ip_string (take 4 (drop 12 pt))) r tr a now = (pt', ps')"
  defines "s \<equiv> (sv_store sv ! r)\<lparr>replay := snd (CheckAndSet (replay (sv_store sv ! r)) (Counter h)), LastActive := now\<rparr>"
  shows "handleIncomingPacket P cfg idx eph now tr a b sv =
    Some (sv\<lparr>sv_store := (sv_store sv)[r := s], sv_table := pt', sv_peers := ps', sv_tun := sv_tun sv @ [pt]\<rparr>)"
proof -
  have c: "cipher_ok c" using registered [OF ok r(1), of c] r(2) by simp
  from handle_tunnel_genuine [OF A r c fresh b, of cfg now tr a] obtain b2 where h:
    "wf_buf b2" "content b2 = pt"
    "handle_tunnel P cfg now tr a b sv = dispatch cfg now tr a b2 h r (sv\<lparr>sv_store := (sv_store sv)[r := s]\<rparr>)"
    unfolding s_def by blast
  have "is_ipv4 b2 = Some True" "ip_at b2 12 = Some (ip_string (take 4 (drop 12 pt)))"
    using is_ipv4_content [OF h(1)] ip_at_Some [OF h(1), of 12] h(2) data(2,3) length_content [OF h(1)] by simp_all
  then show ?thesis
    using data(1,4) h(2,3) tun reg by (auto simp: handleIncomingPacket_def dispatch_def Let_def learn_peer_def)
qed

section \<open>Properties\<close>

definition demo_server :: server where
  "demo_server = (let s = demo_session 2 1 in
     \<lparr>sv_store = [s], sv_mgr = \<lparr>sessions = [(2, 0)]\<rparr>,
      sv_peers = [the_peer ''10.8.0.2'' 0 0 (UDPAddr ''c'') 0],
      sv_table = \<lparr>peersByIP = [(''10.8.0.2'', 0)], lastActive = Some 0\<rparr>, sv_sent = [], sv_tun = []\<rparr>)"

definition demo_cfg :: server_cfg where
  "demo_cfg = \<lparr>serverPriv = replicate 32 3, has_tun = True, defaultPeerIP = ''10.8.0.2''\<rparr>"

lemma demo_server_ok: "server_ok demo_server"
  by (auto simp: server_ok_def demo_server_def mgr_ok_def table_ok_def SessionManager_Get_def live_def
      demo_session_def demo_cipher_def cipher_ok_def Let_def split: if_splits)

lemma demo_server_fields:
  "SessionManager_Get (sv_mgr demo_server) 2 = Some 0" "sv_store demo_server ! 0 = demo_session 2 1"
  "PeerTable_Lookup (sv_table demo_server) [] = Some 0" "peer_Session (sv_peers demo_server ! 0) = 0"
  "sv_tun demo_server = []" "sv_sent demo_server = []"
  by (simp_all add: demo_server_def SessionManager_Get_def PeerTable_Lookup_def Let_def)

text \<open>A genuine packet of the demonstration session: a header and a plaintext.\<close>

definition demo_header :: "MessageType \<Rightarrow> Header" where
  "demo_header ty = \<lparr>Type = ty, Flags = 0, ReceiverIndex = 2, Counter = 1\<rparr>"

definition demo_wire :: "Header \<times> bytes \<Rightarrow> PacketBuffer" where
  "demo_wire hp = (let w = header_bytes (fst hp) @
       seal demo_prims (suite demo_cipher) (aead_key demo_cipher) (nonce_of (Counter (fst hp))) (snd hp) (header_bytes (fst hp))
     in \<lparr>Data = w, Length = length w, Offset = 0\<rparr>)"

definition demo_ip :: bytes where "demo_ip = 69 # replicate 11 0 @ [10, 8, 0, 9] @ replicate 4 1"
definition demo_data :: "Header \<times> bytes" where "demo_data = (demo_header TypeData, demo_ip)"

lemma demo_wire_carries: "carries demo_prims demo_cipher (fst hp) (snd hp) (demo_wire hp)"
  by (simp add: carries_def demo_wire_def Let_def wf_buf_def content_def)

lemma demo_wire_length: "Length (demo_wire hp) = 30 + length (snd hp)"
  using aead_lengthD [OF demo_aead_ok, of "aead_key demo_cipher"]
  by (simp add: demo_wire_def Let_def demo_cipher_def)

lemma demo_fresh: "fst (CheckAndSet new_ReplayWindow 1)"
  by code_simp

lemma demo_packet_hyps:
  "has_tun demo_cfg" "SessionManager_Get (sv_mgr demo_server) (ReceiverIndex (fst demo_data)) = Some 0"
  "RecvCipher (sv_store demo_server ! 0) = Some demo_cipher"
  "fst (CheckAndSet (replay (sv_store demo_server ! 0)) (Counter (fst demo_data)))"
  "Type (fst demo_data) = TypeData" "20 \<le> length (snd demo_data)" "drop_bit 4 (snd demo_data ! 0) = 4"
  "Length (demo_wire demo_data) \<noteq> NoiseHandshakeInitSize" "snd demo_data = demo_ip"
  using demo_fresh
  by (simp_all add: demo_cfg_def demo_server_fields demo_fields demo_data_def demo_header_def demo_ip_def demo_wire_length)

lemma demo_data_run:
  obtains sv' where "handleIncomingPacket demo_prims demo_cfg [] None 0 0 (UDPAddr ''c'') (demo_wire demo_data) demo_server = Some sv'"
    "sv_tun sv' \<noteq> sv_tun demo_server"
  using data_packet_run [OF demo_aead_ok demo_server_ok demo_packet_hyps(1-4) demo_wire_carries demo_packet_hyps(5-8) prod.collapse [symmetric],
      of "[]" None] by force



text \<open>
  C9: Only authentic packets reach the TUN device. When handling a packet adds anything to what the
  device receives, the packet was a data packet of a registered session, fresh for its replay
  window, sealed under its receiving key with its own header, and what the device receives is
  exactly the sealed plaintext.
\<close>

theorem tun_only_authentic:
  assumes A: "aead_ok P" and D: "dh_ok P" and ok: "server_ok sv" and wf: "wf_buf b"
    and run: "handleIncomingPacket P cfg idx eph now tr a b sv = Some sv'" and new: "sv_tun sv' \<noteq> sv_tun sv"
  shows "\<exists>h r c pt. SessionManager_Get (sv_mgr sv) (ReceiverIndex h) = Some r \<and> RecvCipher (sv_store sv ! r) = Some c
    \<and> Type h = TypeData \<and> fst (CheckAndSet (replay (sv_store sv ! r)) (Counter h))
    \<and> content b = header_bytes h @ seal P (suite c) (aead_key c) (nonce_of (Counter h)) pt (header_bytes h)
    \<and> sv_tun sv' = sv_tun sv @ [pt]"
proof -
  have "Length b \<noteq> NoiseHandshakeInitSize"
    using run new handle_initiation_ok [OF A D ok wf, of cfg idx eph now tr a] by (auto simp: handleIncomingPacket_def)
  then show ?thesis using handle_tunnel_tun [OF A ok wf _ new] run by (simp add: handleIncomingPacket_def)
qed

theorem tun_only_authentic_witness:
  "\<exists>sv'. handleIncomingPacket demo_prims demo_cfg [] None 0 0 (UDPAddr ''c'') (demo_wire demo_data) demo_server = Some sv'
    \<and> sv_tun sv' \<noteq> [] \<and> (\<exists>pt. sv_tun sv' = [pt])"
proof -
  obtain sv' where "handleIncomingPacket demo_prims demo_cfg [] None 0 0 (UDPAddr ''c'') (demo_wire demo_data) demo_server = Some sv'"
    "sv_tun sv' \<noteq> sv_tun demo_server" by (rule demo_data_run)
  moreover have "wf_buf (demo_wire demo_data)" using demo_wire_carries [of demo_data] by (simp add: carries_def)
  ultimately show ?thesis
    using tun_only_authentic [OF demo_aead_ok demo_dh_ok demo_server_ok, of "demo_wire demo_data" demo_cfg "[]" None 0 0 "UDPAddr ''c''" sv']
    by (auto simp: demo_server_fields)
qed

text \<open>
  Data delivery and route learning. A fresh genuine data packet with an IPv4 payload is written to
  the TUN device unchanged, and afterwards traffic for its source address is routed to the session,
  transport and network address it came from, while the routes of all other addresses stay.
\<close>

lemma data_packet_routed:
  assumes A: "aead_ok P" and ok: "server_ok sv" and tun: "has_tun cfg"
    and r: "SessionManager_Get (sv_mgr sv) (ReceiverIndex h) = Some r" "RecvCipher (sv_store sv ! r) = Some c"
    and fresh: "fst (CheckAndSet (replay (sv_store sv ! r)) (Counter h))" and b: "carries P c h pt b"
    and data: "Type h = TypeData" "20 \<le> length pt" "drop_bit 4 (pt ! 0) = 4" "Length b \<noteq> NoiseHandshakeInitSize"
  shows "\<exists>sv' p. handleIncomingPacket P cfg idx eph now tr a b sv = Some sv' \<and> sv_tun sv' = sv_tun sv @ [pt]
    \<and> PeerTable_Lookup (sv_table sv') (ip_string (take 4 (drop 12 pt))) = Some p
    \<and> sv_peers sv' ! p = the_peer (ip_string (take 4 (drop 12 pt))) r tr a now
    \<and> (jp \<noteq> ip_string (take 4 (drop 12 pt)) \<longrightarrow> map_of (peersByIP (sv_table sv)) jp = Some q \<longrightarrow>
         PeerTable_Lookup (sv_table sv') jp = Some q \<and> sv_peers sv' ! q = sv_peers sv ! q)"
proof -
  let ?ip = "ip_string (take 4 (drop 12 pt))"
  obtain pt' ps' where reg: "PeerTable_Register (sv_table sv) (sv_peers sv) ?ip r tr a now = (pt', ps')" by fastforce
  have table: "table_ok (sv_table sv) (sv_peers sv) (length (sv_store sv))" using ok by (simp add: server_ok_def)
  from data_packet_run [OF A ok tun r fresh b data reg, of idx eph] obtain s where run:
    "handleIncomingPacket P cfg idx eph now tr a b sv =
      Some (sv\<lparr>sv_store := (sv_store sv)[r := s], sv_table := pt', sv_peers := ps', sv_tun := sv_tun sv @ [pt]\<rparr>)" by blast
  from Register_found [OF table reg] obtain p where p: "map_of (peersByIP pt') ?ip = Some p"
    "ps' ! p = the_peer ?ip r tr a now" by blast
  have "jp \<noteq> ?ip \<longrightarrow> map_of (peersByIP (sv_table sv)) jp = Some q \<longrightarrow>
      PeerTable_Lookup pt' jp = Some q \<and> ps' ! q = sv_peers sv ! q"
    using Register_other(1) [OF table reg, of jp] Register_other(2) [OF table reg, of jp q]
    by (simp add: PeerTable_Lookup_def)
  then show ?thesis using run p
    by (intro exI [of _ "sv\<lparr>sv_store := (sv_store sv)[r := s], sv_table := pt', sv_peers := ps', sv_tun := sv_tun sv @ [pt]\<rparr>"]
        exI [of _ p]) (simp add: PeerTable_Lookup_def)
qed

text \<open>One round of the egress loop for a packet with a route.\<close>

lemma egress_run:
  fixes now :: int
  assumes A: "aead_ok P" and room: "has_room b"
    and ip: "ip = (if 20 \<le> Length b \<and> drop_bit 4 (content b ! 0) = 4 then ip_string (take 4 (drop 16 (content b))) else [])"
    and p: "PeerTable_Lookup (sv_table sv) ip = Some p" "peer_Session (sv_peers sv ! p) = r"
    and c: "SendCipher (sv_store sv ! r) = Some c" "cipher_ok c"
  defines "s \<equiv> (sv_store sv ! r)\<lparr>sendCounter := sendCounter (sv_store sv ! r) + 1, LastActive := now\<rparr>"
  shows "\<exists>w. carries P c (out_header (sv_store sv ! r) TypeData 0) (content b) w
    \<and> egress_step P now b sv = Some (sv\<lparr>sv_store := (sv_store sv)[r := s],
         sv_sent := sv_sent sv @ [(peer_Transport (sv_peers sv ! p), peer_RemoteAddr (sv_peers sv ! p), content w)]\<rparr>)"
proof -
  have wf: "wf_buf b" using room by (rule has_room_wf)
  from EncryptPacket_ok [OF A c room, of TypeData 0 now] obtain w where w:
    "EncryptPacket P (sv_store sv ! r) b TypeData 0 now = Some (None, s, w)" "wf_buf w"
    "carries P c (out_header (sv_store sv ! r) TypeData 0) (content b) w" unfolding s_def by (auto simp: carries_def)
  obtain v where v: "is_ipv4 b = Some v" "(if v then ip_at b 16 else Some []) = Some ip"
    using is_ipv4_content [OF wf] ip_at_Some [OF wf, of 16] length_content [OF wf] ip
    by (cases "20 \<le> Length b") (auto simp: is_ipv4_def)
  show ?thesis using v w p by (auto simp: egress_step_def Let_def)
qed

text \<open>
  Return traffic. A packet read from the TUN device that has room for tag and header, and whose
  route leads to a peer with a live session, is sent exactly once, over that peer's transport to its
  network address, and what is sent is the packet sealed under that peer's session with the
  next counter.
\<close>

lemma egress_sends_to_peer:
  assumes A: "aead_ok P" and room: "has_room b"
    and ip: "ip = (if 20 \<le> Length b \<and> drop_bit 4 (content b ! 0) = 4 then ip_string (take 4 (drop 16 (content b))) else [])"
    and p: "PeerTable_Lookup (sv_table sv) ip = Some p" "peer_Session (sv_peers sv ! p) = r"
    and c: "SendCipher (sv_store sv ! r) = Some c" "cipher_ok c"
  shows "\<exists>sv' w. egress_step P now b sv = Some sv'
    \<and> sv_sent sv' = sv_sent sv @ [(peer_Transport (sv_peers sv ! p), peer_RemoteAddr (sv_peers sv ! p), content w)]
    \<and> carries P c (out_header (sv_store sv ! r) TypeData 0) (content b) w"
  using egress_run [OF A room ip p c, of now] by fastforce

text \<open>
  C35: Data packets of 78 payload bytes are lost. The server takes every message of exactly 108 bytes for
  a handshake initiation, and 108 bytes is also what \<open>EncryptPacket\<close> makes of a 78-byte packet: it
  is never written to the TUN device.
\<close>

theorem data_of_initiation_size_lost:
  assumes A: "aead_ok P" and D: "dh_ok P" and ok: "server_ok sv"
    and c: "SendCipher s = Some c" "cipher_ok c" and room: "has_room b" and len: "Length b = 78"
  shows "\<exists>s' w sv'. EncryptPacket P s b TypeData 0 t = Some (None, s', w)
    \<and> handleIncomingPacket P cfg idx eph now tr a w sv = Some sv' \<and> sv_tun sv' = sv_tun sv"
proof -
  from EncryptPacket_ok [OF A c room, of TypeData 0 t] obtain w s' where w:
    "EncryptPacket P s b TypeData 0 t = Some (None, s', w)" "wf_buf w" "Length w = Length b + TagSize + HeaderSize" by blast
  from handle_initiation_ok [OF A D ok w(2), of cfg idx eph now tr a] obtain sv' where
    "handle_initiation P cfg idx eph now tr a w sv = Some sv'" "sv_tun sv' = sv_tun sv" by blast
  then show ?thesis using w len by (simp add: handleIncomingPacket_def)
qed

theorem data_of_initiation_size_lost_witness:
  "\<exists>s' w sv'. EncryptPacket demo_prims (demo_session 1 2) \<lparr>Data = replicate 200 1, Length = 78, Offset = 0\<rparr> TypeData 0 0 = Some (None, s', w)
    \<and> handleIncomingPacket demo_prims demo_cfg [] None 0 0 (UDPAddr ''c'') w demo_server = Some sv' \<and> sv_tun sv' = []"
  using data_of_initiation_size_lost [OF demo_aead_ok demo_dh_ok demo_server_ok demo_fields(3,5),
      of "\<lparr>Data = replicate 200 1, Length = 78, Offset = 0\<rparr>" 1 2 0 demo_cfg "[]" None 0 0 "UDPAddr ''c''"]
  by (simp add: has_room_def demo_server_fields)



end
