(* ===== verification/Ant_Transport.thy ===== *)
theory Ant_Transport
  imports Ant_Session Ant_Strings
begin

text \<open>
  \<open>pkg/transport\<close>: the TLS transport (\<open>tls.go\<close>) with its two-byte frame length and the
  decoy page for probes, the UDP transport (\<open>udp.go\<close>) and the WebSocket transport
  (\<open>websocket.go\<close>).

  A reading goroutine is a function of everything that arrives on its connection until the
  connection ends; \<open>select\<close> statements with more than one ready case take the choice as an
  argument. Connections are shared by pointer between the table and the reading goroutine: a pointer
  is an index into a list of connections. Writes to a connection that is up append to what the
  peer will read, and fail otherwise. The channel \<open>incoming\<close> is the list of queued packets;
  a goroutine that would block on the full channel has not taken its step yet.
\<close>

datatype Mode = ModeUDP | ModeTLS | ModeWebSocket

fun addr_string :: "net_addr \<Rightarrow> string" where
  "addr_string (UDPAddr s) = s"
| "addr_string (TCPAddr s) = s"
| "addr_string (WSAddr s) = s"

record incomingPacket =
  pkt_addr :: net_addr
  pkt_data :: bytes

text \<open>\<open>io.ReadFull(conn, make([]byte, n))\<close> on what is left of the stream.\<close>

definition read_full :: "nat \<Rightarrow> bytes \<Rightarrow> (bytes \<times> bytes) option" where
  "read_full n s = (if length s < n then None else Some (take n s, drop n s))"

section \<open>TLS: connections and table\<close>

type_synonym cref = nat

record Conn =
  conn_remote :: net_addr
  conn_written :: bytes
  conn_up :: bool

definition conn_write :: "Conn \<Rightarrow> bytes \<Rightarrow> go_error option \<times> Conn" where
  "conn_write c bs =
     (if conn_up c then (None, c\<lparr>conn_written := conn_written c @ bs\<rparr>) else (Some (ErrOS ''write''), c))"

definition conn_close :: "Conn \<Rightarrow> Conn" where
  "conn_close c = c\<lparr>conn_up := False\<rparr>"

record TLSTransport =
  isServer :: bool
  clientConn :: "cref option"
  connections :: "(string \<times> cref) list"
  incoming :: "incomingPacket list"
  closed :: bool

definition DecoyHTML :: string where
  "DecoyHTML = ''<!DOCTYPE html><html><head><title>System Status</title></head><body><h1>Relay Service</h1><p>Node operational.</p></body></html>'' @ [CHR 0x0D, CHR 0x0A]"

section \<open>TLS: reading\<close>

text \<open>
  The loop both reading goroutines share. \<open>stop k\<close> says whether the \<open>select\<close> after the
  \<open>k\<close>-th frame takes the closed channel.
\<close>

function frame_loop :: "(nat \<Rightarrow> bool) \<Rightarrow> nat \<Rightarrow> bytes \<Rightarrow> bytes list" where
  "frame_loop stop k s =
     (case read_full 2 s of
        None \<Rightarrow> []
      | Some (lenBuf, s1) \<Rightarrow>
          let len = unat (Uint16 lenBuf) in
          if len = 0 \<or> DefaultBufferSize < len then []
          else case read_full len s1 of
                 None \<Rightarrow> []
               | Some (data, s2) \<Rightarrow> if stop k then [] else data # frame_loop stop (Suc k) s2)"
  by pat_completeness auto
termination
  by (relation "measure (\<lambda>(_, _, s). length s)") (auto simp: read_full_def split: if_splits)

declare frame_loop.simps [simp del]

definition clientReadLoop :: "TLSTransport \<Rightarrow> net_addr \<Rightarrow> (nat \<Rightarrow> bool) \<Rightarrow> bytes \<Rightarrow> TLSTransport" where
  "clientReadLoop t raddr stop stream =
     t\<lparr>incoming := incoming t @ map (\<lambda>d. \<lparr>pkt_addr = raddr, pkt_data = d\<rparr>) (frame_loop stop 0 stream)\<rparr>"

text \<open>\<open>"GE"\<close>, \<open>"PO"\<close>, \<open>"HE"\<close>: the first two bytes of an HTTP request.\<close>

definition is_probe :: "bytes \<Rightarrow> bool" where
  "is_probe header \<longleftrightarrow> header = [0x47, 0x45] \<or> header = [0x50, 0x4F] \<or> header = [0x48, 0x45]"

definition crlf :: string where "crlf = [CHR 0x0D, CHR 0x0A]"

definition decoy_response :: bytes where
  "decoy_response = map of_char
     (''HTTP/1.1 200 OK'' @ crlf @ ''Content-Type: text/html'' @ crlf @ ''Content-Length: ''
      @ dec_digits (length DecoyHTML) @ crlf @ ''Connection: close'' @ crlf @ crlf @ DecoyHTML)"

text \<open>The packet whose length the sniffed header is; a bad length is ignored, and reading goes on behind it.\<close>

definition initial_packet :: "bytes \<Rightarrow> bytes \<Rightarrow> bytes list \<times> bytes" where
  "initial_packet header s =
     (let pktLen = unat (Uint16 header) in
      if 0 < pktLen \<and> pktLen \<le> DefaultBufferSize
      then case read_full pktLen s of Some (p, s') \<Rightarrow> ([p], s') | None \<Rightarrow> ([], [])
      else ([], s))"

text \<open>The deferred call: the entry of the table goes, the connection is closed.\<close>

definition unregister :: "TLSTransport \<Rightarrow> Conn list \<Rightarrow> cref \<Rightarrow> TLSTransport \<times> Conn list" where
  "unregister t cs c =
     (t\<lparr>connections := AList.delete (addr_string (conn_remote (cs ! c))) (connections t)\<rparr>,
      cs[c := conn_close (cs ! c)])"

definition register :: "TLSTransport \<Rightarrow> Conn list \<Rightarrow> cref \<Rightarrow> TLSTransport" where
  "register t cs c = t\<lparr>connections := AList.update (addr_string (conn_remote (cs ! c))) c (connections t)\<rparr>"

text \<open>A whole run of the goroutine of one accepted connection, on everything it receives.\<close>

definition handleServerConn ::
  "TLSTransport \<Rightarrow> Conn list \<Rightarrow> cref \<Rightarrow> bytes \<Rightarrow> (nat \<Rightarrow> bool) \<Rightarrow> TLSTransport \<times> Conn list" where
  "handleServerConn t cs c stream stop =
     (case read_full 2 stream of
        None \<Rightarrow> (t, cs[c := conn_close (cs ! c)])
      | Some (header, s) \<Rightarrow>
          if is_probe header
          then (t, cs[c := conn_close (snd (conn_write (cs ! c) decoy_response))])
          else
            let t1 = register t cs c;
                (ps, s1) = initial_packet header s;
                packets = ps @ frame_loop stop 0 s1;
                t2 = t1\<lparr>incoming := incoming t1 @
                        map (\<lambda>d. \<lparr>pkt_addr = conn_remote (cs ! c), pkt_data = d\<rparr>) packets\<rparr>
            in unregister t2 cs c)"

section \<open>TLS: sending, receiving, closing\<close>

text \<open>The two writes of \<open>Send\<close>; the payload is read from the buffer only after the first write.\<close>

definition write_frame ::
  "Conn list \<Rightarrow> cref \<Rightarrow> PacketBuffer \<Rightarrow> (go_error option \<times> Conn list) go" where
  "write_frame cs c buf =
     (let lenBuf = PutUint16 (of_nat (Length buf)) in
      case conn_write (cs ! c) lenBuf of
        (Some e, c1) \<Rightarrow> Some (Some e, cs[c := c1])
      | (None, c1) \<Rightarrow> do {
          payload \<leftarrow> Bytes buf;
          let (e, c2) = conn_write c1 payload;
          Some (e, cs[c := c2])
        })"

definition TLS_Send ::
  "TLSTransport \<Rightarrow> Conn list \<Rightarrow> PacketBuffer \<Rightarrow> net_addr \<Rightarrow> (go_error option \<times> Conn list) go" where
  "TLS_Send t cs buf target =
     (if \<not> isServer t then
        (case clientConn t of
           None \<Rightarrow> Some (Some ErrClientDisconnected, cs)
         | Some c \<Rightarrow> write_frame cs c buf)
      else
        (case map_of (connections t) (addr_string target) of
           None \<Rightarrow> Some (Some (ErrNoConnection (addr_string target)), cs)
         | Some c \<Rightarrow> write_frame cs c buf))"

text \<open>
  \<open>Receive\<close>: \<open>None\<close> when the call blocks (nothing queued, not closed). When both cases are
  ready \<open>prefer_closed\<close> is the choice. \<open>incoming\<close> is never closed by the package.
\<close>

definition chan_receive ::
  "bool \<Rightarrow> incomingPacket list \<Rightarrow> bool \<Rightarrow> PacketBuffer
     \<Rightarrow> ((go_error + net_addr) \<times> incomingPacket list \<times> PacketBuffer) option" where
  "chan_receive closed' queue prefer_closed buf =
     (if closed' \<and> (prefer_closed \<or> queue = []) then Some (Inl ErrTransportClosed, queue, buf)
      else case queue of
             [] \<Rightarrow> None
           | pkt # rest \<Rightarrow> Some (Inr (pkt_addr pkt), rest, fill (Reset buf) (pkt_data pkt)))"

definition TLS_Receive ::
  "TLSTransport \<Rightarrow> bool \<Rightarrow> PacketBuffer \<Rightarrow> ((go_error + net_addr) \<times> TLSTransport \<times> PacketBuffer) option" where
  "TLS_Receive t prefer_closed buf =
     map_option (\<lambda>(r, q, b). (r, t\<lparr>incoming := q\<rparr>, b)) (chan_receive (closed t) (incoming t) prefer_closed buf)"

text \<open>\<open>for _, c := range t.connections { c.Close() }\<close>\<close>

primrec close_all :: "(string \<times> cref) list \<Rightarrow> Conn list \<Rightarrow> Conn list" where
  "close_all [] cs = cs"
| "close_all (e # es) cs = close_all es (cs[snd e := conn_close (cs ! snd e)])"

definition TLS_Close :: "TLSTransport \<Rightarrow> Conn list \<Rightarrow> TLSTransport \<times> Conn list" where
  "TLS_Close t cs =
     (if closed t then (t, cs)
      else let t1 = t\<lparr>closed := True\<rparr> in
           if isServer t1 then (t1, close_all (connections t1) cs)
           else case clientConn t1 of None \<Rightarrow> (t1, cs) | Some c \<Rightarrow> (t1, cs[c := conn_close (cs ! c)]))"

section \<open>UDP\<close>

text \<open>
  The kernel's answers are arguments: \<open>resolve\<close> is \<open>net.ResolveUDPAddr\<close>, \<open>wr\<close> the
  result of \<open>WriteToUDP\<close> (bytes written), \<open>rd\<close> the datagram \<open>ReadFromUDP\<close> finds, of which
  it copies as much as the slice holds.
\<close>

record UDPTransport =
  udp_sent :: "(string \<times> bytes) list"

definition UDP_Send ::
  "(string \<Rightarrow> go_error + string) \<Rightarrow> (string \<Rightarrow> bytes \<Rightarrow> go_error + nat) \<Rightarrow> UDPTransport \<Rightarrow> PacketBuffer \<Rightarrow> net_addr
     \<Rightarrow> (go_error option \<times> UDPTransport) go" where
  "UDP_Send resolve wr u buf target =
     (case (case target of UDPAddr a \<Rightarrow> Inr a | _ \<Rightarrow> resolve (addr_string target)) of
        Inl e \<Rightarrow> Some (Some e, u)
      | Inr udpAddr \<Rightarrow> do {
          payload \<leftarrow> Bytes buf;
          (case wr udpAddr payload of
             Inl e \<Rightarrow> Some (Some e, u)
           | Inr n \<Rightarrow>
               let u1 = u\<lparr>udp_sent := udp_sent u @ [(udpAddr, payload)]\<rparr>
               in if n \<noteq> Length buf then Some (Some ErrShortWrite, u1) else Some (None, u1))
        })"

definition UDP_Receive ::
  "go_error + (bytes \<times> net_addr) \<Rightarrow> PacketBuffer \<Rightarrow> (go_error + net_addr) \<times> PacketBuffer" where
  "UDP_Receive rd buf =
     (let buf0 = Reset buf in
      case rd of
        Inl e \<Rightarrow> (Inl e, buf0)
      | Inr (dgram, raddr) \<Rightarrow>
          let n = min (length dgram) (length (Data buf0))
          in (Inr raddr, buf0\<lparr>Data := go_copy (Data buf0) dgram, Length := n\<rparr>))"

section \<open>WebSocket\<close>

text \<open>
  \<open>golang.org/x/net/websocket\<close> is a parameter: \<open>msg_send\<close> is \<open>websocket.Message.Send\<close>
  on a connection, and a reading loop is given the messages \<open>websocket.Message.Receive\<close> returns
  before its error. \<open>ws_request_addr\<close> is \<open>ws.Request().RemoteAddr\<close> and
  \<open>ws_remote\<close> what \<open>ws.RemoteAddr()\<close> returns.
\<close>

record 'c WSTransport =
  ws_isServer :: bool
  ws_clientConn :: "'c option"
  ws_connections :: "(string \<times> 'c) list"
  ws_incoming :: "incomingPacket list"
  ws_closed :: bool

fun ws_loop :: "(nat \<Rightarrow> bool) \<Rightarrow> nat \<Rightarrow> bytes list \<Rightarrow> bytes list" where
  "ws_loop stop k [] = []"
| "ws_loop stop k (m # ms) =
     (if length m = 0 then ws_loop stop k ms
      else if stop k then [] else m # ws_loop stop (Suc k) ms)"

definition ws_clientReadLoop ::
  "'c WSTransport \<Rightarrow> net_addr \<Rightarrow> (nat \<Rightarrow> bool) \<Rightarrow> bytes list \<Rightarrow> 'c WSTransport" where
  "ws_clientReadLoop t ws_remote stop msgs =
     t\<lparr>ws_incoming := ws_incoming t @ map (\<lambda>d. \<lparr>pkt_addr = ws_remote, pkt_data = d\<rparr>) (ws_loop stop 0 msgs)\<rparr>"

text \<open>The handler of an accepted connection, until just before its deferred cleanup.\<close>

definition handleWSConn_open ::
  "'c WSTransport \<Rightarrow> 'c \<Rightarrow> string \<Rightarrow> net_addr \<Rightarrow> (nat \<Rightarrow> bool) \<Rightarrow> bytes list \<Rightarrow> 'c WSTransport" where
  "handleWSConn_open t ws ws_request_addr ws_remote stop msgs =
     (let t1 = t\<lparr>ws_connections := AList.update ws_request_addr ws (ws_connections t)\<rparr>
      in t1\<lparr>ws_incoming := ws_incoming t1 @ map (\<lambda>d. \<lparr>pkt_addr = ws_remote, pkt_data = d\<rparr>) (ws_loop stop 0 msgs)\<rparr>)"

definition handleWSConn ::
  "'c WSTransport \<Rightarrow> 'c \<Rightarrow> string \<Rightarrow> net_addr \<Rightarrow> (nat \<Rightarrow> bool) \<Rightarrow> bytes list \<Rightarrow> 'c WSTransport" where
  "handleWSConn t ws ws_request_addr ws_remote stop msgs =
     (let t1 = handleWSConn_open t ws ws_request_addr ws_remote stop msgs
      in t1\<lparr>ws_connections := AList.delete ws_request_addr (ws_connections t1)\<rparr>)"

definition WS_Send ::
  "('c \<Rightarrow> bytes \<Rightarrow> go_error option) \<Rightarrow> 'c WSTransport \<Rightarrow> PacketBuffer \<Rightarrow> net_addr
     \<Rightarrow> (go_error option \<times> ('c \<times> bytes) option) go" where
  "WS_Send msg_send t buf target =
     (if \<not> ws_isServer t then
        (case ws_clientConn t of
           None \<Rightarrow> Some (Some ErrClientDisconnected, None)
         | Some c \<Rightarrow> do { payload \<leftarrow> Bytes buf; Some (msg_send c payload, Some (c, payload)) })
      else
        (case map_of (ws_connections t) (addr_string target) of
           None \<Rightarrow> Some (Some (ErrNoConnection (addr_string target)), None)
         | Some c \<Rightarrow> do { payload \<leftarrow> Bytes buf; Some (msg_send c payload, Some (c, payload)) }))"

definition WS_Receive ::
  "'c WSTransport \<Rightarrow> bool \<Rightarrow> PacketBuffer \<Rightarrow> ((go_error + net_addr) \<times> 'c WSTransport \<times> PacketBuffer) option" where
  "WS_Receive t prefer_closed buf =
     map_option (\<lambda>(r, q, b). (r, t\<lparr>ws_incoming := q\<rparr>, b))
       (chan_receive (ws_closed t) (ws_incoming t) prefer_closed buf)"

text \<open>\<open>Close\<close> returns the connections it calls \<open>Close\<close> on.\<close>

definition WS_Close :: "'c WSTransport \<Rightarrow> 'c list \<times> 'c WSTransport" where
  "WS_Close t =
     (if ws_closed t then ([], t)
      else let t1 = t\<lparr>ws_closed := True\<rparr> in
           if ws_isServer t1 then (map snd (ws_connections t1), t1)
           else case ws_clientConn t1 of None \<Rightarrow> ([], t1) | Some c \<Rightarrow> ([c], t1))"

section \<open>Interface of a framing\<close>

text \<open>
  What the packet loops rely on of every transport: a packet put on the wire is read back as one
  packet, in front of whatever follows.
\<close>

locale framing =
  fixes to_wire :: "bytes \<Rightarrow> 'w list"
    and from_wire :: "'w list \<Rightarrow> bytes list"
    and sendable :: "bytes \<Rightarrow> bool"
  assumes wire_end: "from_wire [] = []"
    and wire_packet: "sendable p \<Longrightarrow> from_wire (to_wire p @ ws) = p # from_wire ws"
begin

lemma stream_append:
  "list_all sendable ps \<Longrightarrow> from_wire (concat (map to_wire ps) @ ws) = ps @ from_wire ws"
  by (induction ps) (simp_all add: wire_packet)

lemma stream: "list_all sendable ps \<Longrightarrow> from_wire (concat (map to_wire ps)) = ps"
  using stream_append [of ps "[]"] by (simp add: wire_end)

end

definition frame_ok :: "bytes \<Rightarrow> bool" where
  "frame_ok p \<longleftrightarrow> 0 < length p \<and> length p \<le> DefaultBufferSize"

definition tls_frame :: "bytes \<Rightarrow> bytes" where
  "tls_frame p = PutUint16 (of_nat (length p)) @ p"

lemma read_full_append [simp]: "length xs = n \<Longrightarrow> read_full n (xs @ ys) = Some (xs, ys)"
  by (simp add: read_full_def)

lemma unat_frame_len: "frame_ok p \<Longrightarrow> unat (of_nat (length p) :: u16) = length p"
  by (simp add: frame_ok_def DefaultBufferSize_def unat_of_nat take_bit_nat_eq_self)

text \<open>One round of the loop.\<close>

definition next_frame :: "bytes \<Rightarrow> (bytes \<times> bytes) option" where
  "next_frame s = Option.bind (read_full 2 s) (\<lambda>(lenBuf, s1).
     if unat (Uint16 lenBuf) = 0 \<or> DefaultBufferSize < unat (Uint16 lenBuf) then None
     else read_full (unat (Uint16 lenBuf)) s1)"

lemma frame_loop_unfold:
  "frame_loop stop k s = (case next_frame s of None \<Rightarrow> []
     | Some (d, s2) \<Rightarrow> if stop k then [] else d # frame_loop stop (Suc k) s2)"
  by (subst frame_loop.simps) (auto simp: next_frame_def Let_def split: option.splits)

lemma next_frame_Some: "next_frame s = Some (d, s2) \<Longrightarrow> frame_ok d \<and> length s2 < length s"
  by (auto simp: next_frame_def read_full_def frame_ok_def bind_eq_Some_conv split: if_splits)

lemma next_frame_frame: "frame_ok p \<Longrightarrow> next_frame (tls_frame p @ s) = Some (p, s)"
  using unat_frame_len [of p] by (simp add: next_frame_def tls_frame_def frame_ok_def)

lemma frame_loop_nil: "frame_loop stop k [] = []"
  by (subst frame_loop_unfold) (simp add: next_frame_def read_full_def)

lemma frame_loop_never: "frame_loop (\<lambda>_. False) k s = frame_loop (\<lambda>_. False) j s"
proof (induction "length s" arbitrary: s k j rule: less_induct)
  case less
  show ?case
  proof (cases "next_frame s")
    case None
    then show ?thesis by (simp add: frame_loop_unfold [of _ _ s])
  next
    case (Some r)
    obtain d s2 where r: "r = (d, s2)" by fastforce
    have "frame_loop (\<lambda>_. False) (Suc k) s2 = frame_loop (\<lambda>_. False) (Suc j) s2"
      using next_frame_Some [of s d s2] Some r by (intro less) simp
    then show ?thesis using Some r by (simp add: frame_loop_unfold [of _ _ s])
  qed
qed

lemma frame_loop_ok: "p \<in> set (frame_loop stop k s) \<Longrightarrow> frame_ok p"
proof (induction "length s" arbitrary: s k rule: less_induct)
  case less
  obtain d s2 where n: "next_frame s = Some (d, s2)" and p: "p = d \<or> p \<in> set (frame_loop stop (Suc k) s2)"
    using less.prems unfolding frame_loop_unfold [of stop k s]
    by (cases "next_frame s") (auto split: if_splits)
  then show ?case using less.hyps [of s2 "Suc k"] next_frame_Some [OF n] by auto
qed

interpretation tls: framing tls_frame "frame_loop (\<lambda>_. False) 0" frame_ok
proof unfold_locales
  fix p ws
  assume "frame_ok p"
  then show "frame_loop (\<lambda>_. False) 0 (tls_frame p @ ws) = p # frame_loop (\<lambda>_. False) 0 ws"
    using next_frame_frame [of p ws] frame_loop_never [of "Suc 0" ws 0]
    by (simp add: frame_loop_unfold [of _ _ "tls_frame p @ ws"])
qed (simp add: frame_loop_nil)

lemma ws_loop_never: "ws_loop (\<lambda>_. False) k ms = filter (\<lambda>m. m \<noteq> []) ms"
  by (induction ms arbitrary: k) auto

interpretation ws: framing "\<lambda>p. [p]" "ws_loop (\<lambda>_. False) 0" "\<lambda>p. p \<noteq> []"
  by unfold_locales (auto simp: ws_loop_never)

text \<open>A UDP receiver that uses a fresh pooled buffer for every datagram.\<close>

definition udp_contents :: "net_addr \<Rightarrow> bytes list \<Rightarrow> bytes list" where
  "udp_contents raddr ds = map (\<lambda>d. content (snd (UDP_Receive (Inr (d, raddr)) (pool_New GlobalPool)))) ds"

lemma UDP_Receive_content:
  assumes "length d \<le> length (Data b)"
  shows "wf_buf (snd (UDP_Receive (Inr (d, a)) b))" "content (snd (UDP_Receive (Inr (d, a)) b)) = d"
  using assms by (simp_all add: UDP_Receive_def Let_def wf_buf_def content_def Reset_def take_go_copy)

interpretation udp: framing "\<lambda>p. [p]" "udp_contents raddr" "\<lambda>p. length p \<le> DefaultBufferSize" for raddr
  by unfold_locales
    (simp_all add: udp_contents_def UDP_Receive_content pool_New_def GlobalPool_def NewPool_def)

section \<open>What a receiver gets\<close>

lemma initial_packet_ok: "initial_packet h s = (ps, s') \<Longrightarrow> p \<in> set ps \<Longrightarrow> frame_ok p"
  by (auto simp: initial_packet_def Let_def read_full_def frame_ok_def split: if_splits option.splits)

text \<open>The sniffed header of a frame is never taken for a probe: its second byte is at most 8.\<close>

lemma not_probe:
  assumes "frame_ok p"
  shows "\<not> is_probe (PutUint16 (of_nat (length p)))"
proof
  let ?w = "of_nat (length p) :: u16"
  have vals: "Uint16 [0x47, 0x45] = 17735" "Uint16 [0x50, 0x4F] = 20304" "Uint16 [0x48, 0x45] = 17736"
    by code_simp+
  assume "is_probe (PutUint16 ?w)"
  then have "?w = 17735 \<or> ?w = 20304 \<or> ?w = 17736"
    using Uint_PutUint(1) [of ?w] vals unfolding is_probe_def by metis
  then have "unat ?w = 17735 \<or> unat ?w = 20304 \<or> unat ?w = 17736" by auto
  then show False using unat_frame_len [OF assms] assms by (auto simp: frame_ok_def DefaultBufferSize_def)
qed

lemma handleServerConn_frames:
  assumes "list_all frame_ok (p # ps)"
  shows "handleServerConn t cs c (concat (map tls_frame (p # ps))) (\<lambda>_. False) =
    unregister ((register t cs c)\<lparr>incoming := incoming t @
      map (\<lambda>d. \<lparr>pkt_addr = conn_remote (cs ! c), pkt_data = d\<rparr>) (p # ps)\<rparr>) cs c"
proof -
  let ?rest = "concat (map tls_frame ps)"
  have ok: "frame_ok p" "list_all frame_ok ps" using assms by simp_all
  have "read_full 2 (concat (map tls_frame (p # ps))) = Some (PutUint16 (of_nat (length p)), p @ ?rest)"
    by (simp add: tls_frame_def)
  moreover have "initial_packet (PutUint16 (of_nat (length p))) (p @ ?rest) = ([p], ?rest)"
    using ok(1) unat_frame_len [OF ok(1)] by (simp add: initial_packet_def Let_def frame_ok_def)
  ultimately show ?thesis
    using not_probe [OF ok(1)] tls.stream [OF ok(2)]
    by (simp add: handleServerConn_def register_def)
qed

lemma chan_receive_wf:
  assumes "chan_receive False (pkt # q) pc buf = Some (r, q', b)" "length (pkt_data pkt) \<le> length (Data buf)"
  shows "r = Inr (pkt_addr pkt) \<and> q' = q \<and> wf_buf b \<and> content b = pkt_data pkt \<and> length (Data b) = length (Data buf)"
  using assms fill_fits [of "pkt_data pkt" "Reset buf"] by (auto simp: chan_receive_def Reset_def)

text \<open>A client's sends, one after the other, as \<open>TLS_Send\<close> performs them.\<close>

fun send_all :: "TLSTransport \<Rightarrow> Conn list \<Rightarrow> net_addr \<Rightarrow> PacketBuffer list \<Rightarrow> (go_error option list \<times> Conn list) go" where
  "send_all t cs target [] = Some ([], cs)"
| "send_all t cs target (b # bs) =
     Option.bind (TLS_Send t cs b target) (\<lambda>(e, cs1).
       Option.bind (send_all t cs1 target bs) (\<lambda>(es, cs2). Some (e # es, cs2)))"

lemma write_frame_ok:
  assumes "c < length cs" "conn_up (cs ! c)" "wf_buf b"
  shows "write_frame cs c b = Some (None, cs[c := (cs ! c)\<lparr>conn_written := conn_written (cs ! c) @ tls_frame (content b)\<rparr>])"
  using assms by (simp add: write_frame_def conn_write_def tls_frame_def)

lemma send_all_client:
  assumes "\<not> isServer t" "clientConn t = Some c" "c < length cs" "conn_up (cs ! c)" "list_all wf_buf bs"
  shows "\<exists>cs'. send_all t cs target bs = Some (replicate (length bs) None, cs')
    \<and> conn_written (cs' ! c) = conn_written (cs ! c) @ concat (map (\<lambda>b. tls_frame (content b)) bs)"
  using assms(3-)
proof (induction bs arbitrary: cs)
  case Nil
  then show ?case by simp
next
  case (Cons b bs)
  let ?cs = "cs[c := (cs ! c)\<lparr>conn_written := conn_written (cs ! c) @ tls_frame (content b)\<rparr>]"
  have w: "TLS_Send t cs b target = Some (None, ?cs)"
    using write_frame_ok [OF Cons.prems(1,2)] Cons.prems(3) assms(1,2) by (simp add: TLS_Send_def)
  from Cons.IH [of ?cs] Cons.prems obtain cs' where
    "send_all t ?cs target bs = Some (replicate (length bs) None, cs')"
    "conn_written (cs' ! c) = conn_written (?cs ! c) @ concat (map (\<lambda>b. tls_frame (content b)) bs)" by auto
  then show ?case using w Cons.prems(1) by simp
qed

text \<open>Everything in a queue, received packet by packet into pooled buffers.\<close>

fun receive_all :: "incomingPacket list \<Rightarrow> bytes list go" where
  "receive_all [] = Some []"
| "receive_all (pkt # q) =
     (case chan_receive False (pkt # q) False (pool_New GlobalPool) of
        Some (Inr a, q', b) \<Rightarrow>
          Option.bind (Bytes b) (\<lambda>bs. if q' = q then map_option (\<lambda>r. bs # r) (receive_all q) else None)
      | _ \<Rightarrow> None)"

lemma pool_New_Global: "length (Data (pool_New GlobalPool)) = DefaultBufferSize" "Offset (pool_New GlobalPool) = 0"
  by (simp_all add: pool_New_def GlobalPool_def NewPool_def)

lemma receive_all_ok:
  "list_all (\<lambda>p. length (pkt_data p) \<le> DefaultBufferSize) q \<Longrightarrow> receive_all q = Some (map pkt_data q)"
proof (induction q)
  case Nil
  then show ?case by simp
next
  case (Cons p q)
  let ?b = "fill (Reset (pool_New GlobalPool)) (pkt_data p)"
  have "wf_buf ?b" "content ?b = pkt_data p"
    using fill_fits [of "pkt_data p" "Reset (pool_New GlobalPool)"] Cons.prems pool_New_Global
    by (simp_all add: Reset_def)
  then show ?case using Cons by (simp add: chan_receive_def)
qed

lemma close_all_conn:
  "length (close_all es cs) = length cs
   \<and> (\<forall>c. \<not> conn_up (cs ! c) \<longrightarrow> \<not> conn_up (close_all es cs ! c))
   \<and> (\<forall>e \<in> set es. snd e < length cs \<longrightarrow> \<not> conn_up (close_all es cs ! snd e))"
proof (induction es arbitrary: cs)
  case Nil
  then show ?case by simp
next
  case (Cons e es)
  let ?cs = "cs[snd e := conn_close (cs ! snd e)]"
  have down: "\<not> conn_up (?cs ! c)" if "\<not> conn_up (cs ! c) \<or> c = snd e \<and> c < length cs" for c
    using that by (cases "snd e < length cs") (auto simp: nth_list_update conn_close_def list_update_beyond)
  show ?case using Cons.IH [of ?cs] down by auto
qed

section \<open>Properties\<close>

definition demo_tls_client :: TLSTransport where
  "demo_tls_client = \<lparr>isServer = False, clientConn = Some 0, connections = [], incoming = [], closed = False\<rparr>"

definition demo_tls_server :: TLSTransport where
  "demo_tls_server = \<lparr>isServer = True, clientConn = None, connections = [], incoming = [], closed = False\<rparr>"

definition demo_conn :: "string \<Rightarrow> Conn" where
  "demo_conn a = \<lparr>conn_remote = TCPAddr a, conn_written = [], conn_up = True\<rparr>"

lemmas demo_transport = demo_tls_client_def demo_tls_server_def demo_conn_def

text \<open>
  C25: Packets cross the TLS transport intact. What a client sends with consecutive \<open>Send\<close> calls
  over a live connection is cut back into the same packets by the server's connection handler,
  the first one included although the handler sniffs it for an HTTP probe; \<open>Receive\<close> then
  returns each of them, in order, in a buffer whose bytes can be read without a panic.
\<close>

theorem tls_transport_roundtrip:
  assumes cl: "\<not> isServer t" "clientConn t = Some c" "c < length cs" "conn_up (cs ! c)" "conn_written (cs ! c) = []"
    and bs: "list_all (\<lambda>b. wf_buf b \<and> frame_ok (content b)) bs" "bs \<noteq> []"
  shows "\<exists>cs'. send_all t cs target bs = Some (replicate (length bs) None, cs')
    \<and> (let srv = fst (handleServerConn sv scs sc (conn_written (cs' ! c)) (\<lambda>_. False))
       in incoming srv = incoming sv @ map (\<lambda>b. \<lparr>pkt_addr = conn_remote (scs ! sc), pkt_data = content b\<rparr>) bs
        \<and> receive_all (drop (length (incoming sv)) (incoming srv)) = Some (map content bs))"
proof -
  have wf: "list_all wf_buf bs" and ok: "list_all frame_ok (map content bs)"
    using bs(1) by (simp_all add: list_all_iff)
  obtain b bs' where bs': "bs = b # bs'" using bs(2) by (cases bs) auto
  from send_all_client [OF cl(1-4) wf, of target] obtain cs' where cs':
    "send_all t cs target bs = Some (replicate (length bs) None, cs')"
    "conn_written (cs' ! c) = concat (map tls_frame (map content bs))" by (auto simp: cl(5) comp_def)
  have "incoming (fst (handleServerConn sv scs sc (conn_written (cs' ! c)) (\<lambda>_. False)))
      = incoming sv @ map (\<lambda>b. \<lparr>pkt_addr = conn_remote (scs ! sc), pkt_data = content b\<rparr>) bs"
    using handleServerConn_frames [of "content b" "map content bs'" sv scs sc] ok cs'(2) bs'
    by (simp add: unregister_def)
  moreover have "receive_all (map (\<lambda>b. \<lparr>pkt_addr = conn_remote (scs ! sc), pkt_data = content b\<rparr>) bs)
      = Some (map content bs)"
    using receive_all_ok ok by (simp add: list_all_iff frame_ok_def comp_def)
  ultimately show ?thesis using cs'(1) by (auto simp: Let_def)
qed

theorem tls_transport_roundtrip_witness:
  "\<exists>cs'. send_all demo_tls_client
      [demo_conn ''s''] (TCPAddr ''s'')
      [\<lparr>Data = [1, 2, 3], Length = 2, Offset = 1\<rparr>] = Some ([None], cs')
    \<and> incoming (fst (handleServerConn demo_tls_server
        [demo_conn ''c''] 0 (conn_written (cs' ! 0)) (\<lambda>_. False)))
      = [\<lparr>pkt_addr = TCPAddr ''c'', pkt_data = [2, 3]\<rparr>]"
  using tls_transport_roundtrip [of "demo_tls_client" 0
      "[demo_conn ''s'']" "[\<lparr>Data = [1, 2, 3], Length = 2, Offset = 1\<rparr>]"
      "TCPAddr ''s''" "demo_tls_server"
      "[demo_conn ''c'']" 0]
  by (auto simp: wf_buf_def content_def frame_ok_def DefaultBufferSize_def Let_def numeral_2_eq_2 demo_transport simp del: send_all.simps)



text \<open>
  Whatever arrives on a TLS connection, the receiver is safe: every packet the two reading loops
  queue is non-empty and at most as long as a pooled buffer, so that \<open>Receive\<close> leaves a buffer
  whose bytes can be read, however the peer frames, truncates or garbles its stream.
\<close>

lemma tls_packets_fit:
  assumes "pkt \<in> set (incoming (fst (handleServerConn t cs c stream stop))) \<union> set (incoming (clientReadLoop t a stop stream))"
    and "pkt \<notin> set (incoming t)"
  shows "0 < length (pkt_data pkt) \<and> length (pkt_data pkt) \<le> DefaultBufferSize
    \<and> wf_buf (fill (Reset (pool_New GlobalPool)) (pkt_data pkt))"
proof -
  have "frame_ok (pkt_data pkt)"
    using assms frame_loop_ok initial_packet_ok
    by (fastforce simp: handleServerConn_def clientReadLoop_def unregister_def register_def Let_def
        split: option.splits if_splits prod.splits)
  then show ?thesis
    using fill_fits(1) [of "pkt_data pkt" "Reset (pool_New GlobalPool)"] pool_New_Global
    by (simp add: frame_ok_def Reset_def)
qed



text \<open>
  A WebSocket message longer than a pooled buffer breaks the receiver: \<open>Receive\<close> sets the
  length to the message's, beyond the backing array, and reading the packet's bytes panics.
\<close>

lemma ws_long_message_panics:
  assumes "DefaultBufferSize < length (pkt_data pkt)" "ws_incoming t = pkt # q" "\<not> ws_closed t"
  shows "\<exists>b t'. WS_Receive t pc (pool_New GlobalPool) = Some (Inr (pkt_addr pkt), t', b) \<and> Bytes b = None"
  using assms fill_overflow [of "Reset (pool_New GlobalPool)" "pkt_data pkt"] pool_New_Global
  by (simp add: WS_Receive_def chan_receive_def Reset_def)

text \<open>
  The WebSocket server cannot answer a client whose connection address differs from its
  advertised one: the table is keyed by the address of the HTTP request, but a packet is queued
  with the connection's own \<open>RemoteAddr\<close>, and \<open>Send\<close> to that address fails
  unless both print alike.
\<close>

lemma ws_reply_unroutable:
  assumes "ws_connections t = []" "ws_isServer t" "addr_string ws_remote \<noteq> ws_request_addr"
    and "t1 = handleWSConn_open t ws ws_request_addr ws_remote (\<lambda>_. False) (m # ms)" "m \<noteq> []"
  shows "\<lparr>pkt_addr = ws_remote, pkt_data = m\<rparr> \<in> set (ws_incoming t1)
    \<and> WS_Send msg_send t1 b ws_remote = Some (Some (ErrNoConnection (addr_string ws_remote)), None)"
  using assms by (simp add: handleWSConn_open_def WS_Send_def Let_def ws_loop_never)

text \<open>
  A datagram crosses the UDP transport intact: \<open>Send\<close> hands the kernel exactly the valid bytes
  of the buffer, reports a short write as an error, and \<open>Receive\<close> of that datagram into a buffer
  that is large enough yields the same bytes.
\<close>

lemma udp_roundtrip:
  assumes "wf_buf b" "wr a (content b) = Inr n" "Length b \<le> length (Data b')"
  shows "\<exists>u'. UDP_Send resolve wr u b (UDPAddr a) = Some (if n = Length b then None else Some ErrShortWrite, u')
    \<and> udp_sent u' = udp_sent u @ [(a, content b)]
    \<and> (case UDP_Receive (Inr (content b, src)) b' of (r, b2) \<Rightarrow> r = Inr src \<and> wf_buf b2 \<and> content b2 = content b)"
  using assms UDP_Receive_content [of "content b" b' src]
  by (auto simp: UDP_Send_def UDP_Receive_def Let_def)

text \<open>
  \<open>Close\<close> on a TLS transport takes down every connection it knows, is idempotent, and makes
  every later \<open>Receive\<close> on an empty queue return the closed error instead of blocking.
\<close>

lemma tls_close:
  assumes "TLS_Close t cs = (t', cs')" "\<not> closed t"
  shows "closed t' \<and> TLS_Close t' cs' = (t', cs')
    \<and> (isServer t \<longrightarrow> (\<forall>(a, c) \<in> set (connections t). c < length cs \<longrightarrow> \<not> conn_up (cs' ! c)))
    \<and> (\<not> isServer t \<longrightarrow> (\<forall>c. clientConn t = Some c \<and> c < length cs \<longrightarrow> \<not> conn_up (cs' ! c)))
    \<and> (incoming t = [] \<longrightarrow> TLS_Receive t' pc b = Some (Inl ErrTransportClosed, t', b))"
  using assms close_all_conn [of "connections t" cs]
  by (auto simp: TLS_Close_def Let_def conn_close_def TLS_Receive_def chan_receive_def split: if_splits option.splits)

end
