(* ===== verification/Ant_Address.thy ===== *)
theory Ant_Address
  imports Ant_Transport Ant_Keys
begin

text \<open>
  Server addresses and connection strings: the three places that complete an address
  (\<open>sanitizeAddress\<close> of \<open>cmd/ant-daemon\<close>, \<open>NewTLSClientTransport\<close> of
  \<open>pkg/transport/tls.go\<close>, \<open>ParseURL\<close> of \<open>cmd/antclient\<close>), the \<open>ant://\<close> URL that
  \<open>cmd/antserver\<close> prints and \<open>cmd/antclient\<close> reads, and the constructors of the TLS
  transport. Dialling and listening are arguments.
\<close>

section \<open>Completing an address\<close>

definition sanitizeAddress :: "string \<Rightarrow> string" where
  "sanitizeAddress raw0 =
     (let raw1 = TrimSpace raw0;
          raw = (if Contains raw1 ''::'' \<and> \<not> HasPrefix raw1 ''['' then replace_double_colon raw1 else raw1)
      in if HasSuffix raw '':'' then raw @ ''8443''
         else if \<not> Contains raw '':'' then JoinHostPort raw ''8443''
         else raw)"

definition tls_server_address :: "string \<Rightarrow> string" where
  "tls_server_address serverAddr =
     (let a1 = TrimSpace serverAddr;
          a2 = (if Contains a1 ''::'' \<and> \<not> HasPrefix a1 ''['' then replace_double_colon a1 else a1);
          a3 = (if HasSuffix a2 '':'' then a2 @ ''8443'' else a2);
          a4 = (if \<not> Contains a3 '':'' then JoinHostPort a3 ''8443'' else a3)
      in a4)"

definition tls_sni :: "string \<Rightarrow> string \<Rightarrow> string" where
  "tls_sni serverAddr sni =
     (if sni = [] then (case SplitHostPort serverAddr of Some (host, _) \<Rightarrow> host | None \<Rightarrow> serverAddr)
      else sni)"

definition NewTLSClientTransport ::
  "(string \<Rightarrow> string \<Rightarrow> go_error + cref) \<Rightarrow> string \<Rightarrow> string \<Rightarrow> go_error + TLSTransport" where
  "NewTLSClientTransport dial serverAddr0 sni =
     (let serverAddr = tls_server_address serverAddr0;
          serverName = tls_sni serverAddr sni
      in case dial serverAddr serverName of
           Inl e \<Rightarrow> Inl (ErrOS ''failed to dial tls server'')
         | Inr conn \<Rightarrow> Inr \<lparr>isServer = False, clientConn = Some conn, connections = [], incoming = [], closed = False\<rparr>)"

definition NewTLSServerTransport ::
  "(go_error + 'cert) \<Rightarrow> (string \<Rightarrow> 'cert \<Rightarrow> go_error option) \<Rightarrow> string \<Rightarrow> 'cert option \<Rightarrow> go_error + TLSTransport" where
  "NewTLSServerTransport generate listen listenAddr cert =
     (case (case cert of Some c \<Rightarrow> Inr c | None \<Rightarrow> generate) of
        Inl e \<Rightarrow> Inl (ErrOS ''failed to generate ephemeral tls cert'')
      | Inr serverCert \<Rightarrow>
          (case listen listenAddr serverCert of
             Some e \<Rightarrow> Inl (ErrOS ''failed to start tls listener'')
           | None \<Rightarrow> Inr \<lparr>isServer = True, clientConn = None, connections = [], incoming = [], closed = False\<rparr>))"

section \<open>Connection strings\<close>

text \<open>One round of the loop over the query: the transport mode and the SNI so far.\<close>

definition query_step :: "string \<Rightarrow> string \<times> string \<Rightarrow> string \<times> string" where
  "query_step q acc =
     (case (acc, Split q CHR ''='') of
        ((mode, sni), [k, v]) \<Rightarrow> if k = ''obfs'' then (v, sni) else if k = ''sni'' then (mode, v) else (mode, sni)
      | _ \<Rightarrow> acc)"

definition ParseURL :: "string \<Rightarrow> go_error + (string \<times> string \<times> string \<times> string)" where
  "ParseURL url =
     (if \<not> HasPrefix url ''ant://'' then Inl ErrURLScheme
      else
        let trimmed = TrimPrefix url ''ant://''
        in case Split trimmed CHR ''@'' of
             [pubKey, rest] \<Rightarrow>
               let (hostPart, mode, sni) =
                     (case Index rest ''?'' of
                        None \<Rightarrow> (rest, ''tls'', [])
                      | Some idx \<Rightarrow>
                          (take idx rest, fold query_step (Split (drop (idx + 1) rest) CHR ''&'') (''tls'', [])));
                   h1 = TrimSpace hostPart;
                   h2 = (if Contains h1 ''::'' \<and> \<not> HasPrefix h1 ''['' then replace_double_colon h1 else h1);
                   h3 = (if HasSuffix h2 '':'' then h2 @ ''8443'' else h2);
                   host = (if \<not> Contains h3 '':'' then JoinHostPort h3 ''8443'' else h3)
               in Inr (pubKey, host, mode, sni)
           | _ \<Rightarrow> Inl ErrURLFormat)"

text \<open>The server's banner, with the host the administrator puts for \<open><SERVER_HOST>\<close>.\<close>

definition tls_port :: "string \<Rightarrow> string" where
  "tls_port tlsListen =
     (case SplitHostPort tlsListen of Some (_, p) \<Rightarrow> p | None \<Rightarrow> TrimPrefix tlsListen '':'')"

definition connection_string :: "PublicKey \<Rightarrow> string \<Rightarrow> string \<Rightarrow> string" where
  "connection_string serverPub host tlsListen =
     ''ant://'' @ PublicKey_Base64 serverPub @ ''@'' @ host @ '':'' @ tls_port tlsListen @ ''?obfs=tls''"

section \<open>Lemmas\<close>

text \<open>A host name or port: not empty, no blanks, none of the characters the parsers split at.\<close>

definition plain :: "string \<Rightarrow> bool" where
  "plain s \<longleftrightarrow> s \<noteq> [] \<and> (\<forall>c \<in> set s. \<not> is_space c \<and> c \<notin> set '':[]@?'')"

lemma plain_chars:
  "plain s \<Longrightarrow> c \<in> set s \<Longrightarrow> \<not> is_space c \<and> c \<noteq> CHR '':'' \<and> c \<noteq> CHR ''['' \<and> c \<noteq> CHR '']'' \<and> c \<noteq> CHR ''@'' \<and> c \<noteq> CHR ''?''"
  by (auto simp: plain_def)

lemma is_space_colon: "\<not> is_space CHR '':''"
  by (simp add: is_space_def)

lemma TrimSpace_id:
  assumes "\<And>c. c \<in> set s \<Longrightarrow> \<not> is_space c"
  shows "TrimSpace s = s"
proof -
  have "dropWhile is_space s = s" using assms by (cases s) auto
  moreover have "dropWhile is_space (rev s) = rev s" using assms by (cases s rule: rev_cases) auto
  ultimately show ?thesis by (simp add: TrimSpace_def)
qed

lemma replace_double_colon_id: "\<not> Contains s ''::'' \<Longrightarrow> replace_double_colon s = s"
  by (induction s rule: replace_double_colon.induct) (auto simp: Contains_def HasPrefix_def split: if_splits)

lemma replace_double_colon_prefix:
  "CHR '':'' \<notin> set a \<Longrightarrow> replace_double_colon (a @ s) = a @ replace_double_colon s"
proof (induction a)
  case Nil
  then show ?case by simp
next
  case (Cons x a)
  have "x \<noteq> CHR '':''" using Cons.prems by auto
  then have "replace_double_colon (x # t) = x # replace_double_colon t" for t by (cases t) auto
  then show ?case using Cons by simp
qed

lemma no_double_colon: "CHR '':'' \<notin> set a \<Longrightarrow> CHR '':'' \<notin> set b \<Longrightarrow> \<not> Contains (a @ CHR '':'' # b) ''::''"
proof (induction a)
  case Nil
  have "\<not> Contains b ''::''" using Nil by (induction b) (auto simp: Contains_def HasPrefix_def)
  then show ?case using Nil by (cases b) (auto simp: Contains_def HasPrefix_def)
next
  case (Cons x a)
  then show ?case by (auto simp: Contains_def HasPrefix_def)
qed

lemma no_colon_no_double: "CHR '':'' \<notin> set b \<Longrightarrow> \<not> Contains b ''::''"
  by (induction b) (auto simp: Contains_def HasPrefix_def)

lemma Index_char: "c \<notin> set a \<Longrightarrow> Index (a @ c # b) [c] = Some (length a)"
  by (induction a) (auto simp: HasPrefix_def)

text \<open>The three copies compute the same address.\<close>

lemma sanitize_eq_tls: "tls_server_address a = sanitizeAddress a"
proof -
  have "HasSuffix s '':'' \<Longrightarrow> CHR '':'' \<in> set s" for s
    using last_in_set [of s] by (auto simp: HasSuffix_single)
  then show ?thesis by (simp add: tls_server_address_def sanitizeAddress_def Let_def Contains_single)
qed

lemma ParseURL_eq:
  "ParseURL url =
     (if \<not> HasPrefix url ''ant://'' then Inl ErrURLScheme
      else case Split (TrimPrefix url ''ant://'') CHR ''@'' of
             [pubKey, rest] \<Rightarrow>
               (case Index rest ''?'' of
                  None \<Rightarrow> Inr (pubKey, sanitizeAddress rest, ''tls'', [])
                | Some idx \<Rightarrow> Inr (pubKey, sanitizeAddress (take idx rest),
                    fold query_step (Split (drop (idx + 1) rest) CHR ''&'') (''tls'', [])))
           | _ \<Rightarrow> Inl ErrURLFormat)"
proof (cases "HasPrefix url ''ant://''")
  case True
  define parts where "parts = Split (TrimPrefix url ''ant://'') CHR ''@''"
  consider pk rest where "parts = [pk, rest]" | "\<forall>pk rest. parts \<noteq> [pk, rest]" by blast
  then show ?thesis
  proof cases
    case 1
    then show ?thesis using True
      by (cases "Index rest ''?''")
        (simp_all only: ParseURL_def parts_def [symmetric] Let_def sanitize_eq_tls [symmetric] tls_server_address_def
          list.case option.case prod.case not_True_eq_False if_False case_prod_beta prod.collapse fst_conv snd_conv)
  next
    case 2
    then have "(case parts of [pk, rest] \<Rightarrow> f pk rest | _ \<Rightarrow> e) = e" for f :: "string \<Rightarrow> string \<Rightarrow> go_error + (string \<times> string \<times> string \<times> string)" and e
      by (auto split: list.split)
    then show ?thesis using True by (simp only: ParseURL_def parts_def [symmetric] Let_def)
  qed
next
  case False
  then show ?thesis by (simp add: ParseURL_def)
qed

lemma sanitize_plain_port:
  assumes h: "plain h" and p: "plain p"
  shows "sanitizeAddress (h @ '':'' @ p) = h @ '':'' @ p"
proof -
  have "TrimSpace (h @ '':'' @ p) = h @ '':'' @ p"
    using plain_chars [OF h] plain_chars [OF p] by (intro TrimSpace_id) (auto simp: is_space_colon)
  moreover have "\<not> Contains (h @ '':'' @ p) ''::''"
    using no_double_colon [of h p] plain_chars [OF h] plain_chars [OF p] by fastforce
  moreover have "last p \<noteq> CHR '':''" "p \<noteq> []"
    using plain_chars [OF p, of "last p"] p by (auto simp: plain_def)
  ultimately show ?thesis by (simp add: sanitizeAddress_def Let_def HasSuffix_single Contains_single)
qed

lemma sanitize_plain_host:
  assumes h: "plain h"
  shows "sanitizeAddress h = h @ '':8443'' \<and> sanitizeAddress (h @ '':'') = h @ '':8443''"
proof
  have sp: "TrimSpace h = h" "TrimSpace (h @ '':'') = h @ '':''"
    using plain_chars [OF h] by (auto intro!: TrimSpace_id simp: is_space_colon)
  have nc: "CHR '':'' \<notin> set h" using plain_chars [OF h] by fastforce
  have "h \<noteq> []" "last h \<noteq> CHR '':''" using h nc last_in_set [of h] by (auto simp: plain_def)
  then show "sanitizeAddress h = h @ '':8443''"
    using sp nc no_colon_no_double [OF nc]
    by (simp add: sanitizeAddress_def Let_def HasSuffix_single Contains_single JoinHostPort_def)
  show "sanitizeAddress (h @ '':'') = h @ '':8443''"
    using sp nc no_double_colon [OF nc, of "[]"]
    by (simp add: sanitizeAddress_def Let_def HasSuffix_single Contains_single)
qed

lemma sanitize_double_colon:
  assumes h: "plain h" and p: "plain p"
  shows "sanitizeAddress (h @ ''::'' @ p) = h @ '':'' @ p"
proof -
  have nc: "CHR '':'' \<notin> set h" "CHR '':'' \<notin> set p" using plain_chars [OF h] plain_chars [OF p] by fastforce+
  have ts: "TrimSpace (h @ ''::'' @ p) = h @ ''::'' @ p"
    using plain_chars [OF h] plain_chars [OF p] by (intro TrimSpace_id) (auto simp: is_space_colon)
  have c: "Contains (h @ ''::'' @ p) ''::''"
    using nc(1) by (induction h) (auto simp: Contains_def HasPrefix_def)
  have b: "\<not> HasPrefix (h @ ''::'' @ p) ''[''" using h by (cases h) (auto simp: HasPrefix_def plain_def)
  have "replace_double_colon p = p" using replace_double_colon_id no_colon_no_double [OF nc(2)] by blast
  then have r: "replace_double_colon (h @ ''::'' @ p) = h @ '':'' @ p"
    using replace_double_colon_prefix [OF nc(1), of "''::'' @ p"] by simp
  have "p \<noteq> []" "last p \<noteq> CHR '':''" using p nc(2) last_in_set [of p] by (auto simp: plain_def)
  then show ?thesis
    unfolding sanitizeAddress_def Let_def ts using c b r by (simp add: HasSuffix_single Contains_single)
qed

lemma b64_encode_set: "set (b64_encode bs) \<subseteq> set b64_alphabet"
  by (auto simp: b64_encode_def b64_char_def length_b64_alphabet dest: b64_digits_less)

lemma b64_no_special: "c \<in> set ''@?:&='' \<Longrightarrow> c \<notin> set (b64_encode bs)"
proof -
  have "list_all (\<lambda>c. c \<notin> set b64_alphabet) ''@?:&=''" by code_simp
  then show "c \<in> set ''@?:&='' \<Longrightarrow> c \<notin> set (b64_encode bs)"
    using b64_encode_set [of bs] by (auto simp only: list_all_iff)
qed

lemma split_plain: "plain h \<Longrightarrow> plain p \<Longrightarrow> SplitHostPort (h @ '':'' @ p) = Some (h, p)"
  using plain_chars [of h] plain_chars [of p] by (intro SplitHostPort_plain) blast+

section \<open>Properties\<close>

text \<open>
  Address completion. For a plain host name and port, every way to write the address, with the
  port, without it, with a trailing or a doubled colon, is completed to host:port with 8443
  as the default, and \<open>SplitHostPort\<close> then finds exactly that host and port.
\<close>

lemma address_forms:
  assumes h: "plain h" and p: "plain p"
  shows "map sanitizeAddress [h @ '':'' @ p, h @ ''::'' @ p, h, h @ '':'']
      = [h @ '':'' @ p, h @ '':'' @ p, h @ '':8443'', h @ '':8443'']
    \<and> SplitHostPort (sanitizeAddress (h @ '':'' @ p)) = Some (h, p)
    \<and> SplitHostPort (sanitizeAddress h) = Some (h, ''8443'')"
proof -
  have "plain ''8443''" by code_simp
  from split_plain [OF h this] split_plain [OF h p]
  show ?thesis
    using sanitize_plain_port [OF h p] sanitize_plain_host [OF h] sanitize_double_colon [OF h p] by simp
qed

text \<open>
  C32: The three copies of the completion agree: for every text the TLS client dials exactly the address
  that the daemon's \<open>sanitizeAddress\<close> computes, and \<open>ParseURL\<close> returns the same for
  the host part of a connection string, whatever it is.
\<close>

theorem address_copies_agree:
  assumes "CHR ''@'' \<notin> set k" "CHR ''@'' \<notin> set a" "CHR ''?'' \<notin> set a"
  shows "tls_server_address a = sanitizeAddress a
    \<and> ParseURL (''ant://'' @ k @ ''@'' @ a) = Inr (k, sanitizeAddress a, ''tls'', [])"
proof -
  have "Split (k @ ''@'' @ a) CHR ''@'' = [k, a]"
    using Split_append [OF assms(1), of a] Split_no_sep [OF assms(2)] by simp
  moreover have "Index a ''?'' = None"
    using assms(3) Contains_single [of a "CHR ''?''"] by (simp add: Contains_def)
  ultimately show ?thesis
    by (simp add: sanitize_eq_tls ParseURL_eq TrimPrefix_def HasPrefix_def)
qed

theorem address_copies_agree_witness:
  "ParseURL ''ant://KEY@ fe80::1 '' = Inr (''KEY'', ''fe80:1'', ''tls'', [])"
proof -
  have "sanitizeAddress '' fe80::1 '' = ''fe80:1''" by code_simp
  with address_copies_agree [of "''KEY''" "'' fe80::1 ''"] show ?thesis by simp
qed

text \<open>
  C31: The connection string the server prints can be used as it is: \<open>ParseURL\<close> returns the
  server's key, host and port and the TLS transport, and the key text parses to the server's public
  key.
\<close>

theorem connection_string_roundtrip:
  assumes h: "plain host" and p: "plain port" and k: "length serverPub = KeySize"
  shows "\<exists>keyText. ParseURL (connection_string serverPub host ('':'' @ port)) = Inr (keyText, host @ '':'' @ port, ''tls'', [])
    \<and> ParsePublicKey keyText = Inr serverPub"
proof -
  let ?key = "PublicKey_Base64 serverPub" and ?addr = "host @ '':'' @ port"
  have "SplitHostPort ([] @ '':'' @ port) = Some ([], port)"
    using plain_chars [OF p] by (intro SplitHostPort_plain) auto
  then have url: "connection_string serverPub host ('':'' @ port) = ''ant://'' @ ?key @ ''@'' @ ?addr @ ''?obfs=tls''"
    by (simp add: connection_string_def tls_port_def)
  have at: "CHR ''@'' \<notin> set ?key" using b64_no_special by (simp add: PublicKey_Base64_def)
  have free: "CHR ''@'' \<notin> set ?addr" "CHR ''?'' \<notin> set ?addr" using plain_chars [OF h] plain_chars [OF p] by fastforce+
  have "Split (?addr @ ''?obfs=tls'') CHR ''@'' = [?addr @ ''?obfs=tls'']"
    using free(1) by (intro Split_no_sep) simp
  then have "Split (?key @ ''@'' @ ?addr @ ''?obfs=tls'') CHR ''@'' = [?key, ?addr @ ''?obfs=tls'']"
    using Split_append [OF at] by simp
  moreover have "Index (?addr @ ''?obfs=tls'') ''?'' = Some (length ?addr)"
    using Index_char [OF free(2), of "''obfs=tls''"] by simp
  moreover have "fold query_step (Split ''obfs=tls'' CHR ''&'') (''tls'', []) = (''tls'', [])" by code_simp
  ultimately have "ParseURL (connection_string serverPub host ('':'' @ port)) = Inr (?key, ?addr, ''tls'', [])"
    unfolding url using sanitize_plain_port [OF h p] by (simp add: ParseURL_eq TrimPrefix_def HasPrefix_def)
  moreover have "ParsePublicKey ?key = Inr serverPub" using ParsePublicKey_Base64 k by simp
  ultimately show ?thesis by blast
qed

theorem connection_string_roundtrip_witness:
  "\<exists>keyText. ParseURL (connection_string (replicate 32 7) ''vpn.example'' '':8443'')
      = Inr (keyText, ''vpn.example:8443'', ''tls'', []) \<and> ParsePublicKey keyText = Inr (replicate 32 7)"
proof -
  have "plain ''vpn.example''" "plain ''8443''" by code_simp+
  from connection_string_roundtrip [OF this, of "replicate 32 7"] show ?thesis by simp
qed

end
