(* ===== verification/Ant_Tun.thy ===== *)
theory Ant_Tun
  imports Ant_Session Ant_Strings
begin

text \<open>
  \<open>pkg/tun\<close>: the packet methods of the TUN devices for Linux, macOS and Windows, and the parts of
  device creation that compute something. What the kernel answers is an argument: \<open>rd\<close> is the
  packet a read finds (of which it copies as much as the slice holds) and \<open>wr\<close> the result of a
  write. Configuration commands are computed; the errors the code ignores are left out.
\<close>

definition DefaultMTU :: int where "DefaultMTU = 1420"

section \<open>Linux\<close>

record LinuxTUN =
  lt_name :: string
  lt_mtu :: int

text \<open>The loop that cuts the interface name at its first zero byte.\<close>

fun cut_name :: "string \<Rightarrow> string" where
  "cut_name [] = []"
| "cut_name (c # s) = (if c = CHR 0x00 then [] else c # cut_name s)"

text \<open>\<open>open_err\<close>: does \<open>/dev/net/tun\<close> open; \<open>ioctl\<close>: the name field after \<open>TUNSETIFF\<close>, given the one before.\<close>

definition linux_CreateTUN ::
  "go_error option \<Rightarrow> (string \<Rightarrow> go_error + string) \<Rightarrow> string \<Rightarrow> int \<Rightarrow> (go_error + LinuxTUN) \<times> command list" where
  "linux_CreateTUN open_err ioctl preferredName mtu0 =
     (let mtu = (if mtu0 \<le> 0 then DefaultMTU else mtu0)
      in case open_err of
           Some e \<Rightarrow> (Inl (ErrOS ''failed to open /dev/net/tun''), [])
         | None \<Rightarrow>
             let name0 = replicate 16 (CHR 0x00);
                 name1 = (if preferredName \<noteq> [] then go_copy name0 preferredName else name0)
             in case ioctl name1 of
                  Inl e \<Rightarrow> (Inl (ErrOS ''ioctl TUNSETIFF failed''), [])
                | Inr name2 \<Rightarrow>
                    let actualName = cut_name name2
                    in (Inr \<lparr>lt_name = actualName, lt_mtu = mtu\<rparr>,
                        [[''ip'', ''link'', ''set'', ''dev'', actualName, ''mtu'', fmt_d mtu, ''up'']]))"

text \<open>\<open>up_err\<close> is the result of the second command.\<close>

definition linux_ConfigureIP :: "go_error option \<Rightarrow> string \<Rightarrow> string \<Rightarrow> string \<Rightarrow> go_error option \<times> command list" where
  "linux_ConfigureIP up_err ifName localIP remoteIP =
     (up_err, [[''ip'', ''addr'', ''add'', localIP @ ''/24'', ''peer'', remoteIP, ''dev'', ifName],
               [''ip'', ''link'', ''set'', ''dev'', ifName, ''up'']])"

definition linux_ReadPacket :: "go_error + bytes \<Rightarrow> PacketBuffer \<Rightarrow> go_error option \<times> PacketBuffer" where
  "linux_ReadPacket rd buf =
     (let buf0 = Reset buf in
      case rd of
        Inl e \<Rightarrow> (Some e, buf0)
      | Inr p \<Rightarrow> (None, buf0\<lparr>Data := go_copy (Data buf0) p, Length := min (length p) (length (Data buf0))\<rparr>))"

text \<open>The second component is what is written to the device file, if anything.\<close>

definition linux_WritePacket ::
  "(bytes \<Rightarrow> go_error + nat) \<Rightarrow> PacketBuffer \<Rightarrow> (go_error option \<times> bytes option \<times> PacketBuffer) go" where
  "linux_WritePacket wr buf =
     (if Length buf = 0 then Some (None, None, buf)
      else do {
        payload \<leftarrow> Bytes buf;
        (case wr payload of
           Inl e \<Rightarrow> Some (Some e, None, buf)
         | Inr n \<Rightarrow> Some (if n \<noteq> Length buf then Some (ErrOS ''short tun write'') else None, Some payload, buf))
      })"

section \<open>macOS\<close>

record DarwinTUN =
  dt_name :: string
  dt_mtu :: int

text \<open>
  The four system calls: the socket, the lookup of the control, the connection, and the name of the device, with
  the buffer of 64 bytes and the length that \<open>getsockopt\<close> leaves.
\<close>

definition darwin_CreateTUN ::
  "go_error option \<Rightarrow> go_error option \<Rightarrow> go_error option \<Rightarrow> go_error + (string \<times> u32) \<Rightarrow> int
     \<Rightarrow> ((go_error + DarwinTUN) \<times> command list) go" where
  "darwin_CreateTUN socket ctlinfo connect getsockopt mtu0 =
     (let mtu = (if mtu0 \<le> 0 then DefaultMTU else mtu0)
      in if socket \<noteq> None then Some (Inl (ErrOS ''failed to open af_system socket''), [])
         else if ctlinfo \<noteq> None then Some (Inl (ErrOS ''ioctl CTLIOCGINFO failed''), [])
         else if connect \<noteq> None then Some (Inl (ErrOS ''connect to utun failed''), [])
         else (case getsockopt of
                 Inl e \<Rightarrow> Some (Inl (ErrOS ''failed to get utun name''), [])
               | Inr (nameBuf, nameLen) \<Rightarrow> do {
                   ifName \<leftarrow> slice nameBuf 0 (unat (nameLen - 1));
                   Some (Inr \<lparr>dt_name = ifName, dt_mtu = mtu\<rparr>, [[''ifconfig'', ifName, ''mtu'', fmt_d mtu]])
                 }))"

definition darwin_ConfigureIP :: "go_error option \<Rightarrow> string \<Rightarrow> string \<Rightarrow> string \<Rightarrow> go_error option \<times> command list" where
  "darwin_ConfigureIP cmd_err ifName localIP remoteIP =
     (map_option (\<lambda>_. ErrOS ''ifconfig failed'') cmd_err, [[''ifconfig'', ifName, localIP, remoteIP, ''up'']])"

definition AF_INET :: u32 where "AF_INET = 2"
definition AF_INET6 :: u32 where "AF_INET6 = 30"

definition BigEndian_PutUint32 :: "u32 \<Rightarrow> bytes" where
  "BigEndian_PutUint32 v = rev (PutUint32 v)"

definition darwin_ReadPacket :: "go_error + bytes \<Rightarrow> PacketBuffer \<Rightarrow> go_error option \<times> PacketBuffer" where
  "darwin_ReadPacket rd buf =
     (let buf0 = Reset buf in
      case rd of
        Inl e \<Rightarrow> (Some e, buf0)
      | Inr p \<Rightarrow>
          let n = min (length p) (length (Data buf0));
              buf1 = buf0\<lparr>Data := go_copy (Data buf0) p\<rparr>
          in if n < 4 then (Some (ErrOS ''read short packet on utun''), buf1)
             else (None, buf1\<lparr>Offset := 4, Length := n - 4\<rparr>))"

definition darwin_WritePacket ::
  "(bytes \<Rightarrow> go_error option) \<Rightarrow> PacketBuffer \<Rightarrow> (go_error option \<times> bytes option \<times> PacketBuffer) go" where
  "darwin_WritePacket wr buf =
     (if Length buf = 0 then Some (None, None, buf)
      else do {
        payload \<leftarrow> Bytes buf;
        first \<leftarrow> index payload 0;
        let version = drop_bit 4 first;
        let family = (if version = 6 then AF_INET6 else AF_INET);
        if 4 \<le> Offset buf then do {
          let buf1 = buf\<lparr>Offset := Offset buf - 4, Length := Length buf + 4\<rparr>;
          _ \<leftarrow> slice (Data buf1) (Offset buf1) (Offset buf1 + 4);
          let buf2 = buf1\<lparr>Data := store_at (Data buf1) (Offset buf1) (BigEndian_PutUint32 family)\<rparr>;
          out \<leftarrow> Bytes buf2;
          Some (wr out, Some out, buf2)
        } else do {
          let out = store_at (replicate (Length buf + 4) 0) 0 (BigEndian_PutUint32 family);
          let out1 = store_at out 4 payload;
          Some (wr out1, Some out1, buf)
        }
      })"

section \<open>Windows\<close>

record WindowsTUN =
  wt_name :: string
  wt_mtu :: int

definition windows_CreateTUN :: "string \<Rightarrow> int \<Rightarrow> go_error + WindowsTUN" where
  "windows_CreateTUN preferredName mtu =
     Inr \<lparr>wt_name = (if preferredName = [] then ''AnonymousAnt'' else preferredName),
          wt_mtu = (if mtu \<le> 0 then DefaultMTU else mtu)\<rparr>"

definition windows_ReadPacket :: "PacketBuffer \<Rightarrow> go_error option \<times> PacketBuffer" where
  "windows_ReadPacket buf = (Some (ErrOS ''wintun runtime packet reading''), buf)"

definition windows_WritePacket :: "PacketBuffer \<Rightarrow> go_error option \<times> PacketBuffer" where
  "windows_WritePacket buf = (Some (ErrOS ''wintun runtime packet writing''), buf)"

definition windows_ConfigureIP :: "string \<Rightarrow> string \<Rightarrow> string \<Rightarrow> go_error option" where
  "windows_ConfigureIP ifName localIP remoteIP = None"

section \<open>Interface of a device\<close>

text \<open>
  What the packet loops rely on: \<open>raw p\<close> is how the kernel sees the IP packet \<open>p\<close>; a
  write hands exactly that to the kernel, and a read of it yields the packet in a buffer that still
  has room for the tunnel's tag and header.
\<close>

locale tun_device =
  fixes dev_read :: "bytes \<Rightarrow> PacketBuffer \<Rightarrow> go_error option \<times> PacketBuffer"
    and dev_write :: "PacketBuffer \<Rightarrow> bytes option go"
    and raw :: "bytes \<Rightarrow> bytes"
  assumes write_raw: "wf_buf b \<Longrightarrow> 0 < Length b \<Longrightarrow> dev_write b = Some (Some (raw (content b)))"
    and read_raw: "length p + 64 \<le> length (Data b) \<Longrightarrow>
        \<exists>b'. dev_read (raw p) b = (None, b') \<and> content b' = p \<and> has_room b' \<and> length (Data b') = length (Data b)"
begin

text \<open>A packet written on one side of a pair of devices arrives on the other, ready for encryption.\<close>

lemma device_to_device:
  assumes "wf_buf b" "0 < Length b" "Length b + 64 \<le> length (Data b2)"
  shows "\<exists>w b'. dev_write b = Some (Some w) \<and> dev_read w b2 = (None, b') \<and> content b' = content b \<and> has_room b'"
  using write_raw [OF assms(1,2)] read_raw [of "content b" b2] length_content [OF assms(1)] assms(3) by auto

end

lemma linux_read:
  assumes "length p + 64 \<le> length (Data b)"
  shows "\<exists>b'. linux_ReadPacket (Inr p) b = (None, b') \<and> content b' = p \<and> has_room b' \<and> length (Data b') = length (Data b)"
  using assms by (simp add: linux_ReadPacket_def Let_def content_def Reset_def has_room_def take_go_copy)

interpretation linux_tun: tun_device "\<lambda>p. linux_ReadPacket (Inr p)"
  "\<lambda>b. map_option (fst \<circ> snd) (linux_WritePacket (\<lambda>p. Inr (length p)) b)" "\<lambda>p. p"
  by unfold_locales (use linux_read in \<open>auto simp: linux_WritePacket_def\<close>)

text \<open>The family prefix in front of an IP packet.\<close>

definition utun_raw :: "bytes \<Rightarrow> bytes" where
  "utun_raw p = BigEndian_PutUint32 (if p \<noteq> [] \<and> drop_bit 4 (p ! 0) = 6 then AF_INET6 else AF_INET) @ p"

lemma length_family [simp]: "length (BigEndian_PutUint32 v) = 4"
  by (simp add: BigEndian_PutUint32_def)

lemma darwin_read:
  assumes "length p + 64 \<le> length (Data b)"
  shows "\<exists>b'. darwin_ReadPacket (Inr (utun_raw p)) b = (None, b') \<and> content b' = p \<and> has_room b' \<and> length (Data b') = length (Data b)"
proof -
  have "take (length p) (drop 4 (go_copy (Data b) (utun_raw p))) = p"
    using assms by (simp add: go_copy_def utun_raw_def)
  then show ?thesis using assms
    by (simp add: darwin_ReadPacket_def Let_def content_def Reset_def has_room_def utun_raw_def)
qed

lemma darwin_WritePacket_ok:
  assumes "wf_buf b" "0 < Length b"
  shows "\<exists>b'. darwin_WritePacket wr b = Some (wr (utun_raw (content b)), Some (utun_raw (content b)), b')"
proof -
  define fam where "fam = (if drop_bit 4 (content b ! 0) = 6 then AF_INET6 else AF_INET)"
  have ne: "content b \<noteq> []" using content_nonempty [OF assms] .
  then have raw: "utun_raw (content b) = BigEndian_PutUint32 fam @ content b" by (simp add: utun_raw_def fam_def)
  show ?thesis
  proof (cases "4 \<le> Offset b")
    case True
    let ?b2 = "b\<lparr>Offset := Offset b - 4, Length := Length b + 4, Data := store_at (Data b) (Offset b - 4) (BigEndian_PutUint32 fam)\<rparr>"
    have wf: "wf_buf ?b2" using assms(1) True by (simp add: wf_buf_def)
    obtain k where k: "Offset b = k + 4" using True by (metis add.commute le_Suc_ex)
    have "content ?b2 = BigEndian_PutUint32 fam @ content b"
      using assms(1) k by (simp add: content_def store_at_def wf_buf_def add.commute)
    then show ?thesis using True assms ne wf raw
      by (simp add: darwin_WritePacket_def Let_def index_def slice_def wf_buf_def fam_def [symmetric])
  next
    case False
    have "store_at (store_at (replicate (Length b + 4) 0) 0 (BigEndian_PutUint32 fam)) 4 (content b)
        = BigEndian_PutUint32 fam @ content b"
      using assms(1) by (simp add: store_at_def)
    then show ?thesis using False assms ne raw
      by (simp add: darwin_WritePacket_def Let_def index_def fam_def [symmetric])
  qed
qed

interpretation darwin_tun: tun_device "\<lambda>p. darwin_ReadPacket (Inr p)"
  "\<lambda>b. map_option (fst \<circ> snd) (darwin_WritePacket (\<lambda>_. None) b)" utun_raw
proof unfold_locales
  fix b assume "wf_buf b" "0 < Length b"
  from darwin_WritePacket_ok [OF this, of "\<lambda>_. None"]
  show "map_option (fst \<circ> snd) (darwin_WritePacket (\<lambda>_. None) b) = Some (Some (utun_raw (content b)))" by auto
next
  fix p :: bytes and b :: PacketBuffer
  assume "length p + 64 \<le> length (Data b)"
  then show "\<exists>b'. darwin_ReadPacket (Inr (utun_raw p)) b = (None, b') \<and> content b' = p \<and> has_room b' \<and> length (Data b') = length (Data b)"
    by (rule darwin_read)
qed

section \<open>Properties\<close>

text \<open>
  C27: Every packet up to the MTU can be tunnelled on both platforms with a device: a packet of at most
  1420 bytes that is read from the Linux or the macOS device into a pooled buffer is encrypted
  without an error, and a packet written to a device and read from another one of the same kind
  arrives unchanged, with the family prefix of macOS added and removed.
\<close>

theorem tun_packet_fits:
  assumes A: "aead_ok P" and c: "SendCipher s = Some c" "cipher_ok c"
    and b: "wf_buf b" "0 < Length b" "int (Length b) \<le> DefaultMTU"
  shows "\<exists>w1 b1 s1 e1 w2 b2 s2 e2.
      linux_WritePacket (\<lambda>p. Inr (length p)) b = Some (None, Some w1, b)
    \<and> linux_ReadPacket (Inr w1) (pool_New GlobalPool) = (None, b1) \<and> content b1 = content b
    \<and> EncryptPacket P s b1 TypeData 0 now = Some (None, s1, e1)
    \<and> map_option (fst \<circ> snd) (darwin_WritePacket (\<lambda>_. None) b) = Some (Some w2)
    \<and> darwin_ReadPacket (Inr w2) (pool_New GlobalPool) = (None, b2) \<and> content b2 = content b
    \<and> EncryptPacket P s b2 TypeData 0 now = Some (None, s2, e2)"
proof -
  have cap: "Length b + 64 \<le> length (Data (pool_New GlobalPool))"
    using b(3) by (simp add: DefaultMTU_def pool_New_def GlobalPool_def NewPool_def DefaultBufferSize_def)
  have lw: "linux_WritePacket (\<lambda>p. Inr (length p)) b = Some (None, Some (content b), b)"
    using b by (simp add: linux_WritePacket_def)
  from linux_tun.device_to_device [OF b(1,2) cap] lw obtain b1 where b1:
    "linux_ReadPacket (Inr (content b)) (pool_New GlobalPool) = (None, b1)" "content b1 = content b" "has_room b1" by auto
  from darwin_tun.device_to_device [OF b(1,2) cap] obtain w2 b2 where b2:
    "map_option (fst \<circ> snd) (darwin_WritePacket (\<lambda>_. None) b) = Some (Some w2)"
    "darwin_ReadPacket (Inr w2) (pool_New GlobalPool) = (None, b2)" "content b2 = content b" "has_room b2" by blast
  from EncryptPacket_ok [OF A c b1(3), of TypeData 0 now] EncryptPacket_ok [OF A c b2(4), of TypeData 0 now]
  show ?thesis using lw b1 b2 by blast
qed

theorem tun_packet_fits_witness:
  "\<exists>w2 b2. map_option (fst \<circ> snd) (darwin_WritePacket (\<lambda>_. None) \<lparr>Data = [0x60, 1, 2], Length = 3, Offset = 0\<rparr>) = Some (Some w2)
    \<and> darwin_ReadPacket (Inr w2) (pool_New GlobalPool) = (None, b2) \<and> content b2 = [0x60, 1, 2]"
proof -
  let ?s = "\<lparr>LocalIndex = 1, RemoteIndex = 2, SendCipher = Some \<lparr>aead_key = replicate 32 5, suite = CipherAESGCM\<rparr>,
      RecvCipher = None, sendCounter = 0, replay = new_ReplayWindow, RemoteAddr = None, LastActive = 0, CreatedAt = 0\<rparr>"
  have "content \<lparr>Data = [0x60, 1, 2], Length = 3, Offset = 0\<rparr> = [0x60, 1, 2]" by (simp add: content_def)
  with tun_packet_fits [OF demo_aead_ok, of ?s _ "\<lparr>Data = [0x60, 1, 2], Length = 3, Offset = 0\<rparr>" 0] show ?thesis
    by (auto simp: cipher_ok_def wf_buf_def DefaultMTU_def)
qed

end
