(* ===== verification/Ant_Firewall.thy ===== *)
theory Ant_Firewall
  imports Ant_Strings "HOL-Library.Multiset"
begin

text \<open>
  The parts that configure the operating system through commands: the kill switch
  (\<open>pkg/security/killswitch.go\<close>), the routers (\<open>pkg/router\<close>) and the NAT set-up of
  \<open>cmd/antserver\<close>. The model computes the commands, in order; the programs ignore the exit
  status of most of them, and where they do not the status is an argument. What a command does to
  the firewall or the routing table is not in the repository: it is a parameter, with the documented
  effect of adding and deleting as a hypothesis.
\<close>

datatype GOOS = darwin | linux | other_os string

section \<open>Kill switch\<close>

record KillSwitch =
  enabled :: bool
  ks_tunName :: string
  ks_serverIP :: string
  ks_serverPort :: int

definition NewKillSwitch :: "string \<Rightarrow> string \<Rightarrow> int \<Rightarrow> KillSwitch" where
  "NewKillSwitch tunName serverIP serverPort =
     \<lparr>enabled = False, ks_tunName = tunName, ks_serverIP = serverIP, ks_serverPort = serverPort\<rparr>"

definition enableLinux :: "KillSwitch \<Rightarrow> go_error option \<times> KillSwitch \<times> command list" where
  "enableLinux ks =
     (None, ks\<lparr>enabled := True\<rparr>,
      [[''iptables'', ''-I'', ''OUTPUT'', ''!'', ''-o'', ks_tunName ks, ''-d'', ks_serverIP ks, ''-j'', ''ACCEPT''],
       [''iptables'', ''-A'', ''OUTPUT'', ''-o'', ''lo'', ''-j'', ''ACCEPT''],
       [''iptables'', ''-A'', ''OUTPUT'', ''-o'', ks_tunName ks, ''-j'', ''ACCEPT''],
       [''iptables'', ''-A'', ''OUTPUT'', ''-j'', ''DROP'']])"

definition disableLinux :: "KillSwitch \<Rightarrow> go_error option \<times> KillSwitch \<times> command list" where
  "disableLinux ks = (None, ks\<lparr>enabled := False\<rparr>, [[''iptables'', ''-D'', ''OUTPUT'', ''-j'', ''DROP'']])"

definition newline :: string where "newline = [CHR 0x0A]"

definition pf_rules :: "KillSwitch \<Rightarrow> string" where
  "pf_rules ks = newline @ ''set block-policy drop'' @ newline @ ''set skip on lo0'' @ newline
     @ ''pass out quick on '' @ ks_tunName ks @ '' all'' @ newline
     @ ''pass out quick proto udp to '' @ ks_serverIP ks @ '' port '' @ fmt_d (ks_serverPort ks) @ newline
     @ ''pass out quick proto tcp to '' @ ks_serverIP ks @ '' port '' @ fmt_d (ks_serverPort ks) @ newline
     @ ''block out all'' @ newline"

text \<open>\<open>tmp\<close> is the temporary file (its name, or an error), \<open>wr\<close> and \<open>load\<close> the results of writing and loading it.\<close>

definition enableDarwin ::
  "go_error + string \<Rightarrow> (string \<Rightarrow> go_error option) \<Rightarrow> go_error option \<Rightarrow> KillSwitch
     \<Rightarrow> go_error option \<times> KillSwitch \<times> command list" where
  "enableDarwin tmp wr load ks =
     (case tmp of
        Inl e \<Rightarrow> (Some e, ks, [])
      | Inr name \<Rightarrow>
          (case wr (pf_rules ks) of
             Some e \<Rightarrow> (Some e, ks, [])
           | None \<Rightarrow>
               let cmd = [''pfctl'', ''-a'', ''com.anonymousant.killswitch'', ''-f'', name]
               in case load of
                    Some e \<Rightarrow> (Some (ErrOS ''pfctl anchor load failed''), ks, [cmd])
                  | None \<Rightarrow> (None, ks\<lparr>enabled := True\<rparr>, [cmd, [''pfctl'', ''-e'']])))"

definition disableDarwin :: "KillSwitch \<Rightarrow> go_error option \<times> KillSwitch \<times> command list" where
  "disableDarwin ks =
     (None, ks\<lparr>enabled := False\<rparr>, [[''pfctl'', ''-a'', ''com.anonymousant.killswitch'', ''-F'', ''all'']])"

definition KillSwitch_Enable ::
  "GOOS \<Rightarrow> go_error + string \<Rightarrow> (string \<Rightarrow> go_error option) \<Rightarrow> go_error option \<Rightarrow> KillSwitch
     \<Rightarrow> go_error option \<times> KillSwitch \<times> command list" where
  "KillSwitch_Enable os tmp wr load ks =
     (case os of
        darwin \<Rightarrow> enableDarwin tmp wr load ks
      | linux \<Rightarrow> enableLinux ks
      | other_os s \<Rightarrow> (Some (ErrOS ''killswitch not implemented''), ks, []))"

definition KillSwitch_Disable :: "GOOS \<Rightarrow> KillSwitch \<Rightarrow> go_error option \<times> KillSwitch \<times> command list" where
  "KillSwitch_Disable os ks =
     (case os of darwin \<Rightarrow> disableDarwin ks | linux \<Rightarrow> disableLinux ks | other_os s \<Rightarrow> (None, ks, []))"

definition IsEnabled :: "KillSwitch \<Rightarrow> bool" where
  "IsEnabled ks = enabled ks"

section \<open>Routers\<close>

text \<open>
  Resolution of the server's address, the same on Linux and macOS: \<open>lookup\<close> is
  \<open>net.LookupIP\<close> (\<open>None\<close> on error), \<open>to4\<close> and \<open>parseIP\<close> are the functions of
  \<open>net.IP\<close>. The result is the host and the address, if any.
\<close>

definition resolve_target ::
  "(string \<Rightarrow> bytes list option) \<Rightarrow> (bytes \<Rightarrow> bytes option) \<Rightarrow> (string \<Rightarrow> bytes option) \<Rightarrow> string \<Rightarrow> string \<times> bytes option" where
  "resolve_target lookup to4 parseIP vpnServerIP =
     (let host = (case SplitHostPort vpnServerIP of Some (h, _) \<Rightarrow> h | None \<Rightarrow> vpnServerIP);
          first4 = (case lookup host of
                      None \<Rightarrow> None
                    | Some ips \<Rightarrow> (case List.find (\<lambda>ip. to4 ip \<noteq> None) ips of None \<Rightarrow> None | Some ip \<Rightarrow> to4 ip))
      in (host, case first4 of None \<Rightarrow> parseIP host | Some ip \<Rightarrow> Some ip))"

record Router =
  rt_tunName :: string
  rt_vpnServerIP :: string
  rt_physicalGateway :: string
  rt_primaryService :: string

definition NewPlatformRouter :: Router where
  "NewPlatformRouter = \<lparr>rt_tunName = [], rt_vpnServerIP = [], rt_physicalGateway = [], rt_primaryService = []\<rparr>"

text \<open>\<open>target\<close> is the resolved host and address; \<open>show_ip\<close> and \<open>loopback\<close> are \<open>String\<close> and \<open>IsLoopback\<close> of \<open>net.IP\<close>.\<close>

definition linux_SetupRoutes ::
  "(bytes \<Rightarrow> string) \<Rightarrow> (bytes \<Rightarrow> bool) \<Rightarrow> string \<times> bytes option \<Rightarrow> string \<Rightarrow> string \<Rightarrow> Router \<Rightarrow> Router \<times> command list" where
  "linux_SetupRoutes show_ip loopback target tunName physicalGateway r =
     (let (host, targetIP) = target;
          server = (case targetIP of Some ip \<Rightarrow> show_ip ip | None \<Rightarrow> host);
          r1 = r\<lparr>rt_tunName := tunName, rt_vpnServerIP := server, rt_physicalGateway := physicalGateway\<rparr>
      in (r1,
          if targetIP \<noteq> None \<and> \<not> loopback (the targetIP) then
            (if physicalGateway \<noteq> [] then [[''ip'', ''route'', ''add'', server, ''via'', physicalGateway]] else [])
            @ [[''ip'', ''route'', ''add'', ''0.0.0.0/1'', ''dev'', tunName],
               [''ip'', ''route'', ''add'', ''128.0.0.0/1'', ''dev'', tunName]]
          else [[''ip'', ''route'', ''add'', ''10.8.0.0/24'', ''dev'', tunName]]))"

definition linux_RestoreRoutes :: "Router \<Rightarrow> command list" where
  "linux_RestoreRoutes r =
     (if rt_tunName r \<noteq> [] then
        [[''ip'', ''route'', ''del'', ''0.0.0.0/1'', ''dev'', rt_tunName r],
         [''ip'', ''route'', ''del'', ''128.0.0.0/1'', ''dev'', rt_tunName r],
         [''ip'', ''route'', ''del'', ''10.8.0.0/24'', ''dev'', rt_tunName r]] else [])
     @ (if rt_vpnServerIP r \<noteq> [] \<and> rt_physicalGateway r \<noteq> [] then
          [[''ip'', ''route'', ''del'', rt_vpnServerIP r, ''via'', rt_physicalGateway r]] else [])"

text \<open>
  \<open>GetDefaultGateway\<close> on the output of \<open>route -n get default\<close>: gateway and interface. The
  scanner stops at the first line that does not fit its buffer of 64 KiB.
\<close>

definition gateway_step :: "string \<Rightarrow> string \<times> string \<Rightarrow> string \<times> string" where
  "gateway_step line0 acc =
     (let line = TrimSpace line0 in
      if HasPrefix line ''gateway:'' then (TrimSpace (TrimPrefix line ''gateway:''), snd acc)
      else if HasPrefix line ''interface:'' then (fst acc, TrimSpace (TrimPrefix line ''interface:''))
      else acc)"

definition GetDefaultGateway :: "go_error + string \<Rightarrow> go_error + (string \<times> string)" where
  "GetDefaultGateway out =
     (case out of
        Inl e \<Rightarrow> Inl (ErrOS ''failed to get default gateway'')
      | Inr text \<Rightarrow>
          let (gateway, iface) = fold gateway_step (takeWhile (\<lambda>l. length l < 65536) (Split text CHR 0x0A)) ([], [])
          in if gateway = [] then Inl (ErrOS ''no default gateway found in route output'') else Inr (gateway, iface))"

text \<open>\<open>ok1\<close> and \<open>ok2\<close> tell whether the two subnet commands succeed.\<close>

definition darwin_SetupRoutes ::
  "(bytes \<Rightarrow> string) \<Rightarrow> (bytes \<Rightarrow> bool) \<Rightarrow> go_error + string \<Rightarrow> bool \<Rightarrow> bool \<Rightarrow> string \<times> bytes option \<Rightarrow> string \<Rightarrow> string \<Rightarrow> Router
     \<Rightarrow> go_error option \<times> Router \<times> command list" where
  "darwin_SetupRoutes show_ip loopback route_out ok1 ok2 target tunName physicalGateway0 r =
     (let (host, targetIP) = target;
          server = (case targetIP of Some ip \<Rightarrow> show_ip ip | None \<Rightarrow> host);
          r1 = r\<lparr>rt_tunName := tunName, rt_vpnServerIP := server\<rparr>
      in case (if physicalGateway0 = [] then map_sum id fst (GetDefaultGateway route_out) else Inr physicalGateway0) of
           Inl e \<Rightarrow> (Some e, r1, [])
         | Inr physicalGateway \<Rightarrow>
             let r2 = r1\<lparr>rt_physicalGateway := physicalGateway\<rparr>;
                 c0 = [''route'', ''add'', ''-host'', server, physicalGateway];
                 c1 = [''route'', ''add'', ''0.0.0.0/1'', ''-interface'', tunName];
                 c2 = [''route'', ''add'', ''128.0.0.0/1'', ''-interface'', tunName]
             in if targetIP \<noteq> None \<and> \<not> loopback (the targetIP) then
                  (if \<not> ok1 then (Some (ErrOS ''failed to add 0.0.0.0/1 route''), r2, [c0, c1])
                   else if \<not> ok2 then (Some (ErrOS ''failed to add 128.0.0.0/1 route''), r2, [c0, c1, c2])
                   else (None, r2, [c0, c1, c2]))
                else (None, r2, [[''route'', ''add'', ''10.8.0.0/24'', ''-interface'', tunName]]))"

definition darwin_RestoreRoutes :: "Router \<Rightarrow> command list" where
  "darwin_RestoreRoutes r =
     (if rt_tunName r \<noteq> [] then
        [[''route'', ''delete'', ''0.0.0.0/1'', ''-interface'', rt_tunName r],
         [''route'', ''delete'', ''128.0.0.0/1'', ''-interface'', rt_tunName r],
         [''route'', ''delete'', ''10.8.0.0/24'', ''-interface'', rt_tunName r]] else [])
     @ (if rt_vpnServerIP r \<noteq> [] \<and> rt_physicalGateway r \<noteq> [] then [[''route'', ''delete'', ''-host'', rt_vpnServerIP r]] else [])"

definition darwin_SetupDNS :: "go_error + string \<Rightarrow> string list \<Rightarrow> Router \<Rightarrow> Router \<times> command list" where
  "darwin_SetupDNS services dnsServers0 r =
     (let dnsServers = (if dnsServers0 = [] then [''1.1.1.1'', ''1.0.0.1''] else dnsServers0)
      in case services of
           Inl e \<Rightarrow> (r, [])
         | Inr out \<Rightarrow>
             (case List.find (\<lambda>line. TrimSpace line \<noteq> [] \<and> \<not> Contains (TrimSpace line) ''*'') (Split out CHR 0x0A) of
                None \<Rightarrow> (r, [])
              | Some line \<Rightarrow>
                  let svc = TrimSpace line
                  in (r\<lparr>rt_primaryService := svc\<rparr>, [''networksetup'' # ''-setdnsservers'' # svc # dnsServers])))"

definition darwin_RestoreDNS :: "Router \<Rightarrow> command list" where
  "darwin_RestoreDNS r =
     (if rt_primaryService r \<noteq> [] then [[''networksetup'', ''-setdnsservers'', rt_primaryService r, ''Empty'']] else [])"

definition windows_SetupRoutes :: "string \<Rightarrow> string \<Rightarrow> Router \<Rightarrow> Router \<times> command list" where
  "windows_SetupRoutes tunName vpnServerIP r =
     (r\<lparr>rt_tunName := tunName, rt_vpnServerIP := vpnServerIP\<rparr>,
      [[''route'', ''add'', ''0.0.0.0'', ''mask'', ''128.0.0.0'', ''0.0.0.0'', ''if'', tunName],
       [''route'', ''add'', ''128.0.0.0'', ''mask'', ''128.0.0.0'', ''0.0.0.0'', ''if'', tunName]])"

definition windows_RestoreRoutes :: "Router \<Rightarrow> command list" where
  "windows_RestoreRoutes r =
     [[''route'', ''delete'', ''0.0.0.0'', ''mask'', ''128.0.0.0''], [''route'', ''delete'', ''128.0.0.0'', ''mask'', ''128.0.0.0'']]"

section \<open>Server NAT\<close>

definition nat_rules :: "string \<Rightarrow> string \<Rightarrow> string \<Rightarrow> string \<Rightarrow> command list" where
  "nat_rules verb tunName virtualSubnet wanIface =
     [[''iptables'', ''-t'', ''nat'', verb, ''POSTROUTING'', ''-s'', virtualSubnet @ ''/24'', ''-o'', wanIface, ''-j'', ''MASQUERADE''],
      [''iptables'', verb, ''FORWARD'', ''-i'', tunName, ''-j'', ''ACCEPT''],
      [''iptables'', verb, ''FORWARD'', ''-m'', ''state'', ''--state'', ''RELATED,ESTABLISHED'', ''-j'', ''ACCEPT'']]"

text \<open>The commands run at once, and those of the returned cleanup function.\<close>

definition setupServerNAT :: "GOOS \<Rightarrow> go_error + string \<Rightarrow> string \<Rightarrow> string \<Rightarrow> command list \<times> command list" where
  "setupServerNAT os route_out tunName virtualSubnet =
     (case os of
        linux \<Rightarrow>
          let c1 = [''sysctl'', ''-w'', ''net.ipv4.ip_forward=1''];
              c2 = [''sh'', ''-c'', ''ip route show default | awk '' @ [CHR 0x27] @ ''{print $5}'' @ [CHR 0x27]];
              wanIface = (case route_out of Inr out \<Rightarrow> TrimSpace out | Inl e \<Rightarrow> [])
          in if wanIface \<noteq> []
             then ([c1, c2] @ nat_rules ''-A'' tunName virtualSubnet wanIface, nat_rules ''-D'' tunName virtualSubnet wanIface)
             else ([c1, c2], [])
      | darwin \<Rightarrow> ([[''sysctl'', ''-w'', ''net.inet.ip.forwarding=1'']], [])
      | other_os s \<Rightarrow> ([], []))"

section \<open>Documented behaviour of the commands\<close>

type_synonym chains = "string \<times> string \<Rightarrow> command list"

text \<open>
  \<open>iptables\<close>, on the rules of every chain of every table: \<open>-A\<close> appends a rule, \<open>-I\<close>
  inserts it at the head, \<open>-D\<close> deletes the first rule that is equal; the other programs the
  code runs leave the chains alone.
\<close>

definition iptables_ok :: "(command \<Rightarrow> chains \<Rightarrow> chains) \<Rightarrow> bool" where
  "iptables_ok run \<longleftrightarrow>
     (\<forall>c r T. run (''iptables'' # ''-A'' # c # r) T = T((''filter'', c) := T (''filter'', c) @ [r])) \<and>
     (\<forall>c r T. run (''iptables'' # ''-I'' # c # r) T = T((''filter'', c) := r # T (''filter'', c))) \<and>
     (\<forall>c r T. run (''iptables'' # ''-D'' # c # r) T = T((''filter'', c) := remove1 r (T (''filter'', c)))) \<and>
     (\<forall>t c r T. run (''iptables'' # ''-t'' # t # ''-A'' # c # r) T = T((t, c) := T (t, c) @ [r])) \<and>
     (\<forall>t c r T. run (''iptables'' # ''-t'' # t # ''-D'' # c # r) T = T((t, c) := remove1 r (T (t, c)))) \<and>
     (\<forall>p r T. p \<noteq> ''iptables'' \<longrightarrow> run (p # r) T = T)"

text \<open>An \<open>iptables\<close> of this kind, for the witnesses.\<close>

definition run_iptables :: "command \<Rightarrow> chains \<Rightarrow> chains" where
  "run_iptables cmd T =
     (case cmd of
        p # v # c # r \<Rightarrow>
          if p \<noteq> ''iptables'' then T
          else if v = ''-A'' then T((''filter'', c) := T (''filter'', c) @ [r])
          else if v = ''-I'' then T((''filter'', c) := r # T (''filter'', c))
          else if v = ''-D'' then T((''filter'', c) := remove1 r (T (''filter'', c)))
          else if v = ''-t'' then
            (case r of
               w # c' # r' \<Rightarrow>
                 if w = ''-A'' then T((c, c') := T (c, c') @ [r'])
                 else if w = ''-D'' then T((c, c') := remove1 r' (T (c, c'))) else T
             | _ \<Rightarrow> T)
          else T
      | _ \<Rightarrow> T)"

lemma run_iptables_ok: "iptables_ok run_iptables"
  by (auto simp: iptables_ok_def run_iptables_def split: list.split)

text \<open>
  A packet that leaves the host is judged by the first rule of the chain \<open>OUTPUT\<close> that matches
  it; the rules of the kill switch match on the outgoing interface and the destination. The
  verdict is \<open>True\<close> to accept and \<open>policy\<close> when no rule matches.
\<close>

definition rule_matching_ok :: "(command \<Rightarrow> string \<Rightarrow> string \<Rightarrow> bool option) \<Rightarrow> bool" where
  "rule_matching_ok judge \<longleftrightarrow>
     (\<forall>t d o_if dst. judge [''!'', ''-o'', t, ''-d'', d, ''-j'', ''ACCEPT''] o_if dst
                      = (if o_if \<noteq> t \<and> dst = d then Some True else None)) \<and>
     (\<forall>t o_if dst. judge [''-o'', t, ''-j'', ''ACCEPT''] o_if dst = (if o_if = t then Some True else None)) \<and>
     (\<forall>o_if dst. judge [''-j'', ''DROP''] o_if dst = Some False)"

primrec verdict :: "(command \<Rightarrow> string \<Rightarrow> string \<Rightarrow> bool option) \<Rightarrow> bool \<Rightarrow> command list \<Rightarrow> string \<Rightarrow> string \<Rightarrow> bool" where
  "verdict judge policy [] o_if dst = policy"
| "verdict judge policy (r # rs) o_if dst =
     (case judge r o_if dst of Some v \<Rightarrow> v | None \<Rightarrow> verdict judge policy rs o_if dst)"

lemma verdict_append_none:
  "\<forall>r \<in> set rs. judge r o_if dst = None \<Longrightarrow> verdict judge policy (rs @ rs') o_if dst = verdict judge policy rs' o_if dst"
  by (induction rs) auto

definition judge_rule :: "command \<Rightarrow> string \<Rightarrow> string \<Rightarrow> bool option" where
  "judge_rule r o_if dst =
     (if r = [''-j'', ''DROP''] then Some False
      else if length r = 7 \<and> r = [''!'', ''-o'', r ! 2, ''-d'', r ! 4, ''-j'', ''ACCEPT''] \<and> o_if \<noteq> r ! 2 \<and> dst = r ! 4 then Some True
      else if length r = 4 \<and> r = [''-o'', r ! 1, ''-j'', ''ACCEPT''] \<and> o_if = r ! 1 then Some True
      else None)"

lemma judge_rule_ok: "rule_matching_ok judge_rule"
  by (simp add: rule_matching_ok_def judge_rule_def)

text \<open>\<open>ip route\<close>, on the set of routes: \<open>add\<close> inserts, \<open>del\<close> removes.\<close>

definition ip_route_ok :: "(command \<Rightarrow> command set \<Rightarrow> command set) \<Rightarrow> bool" where
  "ip_route_ok run \<longleftrightarrow>
     (\<forall>r T. run (''ip'' # ''route'' # ''add'' # r) T = insert r T) \<and>
     (\<forall>r T. run (''ip'' # ''route'' # ''del'' # r) T = T - {r})"

definition run_ip_route :: "command \<Rightarrow> command set \<Rightarrow> command set" where
  "run_ip_route cmd T =
     (if take 3 cmd = [''ip'', ''route'', ''add''] then insert (drop 3 cmd) T
      else if take 3 cmd = [''ip'', ''route'', ''del''] then T - {drop 3 cmd} else T)"

lemma run_ip_route_ok: "ip_route_ok run_ip_route"
  by (simp add: ip_route_ok_def run_ip_route_def)

section \<open>The kill switch\<close>

abbreviation (input) output_chain :: "string \<times> string" where
  "output_chain \<equiv> (''filter'', ''OUTPUT'')"

definition accept_server :: "KillSwitch \<Rightarrow> command" where
  "accept_server ks = [''!'', ''-o'', ks_tunName ks, ''-d'', ks_serverIP ks, ''-j'', ''ACCEPT'']"

definition accept_local :: "KillSwitch \<Rightarrow> command list" where
  "accept_local ks = [[''-o'', ''lo'', ''-j'', ''ACCEPT''], [''-o'', ks_tunName ks, ''-j'', ''ACCEPT'']]"

lemmas ks_rule_defs = accept_server_def accept_local_def

lemma enableLinux_chain:
  assumes "iptables_ok run"
  shows "fold run (snd (snd (enableLinux ks))) T
           = T(output_chain := accept_server ks # T output_chain @ accept_local ks @ [[''-j'', ''DROP'']])"
  using assms unfolding iptables_ok_def by (simp add: enableLinux_def ks_rule_defs)

lemma disableLinux_chain:
  assumes "iptables_ok run"
  shows "fold run (snd (snd (disableLinux ks))) T = T(output_chain := remove1 [''-j'', ''DROP''] (T output_chain))"
  using assms unfolding iptables_ok_def by (simp add: disableLinux_def)

text \<open>One round of the kill switch: \<open>Enable\<close>, then \<open>Disable\<close>.\<close>

definition ks_round :: "(command \<Rightarrow> chains \<Rightarrow> chains) \<Rightarrow> KillSwitch \<Rightarrow> chains \<Rightarrow> chains" where
  "ks_round run ks T = fold run (snd (snd (disableLinux ks))) (fold run (snd (snd (enableLinux ks))) T)"

lemma remove1_last: "x \<notin> set xs \<Longrightarrow> remove1 x (xs @ [x]) = xs"
  by (simp add: remove1_append)

lemma ks_round_chain:
  assumes "iptables_ok run" and "[''-j'', ''DROP''] \<notin> set (T output_chain)"
  shows "ks_round run ks T = T(output_chain := accept_server ks # T output_chain @ accept_local ks)"
proof -
  have "[''-j'', ''DROP''] \<notin> set (accept_server ks # T output_chain @ accept_local ks)"
    using assms(2) by (simp add: ks_rule_defs)
  then show ?thesis
    using remove1_last [of "[''-j'', ''DROP'']" "accept_server ks # T output_chain @ accept_local ks"]
    by (simp add: ks_round_def enableLinux_chain [OF assms(1)] disableLinux_chain [OF assms(1)])
qed



text \<open>
  C37: \<open>Disable\<close> on Linux deletes only the \<open>DROP\<close> rule: every round of \<open>Enable\<close> and \<open>Disable\<close>
  leaves the three \<open>ACCEPT\<close> rules behind, so after \<open>n\<close> rounds the chain \<open>OUTPUT\<close> has grown by \<open>3 * n\<close> rules.
\<close>

theorem killswitch_rounds_leave_rules:
  assumes "iptables_ok run" and "[''-j'', ''DROP''] \<notin> set (T output_chain)"
  shows "(ks_round run ks ^^ n) T output_chain
           = replicate n (accept_server ks) @ T output_chain @ concat (replicate n (accept_local ks))"
proof (induction n)
  case (Suc n)
  have "[''-j'', ''DROP''] \<notin> set (replicate n (accept_server ks) @ T output_chain @ concat (replicate n (accept_local ks)))"
    using assms(2) by (auto simp: ks_rule_defs)
  moreover have "concat (replicate n (accept_local ks)) @ accept_local ks = accept_local ks @ concat (replicate n (accept_local ks))"
    by (induction n) simp_all
  ultimately show ?case
    by (simp add: ks_round_chain [OF assms(1)] Suc)
qed simp

theorem killswitch_rounds_leave_rules_witness:
  "length ((ks_round run_iptables (NewKillSwitch ''ant0'' ''192.0.2.1'' 8443) ^^ 5) (\<lambda>_. []) output_chain) = 15"
  using killswitch_rounds_leave_rules [OF run_iptables_ok, of "\<lambda>_. []" 5 "NewKillSwitch ''ant0'' ''192.0.2.1'' 8443"]
  by (simp add: accept_local_def numeral_eq_Suc)

section \<open>Routes and address translation\<close>

definition tun_route :: "string \<Rightarrow> string \<Rightarrow> command" where
  "tun_route net tunName = [net, ''dev'', tunName]"

lemma linux_SetupRoutes_table:
  assumes "ip_route_ok run"
  shows "fold run (snd (linux_SetupRoutes show_ip loopback (host, targetIP) tunName gw r)) T
           = T \<union> (case targetIP of
                    Some ip \<Rightarrow>
                      if loopback ip then {tun_route ''10.8.0.0/24'' tunName}
                      else (if gw = [] then {} else {[show_ip ip, ''via'', gw]})
                           \<union> {tun_route ''0.0.0.0/1'' tunName, tun_route ''128.0.0.0/1'' tunName}
                  | None \<Rightarrow> {tun_route ''10.8.0.0/24'' tunName})"
  using assms unfolding ip_route_ok_def
  by (cases targetIP) (auto simp: linux_SetupRoutes_def tun_route_def Let_def)

lemma linux_RestoreRoutes_table:
  assumes "ip_route_ok run" and "rt_tunName r \<noteq> []"
  shows "fold run (linux_RestoreRoutes r) T
           = T - {tun_route ''0.0.0.0/1'' (rt_tunName r), tun_route ''128.0.0.0/1'' (rt_tunName r), tun_route ''10.8.0.0/24'' (rt_tunName r)}
               - (if rt_vpnServerIP r \<noteq> [] \<and> rt_physicalGateway r \<noteq> [] then {[rt_vpnServerIP r, ''via'', rt_physicalGateway r]} else {})"
  using assms unfolding ip_route_ok_def by (auto simp: linux_RestoreRoutes_def tun_route_def)

text \<open>
  On Linux, \<open>RestoreRoutes\<close> undoes \<open>SetupRoutes\<close>: for every target and gateway the routing table is the one
  before, when it had none of the routes concerned. (\<open>show_ip\<close> is \<open>String\<close> of \<open>net.IP\<close>, never empty.)
\<close>

lemma linux_routes_restored:
  assumes "ip_route_ok run" and "\<forall>ip. show_ip ip \<noteq> []" and "tunName \<noteq> []"
    and "T \<inter> {tun_route ''0.0.0.0/1'' tunName, tun_route ''128.0.0.0/1'' tunName, tun_route ''10.8.0.0/24'' tunName,
               [rt_vpnServerIP (fst (linux_SetupRoutes show_ip loopback target tunName gw r)), ''via'', gw]} = {}"
  shows "fold run (linux_RestoreRoutes (fst (linux_SetupRoutes show_ip loopback target tunName gw r)))
           (fold run (snd (linux_SetupRoutes show_ip loopback target tunName gw r)) T) = T"
proof -
  obtain host targetIP where t: "target = (host, targetIP)" by fastforce
  let ?r = "fst (linux_SetupRoutes show_ip loopback target tunName gw r)"
  have f: "rt_tunName ?r = tunName" "rt_physicalGateway ?r = gw"
    "rt_vpnServerIP ?r = (case targetIP of Some ip \<Rightarrow> show_ip ip | None \<Rightarrow> host)"
    by (simp_all add: linux_SetupRoutes_def t Let_def)
  show ?thesis
    using assms(2,4) unfolding linux_RestoreRoutes_table [OF assms(1), of ?r, unfolded f, OF assms(3)] f
    unfolding t linux_SetupRoutes_table [OF assms(1)]
    by (cases targetIP) (auto simp: tun_route_def)
qed

text \<open>
  The route that keeps the tunnel's own packets off the tunnel is added on Linux only when the caller names a
  gateway: with the empty gateway that every caller passes, \<open>SetupRoutes\<close> adds the two halves of the address space through
  the tunnel and nothing else, so the packets to the server enter the tunnel that carries them.
\<close>

lemma linux_host_route_needs_gateway:
  assumes "ip_route_ok run" and "\<not> loopback ip"
  shows "fold run (snd (linux_SetupRoutes show_ip loopback (host, Some ip) tunName gw r)) T
           = T \<union> (if gw = [] then {} else {[show_ip ip, ''via'', gw]})
               \<union> {tun_route ''0.0.0.0/1'' tunName, tun_route ''128.0.0.0/1'' tunName}"
  using assms(2) by (auto simp: linux_SetupRoutes_table [OF assms(1)])

text \<open>On macOS the gateway is looked up, and the route to the server comes first.\<close>

lemma darwin_host_route:
  assumes "\<not> loopback ip" and "darwin_SetupRoutes show_ip loopback route_out ok1 ok2 (host, Some ip) tunName gw0 r = (None, r', cmds)"
  shows "\<exists>gw iface. (gw0 = gw \<or> gw0 = [] \<and> GetDefaultGateway route_out = Inr (gw, iface)) \<and> rt_physicalGateway r' = gw \<and>
           cmds = [[''route'', ''add'', ''-host'', show_ip ip, gw], [''route'', ''add'', ''0.0.0.0/1'', ''-interface'', tunName],
                   [''route'', ''add'', ''128.0.0.0/1'', ''-interface'', tunName]]"
  using assms
  by (cases "GetDefaultGateway route_out") (auto simp: darwin_SetupRoutes_def Let_def split: if_splits)

text \<open>
  The cleanup function of the server's NAT set-up removes what the set-up added: every chain of every table holds the same
  rules, with the same multiplicities, as before.
\<close>

lemma nat_cleanup:
  assumes "iptables_ok run"
  shows "mset (fold run (snd (setupServerNAT os route_out tunName subnet)) (fold run (fst (setupServerNAT os route_out tunName subnet)) T) k)
           = mset (T k)"
proof -
  have other: "run (''sysctl'' # r) T = T" "run (''sh'' # r) T = T" for r T
    using assms by (simp_all add: iptables_ok_def)
  have add: "run (''iptables'' # ''-A'' # c # r) T = T((''filter'', c) := T (''filter'', c) @ [r])"
    "run (''iptables'' # ''-t'' # t # ''-A'' # c # r) T = T((t, c) := T (t, c) @ [r])" for t c r T
    using assms by (simp_all add: iptables_ok_def)
  have del: "run (''iptables'' # ''-D'' # c # r) T = T((''filter'', c) := remove1 r (T (''filter'', c)))"
    "run (''iptables'' # ''-t'' # t # ''-D'' # c # r) T = T((t, c) := remove1 r (T (t, c)))" for t c r T
    using assms by (simp_all add: iptables_ok_def)
  show ?thesis
    by (cases os; cases "case route_out of Inr out \<Rightarrow> TrimSpace out | Inl e \<Rightarrow> []")
      (simp_all add: setupServerNAT_def nat_rules_def Let_def other add del)
qed

end
