(* ===== verification/Ant_Platform.thy ===== *)
theory Ant_Platform
  imports Ant_Tun Ant_Firewall
begin

text \<open>
  The platform a client runs on. The packages \<open>pkg/tun\<close> and \<open>pkg/router\<close> have one
  implementation per operating system, chosen by build tags, and the kill switch looks at
  \<open>runtime.GOOS\<close>: \<open>os_env\<close> holds the choice and everything the operating system
  answers, and the operations below are the ones the clients call. Windows is every system that is
  neither Linux nor macOS, the others have no implementation to build with.
\<close>

record os_env =
  goos :: GOOS
  tun_open_err :: "go_error option"
  tun_ioctl :: "string \<Rightarrow> go_error + string"
  utun_socket :: "go_error option"
  utun_ctlinfo :: "go_error option"
  utun_connect :: "go_error option"
  utun_getsockopt :: "go_error + (string \<times> u32)"
  LookupIP :: "string \<Rightarrow> bytes list option"
  To4 :: "bytes \<Rightarrow> bytes option"
  ParseIP :: "string \<Rightarrow> bytes option"
  IsLoopback :: "bytes \<Rightarrow> bool"
  IP_String :: "bytes \<Rightarrow> string"
  route_out :: "go_error + string"
  route_ok1 :: bool
  route_ok2 :: bool
  networkservices :: "go_error + string"
  pf_tmp :: "go_error + string"
  pf_write :: "string \<Rightarrow> go_error option"
  pf_load :: "go_error option"

text \<open>The name of the device, or an error, and the commands run.\<close>

definition CreateTUN :: "os_env \<Rightarrow> string \<Rightarrow> int \<Rightarrow> ((go_error + string) \<times> command list) go" where
  "CreateTUN env name mtu =
     (case goos env of
        linux \<Rightarrow> Some (map_prod (map_sum id lt_name) id (linux_CreateTUN (tun_open_err env) (tun_ioctl env) name mtu))
      | darwin \<Rightarrow>
          map_option (map_prod (map_sum id dt_name) id)
            (darwin_CreateTUN (utun_socket env) (utun_ctlinfo env) (utun_connect env) (utun_getsockopt env) mtu)
      | other_os s \<Rightarrow> Some (map_sum id wt_name (windows_CreateTUN name mtu), []))"

text \<open>Both callers ignore the error.\<close>

definition ConfigureIP :: "os_env \<Rightarrow> string \<Rightarrow> string \<Rightarrow> string \<Rightarrow> command list" where
  "ConfigureIP env ifName localIP remoteIP =
     (case goos env of
        linux \<Rightarrow> snd (linux_ConfigureIP None ifName localIP remoteIP)
      | darwin \<Rightarrow> snd (darwin_ConfigureIP None ifName localIP remoteIP)
      | other_os s \<Rightarrow> [])"

definition SetupRoutes ::
  "os_env \<Rightarrow> string \<Rightarrow> string \<Rightarrow> string \<Rightarrow> Router \<Rightarrow> go_error option \<times> Router \<times> command list" where
  "SetupRoutes env tunName vpnServerIP physicalGateway r =
     (let target = resolve_target (LookupIP env) (To4 env) (ParseIP env) vpnServerIP
      in case goos env of
           linux \<Rightarrow> (None, linux_SetupRoutes (IP_String env) (IsLoopback env) target tunName physicalGateway r)
         | darwin \<Rightarrow>
             darwin_SetupRoutes (IP_String env) (IsLoopback env) (route_out env) (route_ok1 env) (route_ok2 env)
               target tunName physicalGateway r
         | other_os s \<Rightarrow> (None, windows_SetupRoutes tunName vpnServerIP r))"

definition RestoreRoutes :: "os_env \<Rightarrow> Router \<Rightarrow> command list" where
  "RestoreRoutes env r =
     (case goos env of
        linux \<Rightarrow> linux_RestoreRoutes r | darwin \<Rightarrow> darwin_RestoreRoutes r | other_os s \<Rightarrow> windows_RestoreRoutes r)"

definition SetupDNS :: "os_env \<Rightarrow> string list \<Rightarrow> Router \<Rightarrow> Router \<times> command list" where
  "SetupDNS env dnsServers r =
     (case goos env of darwin \<Rightarrow> darwin_SetupDNS (networkservices env) dnsServers r | _ \<Rightarrow> (r, []))"

definition RestoreDNS :: "os_env \<Rightarrow> Router \<Rightarrow> command list" where
  "RestoreDNS env r = (case goos env of darwin \<Rightarrow> darwin_RestoreDNS r | _ \<Rightarrow> [])"

definition ks_Enable :: "os_env \<Rightarrow> KillSwitch \<Rightarrow> KillSwitch \<times> command list" where
  "ks_Enable env ks = snd (KillSwitch_Enable (goos env) (pf_tmp env) (pf_write env) (pf_load env) ks)"

definition ks_Disable :: "os_env \<Rightarrow> KillSwitch \<Rightarrow> KillSwitch \<times> command list" where
  "ks_Disable env ks = snd (KillSwitch_Disable (goos env) ks)"

text \<open>
  Routes, name servers and kill switch for a new tunnel, the same lines in \<open>antclient\<close> and
  \<open>ant-daemon\<close>; the errors of the three calls are ignored.
\<close>

definition setup_network ::
  "os_env \<Rightarrow> string \<Rightarrow> string \<Rightarrow> bool \<Rightarrow> Router \<times> KillSwitch option \<times> command list" where
  "setup_network env tunName serverAddr enableKillSwitch =
     (let (host, portStr) = (case SplitHostPort serverAddr of Some (h, p) \<Rightarrow> (h, p) | None \<Rightarrow> (serverAddr, ''8443''));
          port = Atoi portStr;
          (e, r1, c1) = SetupRoutes env tunName host [] NewPlatformRouter;
          (r2, c2) = SetupDNS env [''1.1.1.1'', ''1.0.0.1''] r1
      in if enableKillSwitch then
           let (ks, c3) = ks_Enable env (NewKillSwitch tunName host port) in (r2, Some ks, c1 @ c2 @ c3)
         else (r2, None, c1 @ c2))"

section \<open>Lemmas\<close>

lemma cut_name_append: "CHR 0x00 \<notin> set s \<Longrightarrow> cut_name (s @ CHR 0x00 # t) = s"
  by (induction s) auto

text \<open>A kernel that accepts the requested name gives the device that name, when it is short enough for the request.\<close>

lemma linux_CreateTUN_name:
  assumes "CHR 0x00 \<notin> set name" "name \<noteq> []" "length name < 16"
  shows "CreateTUN (env\<lparr>goos := linux, tun_open_err := None, tun_ioctl := Inr\<rparr>) name 1420
    = Some (Inr name, [[''ip'', ''link'', ''set'', ''dev'', name, ''mtu'', ''1420'', ''up'']])"
proof -
  obtain k where "16 - length name = Suc k" using assms(3) by (metis Suc_diff_Suc)
  then have "go_copy (replicate 16 CHR 0x00) name = name @ CHR 0x00 # replicate k CHR 0x00"
    using assms(3) by (simp add: go_copy_def drop_replicate)
  moreover have "fmt_d 1420 = ''1420''" by code_simp
  ultimately show ?thesis
    using assms cut_name_append [OF assms(1), of "replicate k CHR 0x00"] by (simp add: CreateTUN_def linux_CreateTUN_def Let_def)
qed

text \<open>A Linux host, for the witnesses.\<close>

definition demo_os :: os_env where
  "demo_os = \<lparr>goos = linux, tun_open_err = None, tun_ioctl = Inr, utun_socket = None, utun_ctlinfo = None, utun_connect = None,
     utun_getsockopt = Inl ErrRandom, LookupIP = (\<lambda>_. None), To4 = (\<lambda>_. None), ParseIP = (\<lambda>_. None), IsLoopback = (\<lambda>_. False),
     IP_String = ip_string, route_out = Inl ErrRandom, route_ok1 = True, route_ok2 = True, networkservices = Inl ErrRandom,
     pf_tmp = Inl ErrRandom, pf_write = (\<lambda>_. None), pf_load = None\<rparr>"

lemma demo_os_tun:
  "CreateTUN demo_os ''ant0'' DefaultMTU = Some (Inr ''ant0'', [[''ip'', ''link'', ''set'', ''dev'', ''ant0'', ''mtu'', ''1420'', ''up'']])"
  "CreateTUN demo_os ''ant1'' DefaultMTU = Some (Inr ''ant1'', [[''ip'', ''link'', ''set'', ''dev'', ''ant1'', ''mtu'', ''1420'', ''up'']])"
  by code_simp+

end
