(* ===== verification/Ant_Client.thy ===== *)
theory Ant_Client
  imports Ant_Tunnel Ant_Address Ant_Platform
begin

text \<open>
  \<open>cmd/antclient/main.go\<close>, and what the three clients (\<open>antclient\<close>,
  \<open>ant-daemon\<close>, the mobile bridge) share: the handshake over a transport and the
  check of an incoming packet. The network is an argument: what \<open>Send\<close> returns and
  what \<open>Receive\<close> then puts into the buffer, given the message sent.
  \<open>cl_sent\<close> records the later calls of \<open>Transport.Send\<close> and \<open>cl_tun\<close>
  the packets handed to the TUN device, whose errors the code ignores. A nil \<open>*net.UDPAddr\<close>
  (an address that does not resolve) is \<open>None\<close>.
\<close>

section \<open>Handshake\<close>

type_synonym network = "bytes \<Rightarrow> go_error option \<times> (go_error + PacketBuffer)"

datatype hs_error =
    HsInit go_error     \<comment> \<open>no initiator state\<close>
  | HsCreate go_error   \<comment> \<open>no initiation message\<close>
  | HsSend go_error     \<comment> \<open>message not sent\<close>
  | HsReceive go_error  \<comment> \<open>nothing received\<close>
  | HsAuth go_error     \<comment> \<open>response rejected\<close>
  | HsSession go_error  \<comment> \<open>no session from the keys\<close>

text \<open>A pooled buffer, as \<open>buffer.Get\<close> hands it out.\<close>

definition pooled :: PacketBuffer where
  "pooled = Reset (pool_New GlobalPool)"

text \<open>\<open>check_send\<close>: does the caller stop when \<open>Send\<close> fails (\<open>antclient\<close>), or go on to \<open>Receive\<close> (the others).\<close>

definition client_handshake ::
  "prims \<Rightarrow> bool \<Rightarrow> PrivateKey \<Rightarrow> PublicKey \<Rightarrow> bytes \<Rightarrow> bytes option \<Rightarrow> int \<Rightarrow> network \<Rightarrow> net_addr option
     \<Rightarrow> (hs_error + Session) go" where
  "client_handshake P check_send clientPriv serverPub idx eph now net targetAddr =
     (let clientIndex = GenerateIndex idx in
      case NewInitiatorHandshake P clientPriv serverPub clientIndex eph of
        Inl e \<Rightarrow> Some (Inl (HsInit e))
      | Inr initiator \<Rightarrow>
          (case CreateInitiation P initiator now of
             (Inl e, _) \<Rightarrow> Some (Inl (HsCreate e))
           | (Inr initMsg, initiator1) \<Rightarrow> do {
               sent \<leftarrow> Bytes (fill pooled initMsg);
               (case net sent of
                  (send_err, received) \<Rightarrow>
                    if check_send \<and> send_err \<noteq> None then Some (Inl (HsSend (the send_err)))
                    else (case received of
                            Inl e \<Rightarrow> Some (Inl (HsReceive e))
                          | Inr respBuf \<Rightarrow> do {
                              resp \<leftarrow> Bytes respBuf;
                              (case fst (ConsumeResponse P initiator1 resp) of
                                 Inl e \<Rightarrow> Some (Inl (HsAuth e))
                               | Inr keys \<Rightarrow>
                                   (case NewSession keys targetAddr CipherChaCha20Poly1305 now of
                                      Inl e \<Rightarrow> Some (Inl (HsSession e))
                                    | Inr session \<Rightarrow> Some (Inr session)))
                            }))
             }))"

section \<open>Packets\<close>

text \<open>
  Header, receiver index and authentication of a received packet, the same in the three ingress loops: the new
  state of the session, and the header and plaintext if the packet is accepted.
\<close>

definition open_packet :: "prims \<Rightarrow> int \<Rightarrow> Session \<Rightarrow> PacketBuffer \<Rightarrow> (Session \<times> (Header \<times> PacketBuffer) option) go" where
  "open_packet P now s buf = do {
     sh \<leftarrow> StripHeader buf;
     (case sh of
        (Inl e, buf1) \<Rightarrow> Some (s, None)
      | (Inr h, buf1) \<Rightarrow>
          if ReceiverIndex h \<noteq> LocalIndex s then Some (s, None)
          else do {
            d \<leftarrow> DecryptPacket P s buf1 h now;
            (case d of (e, s1, buf2) \<Rightarrow> Some (s1, if e \<noteq> None then None else Some (h, buf2)))
          })
   }"

record client =
  cl_session :: Session
  cl_sent :: "(net_addr option \<times> bytes) list"
  cl_tun :: "bytes list"

text \<open>One round of each loop. The boolean tells whether the loop goes on.\<close>

definition client_egress ::
  "prims \<Rightarrow> int \<Rightarrow> net_addr option \<Rightarrow> go_error + PacketBuffer \<Rightarrow> client \<Rightarrow> (bool \<times> client) go" where
  "client_egress P now targetAddr rd cl =
     (case rd of
        Inl e \<Rightarrow> Some (False, cl)
      | Inr buf \<Rightarrow> do {
          enc \<leftarrow> EncryptPacket P (cl_session cl) buf TypeData 0 now;
          (case enc of
             (e, s, buf1) \<Rightarrow>
               let cl1 = cl\<lparr>cl_session := s\<rparr>
               in if e \<noteq> None then Some (True, cl1)
                  else do {
                    out \<leftarrow> Bytes buf1;
                    Some (True, cl1\<lparr>cl_sent := cl_sent cl1 @ [(targetAddr, out)]\<rparr>)
                  })
        })"

definition client_ingress ::
  "prims \<Rightarrow> bool \<Rightarrow> bool \<Rightarrow> int \<Rightarrow> go_error + PacketBuffer \<Rightarrow> client \<Rightarrow> (bool \<times> client) go" where
  "client_ingress P tunDev stopped now received cl =
     (case received of
        Inl e \<Rightarrow> Some (\<not> stopped, cl)
      | Inr buf \<Rightarrow> do {
          r \<leftarrow> open_packet P now (cl_session cl) buf;
          (case r of
             (s, pkt) \<Rightarrow>
               let cl1 = cl\<lparr>cl_session := s\<rparr>
               in case pkt of
                    None \<Rightarrow> Some (True, cl1)
                  | Some (h, buf1) \<Rightarrow>
                      Some (True, if Type h = TypeData \<and> tunDev then cl1\<lparr>cl_tun := cl_tun cl1 @ [content buf1]\<rparr> else cl1))
        })"

definition client_keepalive :: "prims \<Rightarrow> int \<Rightarrow> net_addr option \<Rightarrow> client \<Rightarrow> client go" where
  "client_keepalive P now targetAddr cl = do {
     enc \<leftarrow> EncryptPacket P (cl_session cl) (pooled\<lparr>Length := 0\<rparr>) TypeKeepalive 0 now;
     (case enc of
        (e, s, buf1) \<Rightarrow> do {
          out \<leftarrow> Bytes buf1;
          Some (cl\<lparr>cl_session := s, cl_sent := cl_sent cl @ [(targetAddr, out)]\<rparr>)
        })
   }"

section \<open>Start and stop of \<open>antclient\<close>\<close>

record client_flags =
  fl_server :: string
  fl_key :: string
  fl_url :: string
  fl_transport :: string
  fl_sni :: string
  fl_tun :: string
  fl_ip :: string
  fl_peer_ip :: string
  fl_routes :: bool
  fl_killswitch :: bool
  fl_args :: "string list"

definition default_flags :: client_flags where
  "default_flags = \<lparr>fl_server = ''127.0.0.1:8443'', fl_key = [], fl_url = [], fl_transport = ''tls'', fl_sni = ''gateway.internal'',
     fl_tun = ''ant1'', fl_ip = ''10.8.0.2'', fl_peer_ip = ''10.8.0.1'', fl_routes = False, fl_killswitch = False, fl_args = []\<rparr>"

text \<open>The ways the process exits with status 1.\<close>

datatype client_exit =
    ExitURL go_error | ExitNoKey | ExitKey go_error | ExitKeyGen go_error | ExitMode string
  | ExitTransport go_error | ExitResolve go_error | ExitHandshake hs_error

definition client_config :: "client_flags \<Rightarrow> client_exit + client_flags" where
  "client_config fl =
     (let rawURL = (if fl_url fl = [] \<and> 0 < length (fl_args fl) \<and> HasPrefix (hd (fl_args fl)) ''ant://'' then hd (fl_args fl)
                    else fl_url fl)
      in case (if rawURL \<noteq> [] then
                 (case ParseURL rawURL of
                    Inl e \<Rightarrow> Inl (ExitURL e)
                  | Inr (pk, h, tm, sn) \<Rightarrow>
                      Inr (fl\<lparr>fl_key := pk, fl_server := h, fl_transport := (if tm \<noteq> [] then tm else fl_transport fl),
                              fl_sni := (if sn \<noteq> [] then sn else fl_sni fl)\<rparr>))
               else Inr fl) of
           Inl e \<Rightarrow> Inl e
         | Inr fl1 \<Rightarrow> if fl_key fl1 = [] then Inl ExitNoKey else Inr fl1)"

text \<open>The transport to open, with the arguments of its constructor.\<close>

datatype dial = DialUDP string | DialTLS string string | DialWS string string string

definition client_transport :: "string \<Rightarrow> string \<Rightarrow> string \<Rightarrow> dial option" where
  "client_transport transMode serverAddr sni =
     (if transMode = ''udp'' then Some (DialUDP '':0'')
      else if transMode = ''tls'' then Some (DialTLS serverAddr sni)
      else if transMode = ''ws'' then Some (DialWS (''wss://'' @ serverAddr @ ''/ws'') (''https://'' @ sni) sni)
      else None)"

text \<open>
  What the surroundings of a client decide: the platform, the transport (whether it opens, and the network behind
  it), the resolution of the server's address, the random bytes and the clock.
\<close>

record client_env =
  ce_os :: os_env
  ce_open :: "dial \<Rightarrow> go_error option"
  ce_net :: network
  ce_resolve :: "string \<Rightarrow> go_error + net_addr"
  ce_static :: "bytes option"
  ce_idx :: bytes
  ce_eph :: "bytes option"
  ce_now :: int

record running =
  rn_client :: client
  rn_target :: "net_addr option"
  rn_tun :: "string option"
  rn_router :: "Router option"
  rn_ks :: "KillSwitch option"

definition target_of :: "go_error + net_addr \<Rightarrow> net_addr option" where
  "target_of r = (case r of Inl e \<Rightarrow> None | Inr a \<Rightarrow> Some a)"

text \<open>Steps 3 and 4 of \<open>main\<close>: the device and the network of the host.\<close>

definition client_devices :: "os_env \<Rightarrow> client_flags \<Rightarrow> (string option \<times> Router option \<times> KillSwitch option \<times> command list) go" where
  "client_devices os fl = do {
     (res, c1) \<leftarrow> CreateTUN os (fl_tun fl) DefaultMTU;
     (case res of
        Inl e \<Rightarrow> Some (None, None, None, c1)
      | Inr name \<Rightarrow>
          let c2 = ConfigureIP os name (fl_ip fl) (fl_peer_ip fl)
          in if fl_routes fl then
               (case setup_network os name (fl_server fl) (fl_killswitch fl) of
                  (r, ks, c3) \<Rightarrow> Some (Some name, Some r, ks, c1 @ c2 @ c3))
             else Some (Some name, None, None, c1 @ c2))
   }"

definition antclient_start ::
  "prims \<Rightarrow> client_env \<Rightarrow> client_flags \<Rightarrow> (client_exit + (running \<times> command list)) go" where
  "antclient_start P env fl0 =
     (case client_config fl0 of
        Inl e \<Rightarrow> Some (Inl e)
      | Inr fl \<Rightarrow>
          (case ParsePublicKey (fl_key fl) of
             Inl e \<Rightarrow> Some (Inl (ExitKey e))
           | Inr serverPub \<Rightarrow>
               (case GenerateKeyPair P (ce_static env) of
                  Inl e \<Rightarrow> Some (Inl (ExitKeyGen e))
                | Inr (clientPriv, _) \<Rightarrow>
                    (case client_transport (fl_transport fl) (fl_server fl) (fl_sni fl) of
                       None \<Rightarrow> Some (Inl (ExitMode (fl_transport fl)))
                     | Some d \<Rightarrow>
                         (case ce_open env d of
                            Some e \<Rightarrow> Some (Inl (ExitTransport e))
                          | None \<Rightarrow>
                              let resolved = ce_resolve env (fl_server fl);
                                  targetAddr = target_of resolved
                              in if targetAddr = None \<and> fl_transport fl = ''udp''
                                 then Some (Inl (ExitResolve (projl resolved)))
                                 else do {
                                   hs \<leftarrow> client_handshake P True clientPriv serverPub (ce_idx env) (ce_eph env) (ce_now env)
                                           (ce_net env) targetAddr;
                                   (case hs of
                                      Inl e \<Rightarrow> Some (Inl (ExitHandshake e))
                                    | Inr session \<Rightarrow> do {
                                        (tunDev, rtr, ks, cmds) \<leftarrow> client_devices (ce_os env) fl;
                                        Some (Inr (\<lparr>rn_client = \<lparr>cl_session = session, cl_sent = [], cl_tun = []\<rparr>,
                                                   rn_target = targetAddr, rn_tun = tunDev, rn_router = rtr, rn_ks = ks\<rparr>, cmds))
                                      })
                                 })))))"

text \<open>The deferred calls when a signal ends \<open>main\<close>, last one first.\<close>

definition antclient_stop :: "os_env \<Rightarrow> running \<Rightarrow> running \<times> command list" where
  "antclient_stop os rn =
     (let (ks, c1) = (case rn_ks rn of None \<Rightarrow> (None, []) | Some k \<Rightarrow> map_prod Some id (ks_Disable os k));
          c2 = (case rn_router rn of None \<Rightarrow> [] | Some r \<Rightarrow> RestoreDNS os r);
          c3 = (case rn_router rn of None \<Rightarrow> [] | Some r \<Rightarrow> RestoreRoutes os r)
      in (rn\<lparr>rn_ks := ks, rn_tun := None,
             rn_client := (rn_client rn)\<lparr>cl_session := Session_Wipe (cl_session (rn_client rn))\<rparr>\<rparr>, c1 @ c2 @ c3))"

section \<open>Accepting a packet\<close>

lemma open_packet_total:
  assumes "RecvCipher s = Some c" "wf_buf b"
  obtains s' pkt where "open_packet P now s b = Some (s', pkt)" "RecvCipher s' = RecvCipher s" "SendCipher s' = SendCipher s"
    "LocalIndex s' = LocalIndex s" "RemoteIndex s' = RemoteIndex s" "sendCounter s' = sendCounter s"
  using assms(2)
proof (cases rule: StripHeader_cases)
  case (1 e b1)
  then show ?thesis using that [of s None] by (simp add: open_packet_def)
next
  case (2 h b1)
  from DecryptPacket_total [OF assms(1) 2(2), of P h now] obtain e s' b2 where d:
    "DecryptPacket P s b1 h now = Some (e, s', b2)" by blast
  show ?thesis
  proof (cases "ReceiverIndex h = LocalIndex s")
    case True
    then show ?thesis using that [of s' "if e \<noteq> None then None else Some (h, b2)"] 2 d DecryptPacket_frame [OF d]
      by (simp add: open_packet_def)
  next
    case False
    then show ?thesis using that [of s None] 2 by (simp add: open_packet_def)
  qed
qed

lemma open_packet_frame:
  assumes "open_packet P now s b = Some (s', pkt)"
  shows "RecvCipher s' = RecvCipher s \<and> SendCipher s' = SendCipher s \<and> LocalIndex s' = LocalIndex s
    \<and> RemoteIndex s' = RemoteIndex s \<and> sendCounter s' = sendCounter s"
proof -
  obtain res b1 where sh: "StripHeader b = Some (res, b1)" using assms by (auto simp: open_packet_def bind_eq_Some_conv)
  show ?thesis
  proof (cases res)
    case (Inl e)
    then show ?thesis using assms sh by (simp add: open_packet_def)
  next
    case (Inr h)
    then show ?thesis using assms sh
      by (auto simp: open_packet_def bind_eq_Some_conv dest: DecryptPacket_frame split: if_splits prod.splits)
  qed
qed

lemma open_packet_out_wf:
  assumes wf: "wf_buf b" and run: "open_packet P now s b = Some (s', Some (h, b'))"
  shows "wf_buf b'"
  using wf
proof (cases rule: StripHeader_cases)
  case (1 e b1)
  then show ?thesis using run by (simp add: open_packet_def)
next
  case (2 g b1)
  have dec: "DecryptPacket P s b1 g now = Some (None, s', b')"
    using run 2 by (auto simp: open_packet_def bind_eq_Some_conv split: if_splits)
  show ?thesis
  proof (cases "RecvCipher s")
    case None
    then show ?thesis using dec DecryptInPlace_nil [of b1 P] DecryptInPlace_short [of b1 P None] 2(2)
      by (cases "TagSize \<le> Length b1") (auto simp: DecryptPacket_def Let_def case_prod_beta split: if_splits)
  next
    case (Some c)
    from DecryptPacket_total [OF Some 2(2), of P g now] dec show ?thesis by auto
  qed
qed

lemma open_packet_genuine:
  assumes A: "aead_ok P" and c: "RecvCipher s = Some c" "cipher_ok c" and b: "carries P c h pt b"
    and idx: "ReceiverIndex h = LocalIndex s" and fresh: "fst (CheckAndSet (replay s) (Counter h))"
  shows "\<exists>b'. open_packet P now s b
      = Some (s\<lparr>replay := snd (CheckAndSet (replay s) (Counter h)), LastActive := now\<rparr>, Some (h, b')) \<and> content b' = pt"
proof -
  from carries_strip [OF b] obtain b1 where b1: "StripHeader b = Some (Inr h, b1)" "wf_buf b1"
    "content b1 = seal P (suite c) (aead_key c) (nonce_of (Counter h)) pt (header_bytes h)" by blast
  from DecryptPacket_ok [OF A c b1(2) fresh b1(3), of now] show ?thesis
    using b1(1) idx by (auto simp: open_packet_def)
qed

lemma open_packet_replayed:
  assumes b: "carries P c h pt b" and fresh: "\<not> fst (CheckAndSet (replay s) (Counter h))"
  shows "\<exists>s'. open_packet P now s b = Some (s', None)"
  using carries_strip [OF b] DecryptPacket_replayed [OF fresh, of P _ now] by (auto simp: open_packet_def)

lemma open_packet_authentic:
  assumes A: "aead_ok P" and c: "RecvCipher s = Some c" "cipher_ok c" and wf: "wf_buf b"
    and run: "open_packet P now s b = Some (s', Some (h, b'))"
  shows "ReceiverIndex h = LocalIndex s \<and> fst (CheckAndSet (replay s) (Counter h)) \<and> carries P c h (content b') b"
  using wf
proof (cases rule: StripHeader_cases)
  case (1 e b1)
  then show ?thesis using run by (simp add: open_packet_def)
next
  case (2 g b1)
  from DecryptPacket_total [OF c(1) 2(2), of P g now] obtain e s1 b2 where d:
    "DecryptPacket P s b1 g now = Some (e, s1, b2)" "e = None \<longrightarrow> fst (CheckAndSet (replay s) (Counter g))" by blast
  have idx: "ReceiverIndex g = LocalIndex s" using run 2 by (auto simp: open_packet_def split: if_splits)
  then have e: "e = None" "h = g" "b' = b2" using run 2 d by (auto simp: open_packet_def split: if_splits)
  have "content b1 = seal P (suite c) (aead_key c) (nonce_of (Counter g)) (content b2) (header_bytes g)"
    using DecryptPacket_authentic [OF A c 2(2)] d(1) e by blast
  moreover have "content b = header_bytes g @ content b1" using StripHeader_Inr(1) [OF wf] 2 by blast
  ultimately show ?thesis using idx d(2) e wf by (simp add: carries_def)
qed

section \<open>Interface of a tunnel endpoint\<close>

text \<open>
  What the clients have in common. An endpoint that is \<open>up\<close> has a session; \<open>send\<close> encrypts one packet and
  passes it to the transport, \<open>recv\<close> opens one packet from the transport and passes the payload of data packets on.
\<close>

locale tunnel_endpoint =
  fixes up :: "'s \<Rightarrow> bool" and sess :: "'s \<Rightarrow> Session" and sent :: "'s \<Rightarrow> bytes list" and got :: "'s \<Rightarrow> bytes list"
    and send :: "prims \<Rightarrow> int \<Rightarrow> PacketBuffer \<Rightarrow> 's \<Rightarrow> 's go"
    and recv :: "prims \<Rightarrow> int \<Rightarrow> PacketBuffer \<Rightarrow> 's \<Rightarrow> 's go"
  assumes send_ok: "up st \<Longrightarrow> EncryptPacket P (sess st) b TypeData 0 now = Some (None, s, w) \<Longrightarrow> wf_buf w \<Longrightarrow>
      \<exists>st'. send P now b st = Some st' \<and> up st' \<and> sess st' = s \<and> sent st' = sent st @ [content w] \<and> got st' = got st"
    and recv_ok: "up st \<Longrightarrow> wf_buf b \<Longrightarrow> open_packet P now (sess st) b = Some (s, pkt) \<Longrightarrow>
      \<exists>st'. recv P now b st = Some st' \<and> up st' \<and> sess st' = s \<and> sent st' = sent st
        \<and> got st' = got st @ (case pkt of Some (h, b') \<Rightarrow> if Type h = TypeData then [content b'] else [] | None \<Rightarrow> [])"
begin

lemma send_carries:
  assumes "aead_ok P" "up st" "SendCipher (sess st) = Some c" "cipher_ok c" "has_room b"
  shows "\<exists>st' w. send P now b st = Some st' \<and> up st' \<and> got st' = got st
    \<and> sess st' = (sess st)\<lparr>sendCounter := sendCounter (sess st) + 1, LastActive := now\<rparr>
    \<and> sent st' = sent st @ [content w] \<and> carries P c (out_header (sess st) TypeData 0) (content b) w"
proof -
  from EncryptPacket_ok [OF assms(1,3,4,5), of TypeData 0 now] obtain w where w:
    "EncryptPacket P (sess st) b TypeData 0 now
       = Some (None, (sess st)\<lparr>sendCounter := sendCounter (sess st) + 1, LastActive := now\<rparr>, w)"
    "carries P c (out_header (sess st) TypeData 0) (content b) w" "wf_buf w" by (auto simp: carries_def)
  from send_ok [OF assms(2) w(1,3)] w(2) show ?thesis by blast
qed

lemma recv_total:
  assumes "up st" "live (sess st)" "wf_buf b"
  shows "\<exists>st'. recv P now b st = Some st' \<and> up st' \<and> live (sess st') \<and> LocalIndex (sess st') = LocalIndex (sess st)"
proof -
  obtain c where c: "RecvCipher (sess st) = Some c" using assms(2) by (auto simp: live_def)
  obtain s pkt where o: "open_packet P now (sess st) b = Some (s, pkt)" "RecvCipher s = RecvCipher (sess st)"
    "SendCipher s = SendCipher (sess st)" "LocalIndex s = LocalIndex (sess st)"
    by (rule open_packet_total [OF c assms(3), of P now]) blast
  from recv_ok [OF assms(1,3) o(1)] o(2-4) assms(2) show ?thesis by (auto simp: live_def)
qed

lemma recv_authentic:
  assumes A: "aead_ok P" and up: "up st" and live: "live (sess st)" and wf: "wf_buf b"
    and run: "recv P now b st = Some st'" and new: "got st' \<noteq> got st"
  shows "\<exists>h c pt. RecvCipher (sess st) = Some c \<and> ReceiverIndex h = LocalIndex (sess st) \<and> Type h = TypeData
    \<and> fst (CheckAndSet (replay (sess st)) (Counter h)) \<and> carries P c h pt b \<and> got st' = got st @ [pt]"
proof -
  obtain c where c: "RecvCipher (sess st) = Some c" "cipher_ok c" using live by (auto simp: live_def)
  obtain s pkt where o: "open_packet P now (sess st) b = Some (s, pkt)"
    by (rule open_packet_total [OF c(1) wf, of P now]) blast
  from recv_ok [OF up wf o] run have g:
    "got st' = got st @ (case pkt of Some (h, b') \<Rightarrow> if Type h = TypeData then [content b'] else [] | None \<Rightarrow> [])" by auto
  then obtain h b' where pkt: "pkt = Some (h, b')" "Type h = TypeData" "got st' = got st @ [content b']"
    using new by (cases pkt) (auto split: prod.splits if_splits)
  from open_packet_authentic [OF A c wf] o pkt show ?thesis using c(1) by blast
qed

text \<open>Packets that carry the plaintexts \<open>pt q\<close> under the counters \<open>qs\<close> are delivered when the replay window accepts them.\<close>

lemma feed_carries:
  assumes A: "aead_ok P" and "up st" "RecvCipher (sess st) = Some c" "cipher_ok c"
    and "list_all2 (\<lambda>w q. carries P c (hq q) (pt q) w \<and> Counter (hq q) = q
           \<and> ReceiverIndex (hq q) = LocalIndex (sess st) \<and> Type (hq q) = TypeData) ws qs"
  shows "\<exists>st'. feed (recv P now) ws st = Some st' \<and> up st' \<and> sent st' = sent st
    \<and> got st' = got st @ map pt (accepted_run (replay (sess st)) qs)"
  using assms(2,3,5)
proof (induction ws arbitrary: st qs)
  case Nil
  then show ?case by simp
next
  case (Cons w ws)
  from Cons.prems(3) obtain q qs' where q: "qs = q # qs'" "carries P c (hq q) (pt q) w" "Counter (hq q) = q"
    "ReceiverIndex (hq q) = LocalIndex (sess st)" "Type (hq q) = TypeData"
    "list_all2 (\<lambda>w q. carries P c (hq q) (pt q) w \<and> Counter (hq q) = q
           \<and> ReceiverIndex (hq q) = LocalIndex (sess st) \<and> Type (hq q) = TypeData) ws qs'"
    by (auto simp: list_all2_Cons1)
  have wf: "wf_buf w" using q(2) by (simp add: carries_def)
  have step: "\<exists>st1. recv P now w st = Some st1 \<and> up st1 \<and> sent st1 = sent st \<and> RecvCipher (sess st1) = Some c
      \<and> LocalIndex (sess st1) = LocalIndex (sess st) \<and> replay (sess st1) = snd (CheckAndSet (replay (sess st)) q)
      \<and> got st1 = got st @ (if fst (CheckAndSet (replay (sess st)) q) then [pt q] else [])"
  proof (cases "fst (CheckAndSet (replay (sess st)) q)")
    case True
    from open_packet_genuine [OF A Cons.prems(2) assms(4) q(2,4), of now] True q(3) obtain b' where o:
      "open_packet P now (sess st) w
         = Some ((sess st)\<lparr>replay := snd (CheckAndSet (replay (sess st)) q), LastActive := now\<rparr>, Some (hq q, b'))"
      "content b' = pt q" by auto
    from recv_ok [OF Cons.prems(1) wf o(1)] show ?thesis using True o(2) q(5) Cons.prems(2) by auto
  next
    case False
    from carries_strip [OF q(2)] obtain w1 where w1: "StripHeader w = Some (Inr (hq q), w1)" by blast
    have "open_packet P now (sess st) w = Some ((sess st)\<lparr>replay := snd (CheckAndSet (replay (sess st)) q)\<rparr>, None)"
      using w1 q(3,4) DecryptPacket_replayed [of "sess st" "hq q" P w1 now] False by (simp add: open_packet_def)
    from recv_ok [OF Cons.prems(1) wf this] show ?thesis using False Cons.prems(2) by auto
  qed
  then obtain st1 where st1: "recv P now w st = Some st1" "up st1" "sent st1 = sent st" "RecvCipher (sess st1) = Some c"
    "LocalIndex (sess st1) = LocalIndex (sess st)" "replay (sess st1) = snd (CheckAndSet (replay (sess st)) q)"
    "got st1 = got st @ (if fst (CheckAndSet (replay (sess st)) q) then [pt q] else [])" by blast
  from Cons.IH [OF st1(2,4), of qs'] q(6) st1 show ?case by (auto simp: q(1) split: prod.splits)
qed

text \<open>Everything a paired sender encrypts arrives, once and in order, when the network keeps the order.\<close>

lemma stream_delivered:
  assumes A: "aead_ok P" and up: "up st" and pr: "paired s (sess st)" and zero: "sendCounter s = 0"
    and new: "replay (sess st) = new_ReplayWindow" and room: "list_all has_room bs" and few: "length bs \<le> 2 ^ 64"
  shows "\<exists>ws st'. send_run P t1 TypeData fl s bs = Some ws \<and> feed (recv P t2) ws st = Some st'
    \<and> got st' = got st @ map content bs"
proof -
  obtain c where c: "SendCipher s = Some c" "RecvCipher (sess st) = Some c" "cipher_ok c" "RemoteIndex s = LocalIndex (sess st)"
    using pr by (auto simp: paired_def)
  from send_run_carries [OF A c(1,3) room, of t1 TypeData fl] obtain ws where ws:
    "send_run P t1 TypeData fl s bs = Some ws" "length ws = length bs"
    "\<And>i. i < length bs \<Longrightarrow> carries P c (out_header (s\<lparr>sendCounter := sendCounter s + of_nat i\<rparr>) TypeData fl) (content (bs ! i)) (ws ! i)"
    by blast
  let ?h = "\<lambda>q. out_header (s\<lparr>sendCounter := q\<rparr>) TypeData fl" and ?pt = "\<lambda>q :: u64. content (bs ! unat q)"
  have "list_all2 (\<lambda>w q. carries P c (?h q) (?pt q) w \<and> Counter (?h q) = q \<and> ReceiverIndex (?h q) = LocalIndex (sess st)
      \<and> Type (?h q) = TypeData) ws (map of_nat [0..<length bs])"
    using ws zero c(4) unat_of_nat64 [OF _ few] by (simp add: list_all2_conv_all_nth)
  from feed_carries [where pt = ?pt and hq = ?h and now = t2, OF A up c(2,3) this] obtain st' where
    "feed (recv P t2) ws st = Some st'" "got st' = got st @ map ?pt (map of_nat [0..<length bs])"
    unfolding new accepted_run_in_order [OF few] by blast
  moreover have "map ?pt (map of_nat [0..<length bs]) = map content bs"
    using unat_of_nat64 [OF _ few] by (auto intro!: nth_equalityI)
  ultimately show ?thesis using ws(1) by auto
qed

end

text \<open>The loops of \<open>antclient\<close>, with a TUN device.\<close>

definition client_send :: "net_addr option \<Rightarrow> prims \<Rightarrow> int \<Rightarrow> PacketBuffer \<Rightarrow> client \<Rightarrow> client go" where
  "client_send targetAddr P now b cl = map_option snd (client_egress P now targetAddr (Inr b) cl)"

definition client_recv :: "prims \<Rightarrow> int \<Rightarrow> PacketBuffer \<Rightarrow> client \<Rightarrow> client go" where
  "client_recv P now b cl = map_option snd (client_ingress P True False now (Inr b) cl)"

interpretation antclient: tunnel_endpoint "\<lambda>_. True" cl_session "\<lambda>cl. map snd (cl_sent cl)" cl_tun "client_send targetAddr" client_recv
proof (unfold_locales, goal_cases)
  case (1 st P b now s w)
  then show ?case by (simp add: client_send_def client_egress_def Let_def)
next
  case (2 st P now b s pkt)
  then show ?case by (auto simp: client_recv_def client_ingress_def Let_def split: option.splits)
qed

section \<open>The handshake of a client\<close>

lemma pooled_cap [simp]: "length (Data pooled) = 2048" "Offset pooled = 0" "Length pooled = 0"
  by (simp_all add: pooled_def pool_New_def GlobalPool_def NewPool_def DefaultBufferSize_def Reset_def)

lemma fill_pooled:
  assumes "length m \<le> 2048"
  shows "wf_buf (fill pooled m)" "content (fill pooled m) = m" "Length (fill pooled m) = length m"
  using fill_fits [of m pooled] assms by simp_all

lemma carries_fill_pooled: "carries P c h pt w \<Longrightarrow> length (content w) \<le> 2048 \<Longrightarrow> carries P c h pt (fill pooled (content w))"
  by (simp add: carries_def fill_pooled)

text \<open>What the clients rely on of the network: \<open>Receive\<close> leaves a well-formed buffer.\<close>

definition net_ok :: "network \<Rightarrow> bool" where
  "net_ok net \<longleftrightarrow> (\<forall>m b. snd (net m) = Inr b \<longrightarrow> wf_buf b)"

lemma client_handshake_total:
  assumes A: "aead_ok P" and D: "dh_ok P" and a: "length a = 32" and net: "net_ok net"
  shows "\<exists>r. client_handshake P chk a peer idx eph now net target = Some r \<and> (\<forall>s. r = Inr s \<longrightarrow> live s)"
proof (cases "NewInitiatorHandshake P a peer (GenerateIndex idx) eph")
  case (Inl e)
  then show ?thesis by (simp add: client_handshake_def)
next
  case (Inr ih)
  obtain res ih1 where c: "CreateInitiation P ih now = (res, ih1)" by fastforce
  show ?thesis
  proof (cases res)
    case (Inl e)
    then show ?thesis using Inr c by (simp add: client_handshake_def)
  next
    case (Inr msg)
    have "Bytes (fill pooled msg) = Some msg"
      using CreateInitiation_length [OF A D a \<open>NewInitiatorHandshake P a peer (GenerateIndex idx) eph = Inr ih\<close>] c Inr fill_pooled [of msg]
      by auto
    moreover obtain se rcv where n: "net msg = (se, rcv)" by fastforce
    moreover have "wf_buf b" if "rcv = Inr b" for b using net n that by (auto simp: net_ok_def) (metis snd_conv)
    ultimately show ?thesis
      using \<open>NewInitiatorHandshake P a peer (GenerateIndex idx) eph = Inr ih\<close> c Inr
      by (auto simp: client_handshake_def live_NewSession split: sum.split)
  qed
qed

text \<open>
  With a network behind which a responder answers, the handshake succeeds and the two sessions are
  paired both ways.
\<close>

lemma client_handshake_ok:
  assumes A: "aead_ok P" and D: "dh_ok P" and ab: "length a = 32" "length b = 32"
    and g1: "GenerateKeyPair P r1 = Inr (e, epub)" and g2: "GenerateKeyPair P r2 = Inr (f, fpub)"
    and es: "SharedSecret P e (PublicKey_of P b) = Inr es" and ss: "SharedSecret P a (PublicKey_of P b) = Inr ss"
    and ee: "SharedSecret P e fpub = Inr ee" and se: "SharedSecret P a fpub = Inr se"
    and net: "\<And>msg resp sks. length msg = NoiseHandshakeInitSize \<Longrightarrow> length resp = NoiseHandshakeRespSize
        \<Longrightarrow> length (SendKey sks) = 32 \<Longrightarrow> length (RecvKey sks) = 32 \<Longrightarrow> SenderID sks = si
        \<Longrightarrow> fst (ConsumeInitiation P (NewResponderHandshake P b si) msg r2) = Inr (resp, sks)
        \<Longrightarrow> net msg = (None, Inr (fill pooled resp))"
  shows "\<exists>cl msg resp sks. client_handshake P chk a (PublicKey_of P b) idx r1 now net target = Some (Inr cl)
    \<and> length msg = NoiseHandshakeInitSize \<and> length resp = NoiseHandshakeRespSize
    \<and> net msg = (None, Inr (fill pooled resp)) \<and> length (SendKey sks) = 32 \<and> length (RecvKey sks) = 32 \<and> SenderID sks = si
    \<and> fst (ConsumeInitiation P (NewResponderHandshake P b si) msg r2) = Inr (resp, sks)
    \<and> LocalIndex cl = GenerateIndex idx \<and> sendCounter cl = 0 \<and> replay cl = new_ReplayWindow
    \<and> (\<forall>addr t sv. NewSession sks addr CipherChaCha20Poly1305 t = Inr sv \<longrightarrow> paired cl sv \<and> paired sv cl)"
proof -
  from handshake_run [OF A D ab g1 g2 es ss ee se, of "GenerateIndex idx" now si]
  obtain ih msg ih1 resp sks rh skc ih2 where h:
    "NewInitiatorHandshake P a (PublicKey_of P b) (GenerateIndex idx) r1 = Inr ih"
    "CreateInitiation P ih now = (Inr msg, ih1)" "length msg = NoiseHandshakeInitSize"
    "ConsumeInitiation P (NewResponderHandshake P b si) msg r2 = (Inr (resp, sks), rh)"
    "length resp = NoiseHandshakeRespSize" "ConsumeResponse P ih1 resp = (Inr skc, ih2)"
    "SendKey skc = RecvKey sks" "RecvKey skc = SendKey sks" "length (SendKey skc) = 32" "length (RecvKey skc) = 32"
    "SenderID skc = GenerateIndex idx" "PeerID skc = si" "SenderID sks = si" "PeerID sks = GenerateIndex idx" by blast
  have n: "net msg = (None, Inr (fill pooled resp))" using net [OF h(3,5)] h by simp
  have out: "Bytes (fill pooled msg) = Some msg" "Bytes (fill pooled resp) = Some resp"
    using fill_pooled [of msg] fill_pooled [of resp] h(3,5) by simp_all
  obtain cl where cl: "NewSession skc target CipherChaCha20Poly1305 now = Inr cl" "LocalIndex cl = GenerateIndex idx"
    "sendCounter cl = 0" "replay cl = new_ReplayWindow"
    using NewSession_Inr [of skc CipherChaCha20Poly1305 target now] h by auto
  have "client_handshake P chk a (PublicKey_of P b) idx r1 now net target = Some (Inr cl)"
    using h out n cl by (simp add: client_handshake_def)
  moreover have "paired cl sv \<and> paired sv cl" if "NewSession sks addr CipherChaCha20Poly1305 t = Inr sv" for addr t sv
    using NewSession_paired [OF _ _ cl(1) that] NewSession_paired [OF _ _ that cl(1)] h by simp
  ultimately show ?thesis using h n cl by (intro exI [of _ cl] exI [of _ msg] exI [of _ resp] exI [of _ sks]) simp
qed

text \<open>A network with a responder behind it, and nothing else.\<close>

definition responder_net :: "prims \<Rightarrow> PrivateKey \<Rightarrow> u32 \<Rightarrow> bytes option \<Rightarrow> network" where
  "responder_net P b si r2 msg =
     (None, case fst (ConsumeInitiation P (NewResponderHandshake P b si) msg r2) of
              Inr (resp, _) \<Rightarrow> Inr (fill pooled (take 2048 resp))
            | Inl e \<Rightarrow> Inl (ErrOS ''timeout''))"

lemma responder_net_ok: "net_ok (responder_net P b si r2)"
  using fill_pooled(1) by (auto simp: net_ok_def responder_net_def split: sum.splits)

text \<open>A concrete run of the clients' handshake.\<close>

definition demo_server_pub :: PublicKey where
  "demo_server_pub = PublicKey_of demo_prims (replicate 32 3)"

definition demo_net :: network where
  "demo_net = responder_net demo_prims (replicate 32 3) 22 (Some (replicate 32 5))"

lemma demo_net_ok: "net_ok demo_net"
  unfolding demo_net_def by (rule responder_net_ok)

lemma demo_client_handshake:
  "\<exists>a apub cl. GenerateKeyPair demo_prims (Some (replicate 32 4)) = Inr (a, apub)
    \<and> client_handshake demo_prims chk a demo_server_pub idx (Some (replicate 32 4)) now demo_net target = Some (Inr cl)"
proof -
  obtain e epub f fpub where g: "GenerateKeyPair demo_prims (Some (replicate 32 4)) = Inr (e, epub)"
    "GenerateKeyPair demo_prims (Some (replicate 32 5)) = Inr (f, fpub)"
    "\<forall>k \<in> {e, replicate 32 2}. \<forall>u \<in> {fpub, demo_server_pub}.
       SharedSecret demo_prims k u = Inr (scalar_mult demo_prims k u)"
    unfolding demo_server_pub_def by (rule demo_secrets)
  note ok = g(3) [rule_format, unfolded demo_server_pub_def]
  have "length e = 32" using GenerateKeyPair_length [OF g(1)] by simp
  from client_handshake_ok [OF demo_aead_ok demo_dh_ok this _ g(1,2) ok ok ok ok, of "replicate 32 3" 22 demo_net chk idx now target]
  show ?thesis using g(1) by (force simp: demo_net_def responder_net_def demo_server_pub_def)
qed

end
