(* ===== verification/Ant_IPC.thy ===== *)
theory Ant_IPC
  imports Complex_Main Ant_Strings
begin

text \<open>
  \<open>pkg/ipc\<close>: the messages between the daemon and its front ends, the local socket and both
  ends of a connection. \<open>encoding/json\<close> carries the messages: a connection is the list of
  values its decoder yields, up to the first error. Error texts are values of
  \<open>daemon_error\<close>, one constructor per message, and an empty error is \<open>None\<close>.
\<close>

section \<open>Messages\<close>

record ConnectParams =
  ServerAddr :: string
  ServerPubKey :: string
  Transport :: string
  SNI :: string
  EnableKillSwitch :: bool
  BlockPadding :: bool
  DecoyProbe :: bool

definition no_params :: ConnectParams where
  "no_params = \<lparr>ServerAddr = [], ServerPubKey = [], Transport = [], SNI = [], EnableKillSwitch = False,
     BlockPadding = False, DecoyProbe = False\<rparr>"

definition ActionConnect :: string where "ActionConnect = ''connect''"
definition ActionDisconnect :: string where "ActionDisconnect = ''disconnect''"
definition ActionGetStatus :: string where "ActionGetStatus = ''get_status''"
definition ActionSetKillSwitch :: string where "ActionSetKillSwitch = ''set_killswitch''"

lemmas action_defs = ActionConnect_def ActionDisconnect_def ActionGetStatus_def ActionSetKillSwitch_def

record Request =
  req_Action :: string
  req_Params :: ConnectParams

text \<open>\<open>MemoryAllocMB\<close> is a float64; the quotient is exact for all sizes below \<open>2 ^ 53\<close> bytes.\<close>

record StatusResponse =
  st_Connected :: bool
  st_Transport :: string
  st_ServerAddr :: string
  BytesSent :: u64
  BytesReceived :: u64
  PacketsSent :: u64
  PacketsReceived :: u64
  UptimeSeconds :: int
  MemoryAllocMB :: rat
  KillSwitchActive :: bool
  st_VirtualIP :: string

datatype daemon_error =
    ErrUnknownAction string       \<comment> \<open>unknown action\<close>
  | ErrAlreadyConnected           \<comment> \<open>already connected\<close>
  | ErrInvalidPublicKey go_error  \<comment> \<open>invalid public key\<close>
  | ErrKeyGeneration go_error     \<comment> \<open>key generation failed\<close>
  | ErrUnsupportedTransport       \<comment> \<open>unsupported transport\<close>
  | ErrTransportFailed go_error   \<comment> \<open>transport failed\<close>
  | ErrHandshakeReceive           \<comment> \<open>handshake receive failed\<close>
  | ErrHandshakeAuth go_error     \<comment> \<open>handshake auth failed\<close>
  | ErrPlain go_error             \<comment> \<open>the text of the error itself\<close>

record Response =
  Success :: bool
  resp_Error :: "daemon_error option"
  Status :: "StatusResponse option"

definition ok_response :: Response where
  "ok_response = \<lparr>Success = True, resp_Error = None, Status = None\<rparr>"

definition failed :: "daemon_error \<Rightarrow> Response" where
  "failed e = \<lparr>Success = False, resp_Error = Some e, Status = None\<rparr>"

lemma response_simps [simp]:
  "Success ok_response" "resp_Error ok_response = None" "Status ok_response = None"
  "\<not> Success (failed e)" "resp_Error (failed e) = Some e" "Status (failed e) = None"
  by (simp_all add: ok_response_def failed_def)

section \<open>Socket\<close>

definition defaultSocket :: "string \<Rightarrow> string" where
  "defaultSocket GOOS = (if GOOS = ''windows'' then ''127.0.0.1:47821'' else ''/tmp/anonymousant.sock'')"

definition getNetworkAndAddr :: "string \<Rightarrow> string \<times> string" where
  "getNetworkAndAddr path = (if Contains path '':'' then (''tcp'', path) else (''unix'', path))"

text \<open>The calls into the operating system that binding and closing make, in order.\<close>

datatype sys_call = SysRemove string | SysListen string string | SysChmod string nat | SysCloseListener

record Server =
  srv_path :: string
  srv_closed :: bool

text \<open>\<open>0666\<close> is 438.\<close>

definition NewServer :: "string \<Rightarrow> (string \<Rightarrow> string \<Rightarrow> go_error option) \<Rightarrow> string \<Rightarrow> (go_error + Server) \<times> sys_call list" where
  "NewServer GOOS listen socketPath0 =
     (let socketPath = (if socketPath0 = [] then defaultSocket GOOS else socketPath0);
          (network, addr) = getNetworkAndAddr socketPath;
          c1 = (if network = ''unix'' then [SysRemove addr] else []);
          c2 = c1 @ [SysListen network addr]
      in case listen network addr of
           Some e \<Rightarrow> (Inl e, c2)
         | None \<Rightarrow> (Inr \<lparr>srv_path = socketPath, srv_closed = False\<rparr>,
                    c2 @ (if network = ''unix'' then [SysChmod addr 438] else [])))"

text \<open>\<open>close_err\<close> is the result of closing the listener.\<close>

definition Server_Close :: "go_error option \<Rightarrow> Server \<Rightarrow> go_error option \<times> Server \<times> sys_call list" where
  "Server_Close close_err s =
     (if srv_closed s then (None, s, [])
      else let (network, addr) = getNetworkAndAddr (srv_path s)
           in (close_err, s\<lparr>srv_closed := True\<rparr>,
               SysCloseListener # (if network = ''unix'' then [SysRemove addr] else [])))"

text \<open>
  One connection of the server: the requests its decoder yields before end of file or an error, the handler, and
  \<open>wr k\<close>, whether the \<open>k\<close>-th response can be written. The result is the handler's state and the
  responses written; \<open>None\<close> when the handler panics.
\<close>

fun handleClient ::
  "('s \<Rightarrow> Request \<Rightarrow> (Response \<times> 's) go) \<Rightarrow> (nat \<Rightarrow> bool) \<Rightarrow> nat \<Rightarrow> Request list \<Rightarrow> 's \<Rightarrow> (Response list \<times> 's) go" where
  "handleClient handle wr k [] s = Some ([], s)"
| "handleClient handle wr k (req # reqs) s =
     Option.bind (handle s req) (\<lambda>(resp, s1).
       if \<not> wr k then Some ([], s1)
       else map_option (\<lambda>(rs, s2). (resp # rs, s2)) (handleClient handle wr (Suc k) reqs s1))"

section \<open>Client\<close>

text \<open>A call over a connection: \<open>enc\<close> sends a request, \<open>dec\<close> receives a response, each may fail.\<close>

definition Client_Send :: "go_error option \<Rightarrow> go_error + Response \<Rightarrow> go_error + Response" where
  "Client_Send enc dec =
     (case enc of
        Some e \<Rightarrow> Inl (ErrOS ''failed to encode request'')
      | None \<Rightarrow> (case dec of Inl e \<Rightarrow> Inl (ErrOS ''failed to decode response'') | Inr resp \<Rightarrow> Inr resp))"

definition connect_request :: "ConnectParams \<Rightarrow> Request" where
  "connect_request params = \<lparr>req_Action = ActionConnect, req_Params = params\<rparr>"

definition disconnect_request :: Request where
  "disconnect_request = \<lparr>req_Action = ActionDisconnect, req_Params = no_params\<rparr>"

definition status_request :: Request where
  "status_request = \<lparr>req_Action = ActionGetStatus, req_Params = no_params\<rparr>"

text \<open>The status may be missing in a successful response: a nil pointer.\<close>

definition Client_GetStatus :: "go_error + Response \<Rightarrow> go_error + StatusResponse option" where
  "Client_GetStatus sent =
     (case sent of
        Inl e \<Rightarrow> Inl e
      | Inr resp \<Rightarrow> if \<not> Success resp then Inl (ErrOS ''daemon error'') else Inr (Status resp))"

section \<open>Lemmas\<close>

lemma getNetworkAndAddr_addr [simp]: "snd (getNetworkAndAddr p) = p"
  by (simp add: getNetworkAndAddr_def)

text \<open>Every request that is read is handled, in order, and answered by the handler's response.\<close>

primrec handle_seq :: "('s \<Rightarrow> Request \<Rightarrow> (Response \<times> 's) go) \<Rightarrow> Request list \<Rightarrow> 's \<Rightarrow> (Response list \<times> 's) go" where
  "handle_seq handle [] s = Some ([], s)"
| "handle_seq handle (req # reqs) s =
     Option.bind (handle s req) (\<lambda>(resp, s1). map_option (\<lambda>(rs, s2). (resp # rs, s2)) (handle_seq handle reqs s1))"

lemma handleClient_all: "\<forall>k. wr k \<Longrightarrow> handleClient handle wr k reqs s = handle_seq handle reqs s"
  by (induction reqs arbitrary: k s) auto

lemma handle_seq_append:
  "handle_seq handle xs s = Some (rs, s1) \<Longrightarrow> handle_seq handle ys s1 = Some (rs', s2)
     \<Longrightarrow> handle_seq handle (xs @ ys) s = Some (rs @ rs', s2)"
  by (induction xs arbitrary: s rs) (auto simp: bind_eq_Some_conv)

lemma length_handle_seq: "handle_seq handle reqs s = Some (rs, s') \<Longrightarrow> length rs = length reqs"
  by (induction reqs arbitrary: s rs) (auto simp: bind_eq_Some_conv)

lemma default_socket_local:
  "getNetworkAndAddr (defaultSocket os)
     = (if os = ''windows'' then (''tcp'', ''127.0.0.1:47821'') else (''unix'', ''/tmp/anonymousant.sock''))"
proof -
  have "Contains ''127.0.0.1:47821'' '':''" "\<not> Contains ''/tmp/anonymousant.sock'' '':''" by code_simp+
  then show ?thesis by (simp add: getNetworkAndAddr_def defaultSocket_def)
qed

section \<open>Interface of a handler\<close>

text \<open>The \<open>Handler\<close> interface: every request is answered, and the handler's invariant is kept.\<close>

locale ipc_handler =
  fixes handle :: "'s \<Rightarrow> Request \<Rightarrow> (Response \<times> 's) go" and inv :: "'s \<Rightarrow> bool"
  assumes handle_ok: "inv s \<Longrightarrow> \<exists>resp s'. handle s req = Some (resp, s') \<and> inv s'"
begin

lemma handleClient_ok:
  "inv s \<Longrightarrow> \<exists>rs s'. handleClient handle wr k reqs s = Some (rs, s') \<and> inv s' \<and> length rs \<le> length reqs"
proof (induction reqs arbitrary: k s)
  case Nil
  then show ?case by simp
next
  case (Cons req reqs)
  from handle_ok [OF Cons.prems, of req] obtain resp s1 where h: "handle s req = Some (resp, s1)" "inv s1" by blast
  show ?case
  proof (cases "wr k")
    case True
    from Cons.IH [OF h(2), of "Suc k"] show ?thesis using h(1) True by auto
  next
    case False
    then show ?thesis using h by simp
  qed
qed

text \<open>Several connections, one after the other, as the mutex of the daemon serialises them.\<close>

lemma connections_ok:
  assumes "inv s"
  shows "\<exists>s'. fold (\<lambda>reqs st. Option.bind st (\<lambda>s. map_option snd (handleClient handle wr 0 reqs s))) conns (Some s) = Some s' \<and> inv s'"
  using assms
proof (induction conns arbitrary: s)
  case Nil
  then show ?case by simp
next
  case (Cons reqs conns)
  from handleClient_ok [OF Cons.prems, of wr 0 reqs] obtain rs s1 where
    "handleClient handle wr 0 reqs s = Some (rs, s1)" "inv s1" by blast
  with Cons.IH [of s1] show ?case by simp
qed

end

end
