(* ===== verification/Ant_Daemon.thy ===== *)
theory Ant_Daemon
  imports Ant_Client Ant_IPC
begin

text \<open>
  \<open>cmd/ant-daemon/main.go\<close>: the state of the daemon, the handler of its three requests and one
  round of each packet loop. The mutex makes the handlers atomic; the loops run beside them without it. A transport and a device carry a flag
  that tells whether they are open, and \<open>stopCh\<close> whether the channel is closed; \<open>d_sent\<close>
  and \<open>d_written\<close> record the packets handed to the transport and to the device.
\<close>

section \<open>State\<close>

record DaemonState =
  connected :: bool
  params :: ConnectParams
  tunDev :: "(string \<times> bool) option"
  transport :: "(dial \<times> bool) option"
  session :: "Session option"
  router :: "Router option"
  killSwitch :: "KillSwitch option"
  connectedAt :: int
  stopCh :: "bool option"
  bytesSent :: u64
  bytesReceived :: u64
  packetsSent :: u64
  packetsReceived :: u64
  d_sent :: "(net_addr option \<times> bytes) list"
  d_written :: "bytes list"

definition new_daemon :: DaemonState where
  "new_daemon = \<lparr>connected = False, params = no_params, tunDev = None, transport = None, session = None, router = None,
     killSwitch = None, connectedAt = 0, stopCh = None, bytesSent = 0, bytesReceived = 0, packetsSent = 0, packetsReceived = 0,
     d_sent = [], d_written = []\<rparr>"

section \<open>Connect\<close>

text \<open>The choice of the transport, the same in \<open>handleConnect\<close> and in \<open>StartTunnel\<close> of the mobile bridge.\<close>

definition daemon_transport :: "string \<Rightarrow> string \<Rightarrow> string \<Rightarrow> dial option" where
  "daemon_transport mode serverAddr sni =
     (if mode = ''udp'' then Some (DialUDP '':0'')
      else if mode = ''tls'' \<or> mode = [] then Some (DialTLS serverAddr (if sni = [] then ''gateway.internal'' else sni))
      else if mode = ''ws'' then Some (DialWS (''wss://'' @ serverAddr @ ''/ws'') (''https://'' @ sni) sni)
      else None)"

definition daemon_hs_error :: "hs_error \<Rightarrow> daemon_error" where
  "daemon_hs_error e =
     (case e of
        HsInit x \<Rightarrow> ErrPlain x | HsCreate x \<Rightarrow> ErrPlain x | HsSend x \<Rightarrow> ErrPlain x
      | HsReceive x \<Rightarrow> ErrHandshakeReceive | HsAuth x \<Rightarrow> ErrHandshakeAuth x | HsSession x \<Rightarrow> ErrPlain x)"

text \<open>From \<open>CreateTUN\<close> to the kill switch, for a session that stands.\<close>

definition daemon_up :: "client_env \<Rightarrow> ConnectParams \<Rightarrow> dial \<Rightarrow> Session \<Rightarrow> DaemonState \<Rightarrow> (DaemonState \<times> command list) go" where
  "daemon_up env ps d sess st = do {
     (res, c1) \<leftarrow> CreateTUN (ce_os env) ''ant0'' DefaultMTU;
     let c2 = (case res of Inl e \<Rightarrow> [] | Inr name \<Rightarrow> ConfigureIP (ce_os env) name ''10.8.0.2'' ''10.8.0.1'');
     let st1 = st\<lparr>connected := True, params := ps, transport := Some (d, True), session := Some sess,
                  tunDev := (case res of Inl e \<Rightarrow> None | Inr name \<Rightarrow> Some (name, True)),
                  connectedAt := ce_now env, stopCh := Some False\<rparr>;
     (case res of
        Inl e \<Rightarrow> Some (st1, c1 @ c2)
      | Inr name \<Rightarrow>
          (case setup_network (ce_os env) name (ServerAddr ps) (EnableKillSwitch ps) of
             (r, ks, c3) \<Rightarrow>
               Some (st1\<lparr>router := Some r, killSwitch := (if EnableKillSwitch ps then ks else killSwitch st1)\<rparr>, c1 @ c2 @ c3)))
   }"

definition handleConnect ::
  "prims \<Rightarrow> client_env \<Rightarrow> ConnectParams \<Rightarrow> DaemonState \<Rightarrow> (Response \<times> DaemonState \<times> command list) go" where
  "handleConnect P env params0 st =
     (let ps = params0\<lparr>ServerAddr := sanitizeAddress (ServerAddr params0)\<rparr> in
      if connected st then Some (failed ErrAlreadyConnected, st, [])
      else
        (case ParsePublicKey (ServerPubKey ps) of
           Inl e \<Rightarrow> Some (failed (ErrInvalidPublicKey e), st, [])
         | Inr serverPub \<Rightarrow>
             (case GenerateKeyPair P (ce_static env) of
                Inl e \<Rightarrow> Some (failed (ErrKeyGeneration e), st, [])
              | Inr (clientPriv, _) \<Rightarrow>
                  (case daemon_transport (Transport ps) (ServerAddr ps) (SNI ps) of
                     None \<Rightarrow> Some (failed ErrUnsupportedTransport, st, [])
                   | Some d \<Rightarrow>
                       (case ce_open env d of
                          Some e \<Rightarrow> Some (failed (ErrTransportFailed e), st, [])
                        | None \<Rightarrow> do {
                            hs \<leftarrow> client_handshake P False clientPriv serverPub (ce_idx env) (ce_eph env) (ce_now env) (ce_net env)
                                    (target_of (ce_resolve env (ServerAddr ps)));
                            (case hs of
                               Inl e \<Rightarrow> Some (failed (daemon_hs_error e), st, [])
                             | Inr sess \<Rightarrow> do {
                                 (st1, cmds) \<leftarrow> daemon_up env ps d sess st;
                                 Some (ok_response, st1, cmds)
                               })
                          })))))"

section \<open>Disconnect and status\<close>

definition handleDisconnect :: "os_env \<Rightarrow> DaemonState \<Rightarrow> (Response \<times> DaemonState \<times> command list) go" where
  "handleDisconnect os st =
     (if \<not> connected st then Some (ok_response, st, [])
      else if stopCh st = Some True then None
      else
        let (ks, c1) = (case killSwitch st of None \<Rightarrow> (None, []) | Some k \<Rightarrow> map_prod Some id (ks_Disable os k));
            c2 = (case router st of None \<Rightarrow> [] | Some r \<Rightarrow> RestoreRoutes os r @ RestoreDNS os r)
        in Some (ok_response,
             st\<lparr>stopCh := map_option (\<lambda>_. True) (stopCh st), killSwitch := ks,
                tunDev := map_option (\<lambda>(n, _). (n, False)) (tunDev st),
                transport := map_option (\<lambda>(d, _). (d, False)) (transport st),
                session := map_option Session_Wipe (session st), connected := False\<rparr>, c1 @ c2))"

text \<open>\<open>alloc\<close> is \<open>m.Alloc\<close>; times are nanoseconds, \<open>Seconds\<close> of a duration is truncated.\<close>

definition handleGetStatus :: "nat \<Rightarrow> int \<Rightarrow> DaemonState \<Rightarrow> Response" where
  "handleGetStatus alloc now st =
     \<lparr>Success = True, resp_Error = None,
      Status = Some \<lparr>st_Connected = connected st,
        st_Transport = (if connected st then Transport (params st) else ''none''),
        st_ServerAddr = (if connected st then ServerAddr (params st) else []),
        BytesSent = bytesSent st, BytesReceived = bytesReceived st, PacketsSent = packetsSent st, PacketsReceived = packetsReceived st,
        UptimeSeconds = (if connected st then (now - connectedAt st) div 1000000000 else 0),
        MemoryAllocMB = of_nat alloc / 1024 / 1024,
        KillSwitchActive = (case killSwitch st of None \<Rightarrow> False | Some k \<Rightarrow> IsEnabled k),
        st_VirtualIP = ''10.8.0.2''\<rparr>\<rparr>"

definition Handle ::
  "prims \<Rightarrow> client_env \<Rightarrow> nat \<Rightarrow> Request \<Rightarrow> DaemonState \<Rightarrow> (Response \<times> DaemonState \<times> command list) go" where
  "Handle P env alloc req st =
     (if req_Action req = ActionConnect then handleConnect P env (req_Params req) st
      else if req_Action req = ActionDisconnect then handleDisconnect (ce_os env) st
      else if req_Action req = ActionGetStatus then Some (handleGetStatus alloc (ce_now env) st, st, [])
      else Some (failed (ErrUnknownAction (req_Action req)), st, []))"

section \<open>Packet loops\<close>

text \<open>\<open>runEgressLoop\<close> returns at once without a device.\<close>

definition egress_enters :: "DaemonState \<Rightarrow> bool" where
  "egress_enters st \<longleftrightarrow> tunDev st \<noteq> None"

text \<open>
  One round of each loop, from the point where \<open>ReadPacket\<close> or \<open>Receive\<close> has returned: the
  packet, or an error. The boolean tells whether the loop goes on. The fields of the daemon are read anew in every round; a
  missing session is a nil dereference.
\<close>

definition egress_round ::
  "prims \<Rightarrow> int \<Rightarrow> net_addr option \<Rightarrow> go_error + PacketBuffer \<Rightarrow> DaemonState \<Rightarrow> (bool \<times> DaemonState) go" where
  "egress_round P now targetAddr rd st =
     (case rd of
        Inl e \<Rightarrow> Some (False, st)
      | Inr buf \<Rightarrow>
          let st1 = st\<lparr>bytesSent := bytesSent st + of_nat (Length buf), packetsSent := packetsSent st + 1\<rparr>
          in do {
            s \<leftarrow> session st1;
            (e, s1, buf1) \<leftarrow> EncryptPacket P s buf TypeData 0 now;
            let st2 = st1\<lparr>session := Some s1\<rparr>;
            if e \<noteq> None then Some (True, st2)
            else do {
              _ \<leftarrow> transport st2;
              out \<leftarrow> Bytes buf1;
              Some (True, st2\<lparr>d_sent := d_sent st2 @ [(targetAddr, out)]\<rparr>)
            }
          })"

definition ingress_round :: "prims \<Rightarrow> int \<Rightarrow> go_error + PacketBuffer \<Rightarrow> DaemonState \<Rightarrow> (bool \<times> DaemonState) go" where
  "ingress_round P now received st =
     (case received of
        Inl e \<Rightarrow> Some (stopCh st \<noteq> Some True, st)
      | Inr buf \<Rightarrow> do {
          s \<leftarrow> session st;
          (s1, pkt) \<leftarrow> open_packet P now s buf;
          let st1 = st\<lparr>session := Some s1\<rparr>;
          (case pkt of
             None \<Rightarrow> Some (True, st1)
           | Some (h, buf1) \<Rightarrow>
               let st2 = st1\<lparr>bytesReceived := bytesReceived st1 + of_nat (Length buf1), packetsReceived := packetsReceived st1 + 1\<rparr>
               in Some (True, if Type h = TypeData \<and> tunDev st2 \<noteq> None then st2\<lparr>d_written := d_written st2 @ [content buf1]\<rparr> else st2))
        })"

section \<open>Invariant\<close>

definition keyless :: "Session \<Rightarrow> bool" where
  "keyless s \<longleftrightarrow> SendCipher s = None \<and> RecvCipher s = None"

text \<open>
  While connected there is a session with both keys over an open transport, and the stop channel is
  open. While not connected no key is left in the session, transport and device are closed and the
  kill switch is off.
\<close>

definition daemon_inv :: "GOOS \<Rightarrow> DaemonState \<Rightarrow> bool" where
  "daemon_inv os st \<longleftrightarrow>
     (if connected st
      then (\<exists>s. session st = Some s \<and> live s) \<and> (\<exists>d. transport st = Some (d, True)) \<and> stopCh st = Some False
           \<and> (\<forall>n up. tunDev st = Some (n, up) \<longrightarrow> up)
      else (\<forall>s. session st = Some s \<longrightarrow> keyless s) \<and> (\<forall>d up. transport st = Some (d, up) \<longrightarrow> \<not> up) \<and> stopCh st \<noteq> Some False
           \<and> (\<forall>n up. tunDev st = Some (n, up) \<longrightarrow> \<not> up) \<and> (\<forall>k. killSwitch st = Some k \<longrightarrow> \<not> enabled k))
     \<and> (\<forall>k. killSwitch st = Some k \<and> enabled k \<longrightarrow> os = linux \<or> os = darwin)"

text \<open>What the daemon relies on of its surroundings: the platform, buffers from the network, and that the device name has a length the code can slice.\<close>

definition env_ok :: "GOOS \<Rightarrow> client_env \<Rightarrow> bool" where
  "env_ok os env \<longleftrightarrow> goos (ce_os env) = os \<and> net_ok (ce_net env) \<and> CreateTUN (ce_os env) ''ant0'' DefaultMTU \<noteq> None"

lemma daemon_inv_new: "daemon_inv os new_daemon"
  by (simp add: daemon_inv_def new_daemon_def)

lemma ks_Disable_off:
  assumes "enabled k \<longrightarrow> goos env = linux \<or> goos env = darwin"
  shows "\<not> enabled (fst (ks_Disable env k))"
  using assms by (auto simp: ks_Disable_def KillSwitch_Disable_def disableDarwin_def disableLinux_def split: GOOS.splits)

lemma ks_Enable_os:
  assumes "\<not> enabled k"
  shows "enabled (fst (ks_Enable env k)) \<Longrightarrow> goos env = linux \<or> goos env = darwin"
  using assms by (auto simp: ks_Enable_def KillSwitch_Enable_def split: GOOS.splits)

lemma setup_network_ks:
  assumes "setup_network env tun addr want = (r, ks, cmds)"
  shows "want \<longleftrightarrow> ks \<noteq> None" "ks = Some k \<Longrightarrow> enabled k \<Longrightarrow> goos env = linux \<or> goos env = darwin"
  using assms ks_Enable_os [of "NewKillSwitch _ _ _" env]
  by (auto simp: setup_network_def Let_def NewKillSwitch_def split: prod.splits if_splits) (metis fst_conv)+

lemma handleDisconnect_inv:
  assumes "daemon_inv os st" "goos env = os"
  shows "\<exists>st' cmds. handleDisconnect env st = Some (ok_response, st', cmds) \<and> daemon_inv os st' \<and> \<not> connected st'"
proof (cases "connected st")
  case False
  then show ?thesis using assms(1) by (simp add: handleDisconnect_def)
next
  case True
  define ks where "ks = (case killSwitch st of None \<Rightarrow> (None, []) | Some k \<Rightarrow> map_prod Some id (ks_Disable env k))"
  have off: "\<not> enabled k" if k: "fst ks = Some k" for k
  proof -
    obtain k0 where "killSwitch st = Some k0" "k = fst (ks_Disable env k0)"
      using k by (cases "killSwitch st") (auto simp: ks_def)
    then show ?thesis using ks_Disable_off [of k0 env] assms by (auto simp: daemon_inv_def)
  qed
  show ?thesis using True assms(1) off
    by (auto simp: handleDisconnect_def ks_def [symmetric] daemon_inv_def keyless_def Session_Wipe_def case_prod_beta)
qed

lemma daemon_up_Some:
  assumes "env_ok os env"
  obtains st' cmds where "daemon_up env ps d s st = Some (st', cmds)"
proof -
  obtain res c1 where "CreateTUN (ce_os env) ''ant0'' DefaultMTU = Some (res, c1)"
    using assms by (fastforce simp: env_ok_def)
  then show ?thesis using that
    by (cases res; cases "setup_network (ce_os env) (projr res) (ServerAddr ps) (EnableKillSwitch ps)") (auto simp: daemon_up_def Let_def)
qed

lemma daemon_up_inv:
  assumes inv: "daemon_inv os st" and env: "env_ok os env" and s: "live s"
  shows "\<exists>st' cmds. daemon_up env ps d s st = Some (st', cmds) \<and> daemon_inv os st' \<and> connected st' \<and> params st' = ps"
proof -
  obtain res c1 where tun: "CreateTUN (ce_os env) ''ant0'' DefaultMTU = Some (res, c1)"
    using env by (fastforce simp: env_ok_def)
  have old: "\<forall>k. killSwitch st = Some k \<and> enabled k \<longrightarrow> os = linux \<or> os = darwin" using inv by (auto simp: daemon_inv_def)
  show ?thesis
  proof (cases res)
    case (Inl e)
    then show ?thesis using tun s old by (simp add: daemon_up_def Let_def daemon_inv_def)
  next
    case (Inr name)
    obtain r ks c3 where n: "setup_network (ce_os env) name (ServerAddr ps) (EnableKillSwitch ps) = (r, ks, c3)" by (metis prod_cases3)
    have "os = linux \<or> os = darwin" if "(if EnableKillSwitch ps then ks else killSwitch st) = Some k" "enabled k" for k
      using that old setup_network_ks(2) [OF n, of k] env by (auto simp: env_ok_def split: if_splits)
    then show ?thesis using Inr tun n s by (auto simp: daemon_up_def Let_def daemon_inv_def)
  qed
qed

lemma handleConnect_inv:
  assumes A: "aead_ok P" and D: "dh_ok P" and inv: "daemon_inv os st" and env: "env_ok os env"
  shows "\<exists>resp st' cmds. handleConnect P env ps st = Some (resp, st', cmds) \<and> daemon_inv os st'
    \<and> (if Success resp then \<not> connected st \<and> connected st' \<and> params st' = ps\<lparr>ServerAddr := sanitizeAddress (ServerAddr ps)\<rparr> else st' = st)"
proof -
  define ps1 where "ps1 = ps\<lparr>ServerAddr := sanitizeAddress (ServerAddr ps)\<rparr>"
  note unf = handleConnect_def [of P env ps st, folded ps1_def, unfolded Let_def]
  have stay: "\<exists>resp st' cmds. Some (failed e, st, []) = Some (resp, st', cmds) \<and> daemon_inv os st'
      \<and> (if Success resp then \<not> connected st \<and> connected st' \<and> params st' = ps1 else st' = st)" for e
    using inv by simp
  have hs: "\<exists>r. client_handshake P False priv pub (ce_idx env) (ce_eph env) (ce_now env) (ce_net env) tgt = Some r
      \<and> (\<forall>s. r = Inr s \<longrightarrow> live s)" if "GenerateKeyPair P (ce_static env) = Inr (priv, u)" for priv u pub tgt
    using client_handshake_total [OF A D] GenerateKeyPair_length [OF that] env by (simp add: env_ok_def)
  have up: "\<exists>st' cmds. daemon_up env ps1 d s st = Some (st', cmds) \<and> daemon_inv os st' \<and> connected st' \<and> params st' = ps1"
    if "live s" for d s using daemon_up_inv [OF inv env that] .
  have "\<exists>resp st' cmds. handleConnect P env ps st = Some (resp, st', cmds) \<and> daemon_inv os st'
      \<and> (if Success resp then \<not> connected st \<and> connected st' \<and> params st' = ps1 else st' = st)"
  proof (cases "connected st")
    case True
    then show ?thesis unfolding unf using stay by simp
  next
    case False
    consider (key) e where "ParsePublicKey (ServerPubKey ps1) = Inl e"
      | (gen) pub e where "ParsePublicKey (ServerPubKey ps1) = Inr pub" "GenerateKeyPair P (ce_static env) = Inl e"
      | (ok) pub priv u where "ParsePublicKey (ServerPubKey ps1) = Inr pub" "GenerateKeyPair P (ce_static env) = Inr (priv, u)"
      by (metis old.sum.exhaust surj_pair)
    then show ?thesis
    proof cases
      case key
      then show ?thesis unfolding unf using False stay by simp
    next
      case gen
      then show ?thesis unfolding unf using False stay by simp
    next
      case ok
      from hs [OF ok(2), of pub "target_of (ce_resolve env (ServerAddr ps1))"] obtain r where r:
        "client_handshake P False priv pub (ce_idx env) (ce_eph env) (ce_now env) (ce_net env) (target_of (ce_resolve env (ServerAddr ps1))) = Some r"
        "\<forall>s. r = Inr s \<longrightarrow> live s" by blast
      show ?thesis
      proof (cases "\<exists>d s. daemon_transport (Transport ps1) (ServerAddr ps1) (SNI ps1) = Some d \<and> ce_open env d = None \<and> r = Inr s")
        case True
        then obtain d s where d: "daemon_transport (Transport ps1) (ServerAddr ps1) (SNI ps1) = Some d" "ce_open env d = None" "r = Inr s" by blast
        from up [of s d] r(2) d(3) obtain st' cmds where "daemon_up env ps1 d s st = Some (st', cmds)"
          "daemon_inv os st'" "connected st'" "params st' = ps1" by blast
        then show ?thesis unfolding unf using False ok d r(1) by simp
      next
        case no: False
        then have "\<exists>e. handleConnect P env ps st = Some (failed e, st, [])"
          unfolding unf using False ok r(1) by (cases r) (auto split: option.splits)
        then show ?thesis using stay by metis
      qed
    qed
  qed
  then show ?thesis unfolding ps1_def .
qed

text \<open>What a round of a packet loop leaves alone: the keys of the session and everything but counters and logs.\<close>

definition same_link :: "DaemonState \<Rightarrow> DaemonState \<Rightarrow> bool" where
  "same_link st st' \<longleftrightarrow>
     rel_option (\<lambda>s s'. SendCipher s' = SendCipher s \<and> RecvCipher s' = RecvCipher s) (session st) (session st')
     \<and> connected st' = connected st \<and> transport st' = transport st \<and> stopCh st' = stopCh st \<and> tunDev st' = tunDev st
     \<and> killSwitch st' = killSwitch st"

lemma same_link_refl: "same_link st st"
  by (auto simp: same_link_def intro: option.rel_refl)

lemma egress_round_frame:
  assumes "egress_round P now t rd st = Some (go, st')"
  shows "same_link st st'"
proof (cases rd)
  case (Inl e)
  then show ?thesis using assms same_link_refl by (simp add: egress_round_def)
next
  case (Inr buf)
  obtain s where s: "session st = Some s" using assms Inr by (auto simp: egress_round_def Let_def bind_eq_Some_conv)
  obtain e s1 w where enc: "EncryptPacket P s buf TypeData 0 now = Some (e, s1, w)"
    using assms Inr s by (auto simp: egress_round_def Let_def bind_eq_Some_conv)
  show ?thesis using assms Inr s enc EncryptPacket_counter [OF enc]
    by (auto simp: egress_round_def Let_def bind_eq_Some_conv same_link_def split: if_splits)
qed

lemma ingress_round_frame:
  assumes "ingress_round P now rcv st = Some (go, st')"
  shows "same_link st st'"
proof (cases rcv)
  case (Inl e)
  then show ?thesis using assms same_link_refl by (simp add: ingress_round_def)
next
  case (Inr buf)
  obtain s where s: "session st = Some s" using assms Inr by (auto simp: ingress_round_def bind_eq_Some_conv)
  obtain s1 pkt where o: "open_packet P now s buf = Some (s1, pkt)"
    using assms Inr s by (auto simp: ingress_round_def bind_eq_Some_conv)
  show ?thesis
  proof (cases pkt)
    case None
    then show ?thesis using assms Inr s o open_packet_frame [OF o] by (auto simp: ingress_round_def same_link_def)
  next
    case (Some hb)
    then show ?thesis using assms Inr s o open_packet_frame [OF o]
      by (cases hb) (auto simp: ingress_round_def same_link_def Let_def split: if_splits)
  qed
qed

lemma daemon_inv_frame:
  assumes "daemon_inv os st" "same_link st st'"
  shows "daemon_inv os st'"
proof (cases "connected st")
  case True
  then show ?thesis using assms by (auto simp: daemon_inv_def same_link_def live_def option_rel_Some1)
next
  case False
  have "keyless s'" if "session st' = Some s'" for s'
    using assms that False by (auto simp: daemon_inv_def same_link_def keyless_def option_rel_Some2)
  then show ?thesis using assms False by (auto simp: daemon_inv_def same_link_def)
qed

lemmas round_inv = daemon_inv_frame [OF _ egress_round_frame] daemon_inv_frame [OF _ ingress_round_frame]

section \<open>The daemon as a transition system\<close>

text \<open>
  Requests, in the order in which they get the mutex, interleaved with rounds of the packet loops
  in any way. A round that panics ends the process and has no successor.
\<close>

inductive daemon_step :: "prims \<Rightarrow> GOOS \<Rightarrow> DaemonState \<Rightarrow> DaemonState \<Rightarrow> bool" for P os where
  request: "env_ok os env \<Longrightarrow> Handle P env alloc req st = Some (resp, st', cmds) \<Longrightarrow> daemon_step P os st st'"
| egress: "egress_round P now t rd st = Some (go, st') \<Longrightarrow> daemon_step P os st st'"
| ingress: "ingress_round P now rcv st = Some (go, st') \<Longrightarrow> daemon_step P os st st'"

inductive daemon_reach :: "prims \<Rightarrow> GOOS \<Rightarrow> DaemonState \<Rightarrow> bool" for P os where
  start: "daemon_reach P os new_daemon"
| step: "daemon_reach P os st \<Longrightarrow> daemon_step P os st st' \<Longrightarrow> daemon_reach P os st'"

lemma Handle_inv:
  assumes "aead_ok P" "dh_ok P" "daemon_inv os st" "env_ok os env"
  shows "\<exists>resp st' cmds. Handle P env alloc req st = Some (resp, st', cmds) \<and> daemon_inv os st'"
proof -
  have os: "goos (ce_os env) = os" using assms(4) by (simp add: env_ok_def)
  consider "req_Action req = ActionConnect" | "req_Action req \<noteq> ActionConnect" "req_Action req = ActionDisconnect"
    | "req_Action req \<noteq> ActionConnect" "req_Action req \<noteq> ActionDisconnect" by blast
  then show ?thesis
  proof cases
    case 1
    then show ?thesis using handleConnect_inv [OF assms, of "req_Params req"] by (auto simp: Handle_def)
  next
    case 2
    then show ?thesis using handleDisconnect_inv [OF assms(3) os] by (auto simp: Handle_def)
  next
    case 3
    then show ?thesis using assms(3) by (auto simp: Handle_def)
  qed
qed

lemma daemon_step_inv:
  assumes "aead_ok P" "dh_ok P"
  shows "daemon_step P os st st' \<Longrightarrow> daemon_inv os st \<Longrightarrow> daemon_inv os st'"
proof (induction rule: daemon_step.induct)
  case (request env alloc req st resp st' cmds)
  from Handle_inv [OF assms request.prems request.hyps(1), of alloc req] request.hyps(2) show ?case by auto
next
  case (egress now t rd st go st')
  then show ?case using round_inv(1) by blast
next
  case (ingress now rcv st go st')
  then show ?case using round_inv(2) by blast
qed

lemma daemon_reach_inv: "daemon_reach P os st \<Longrightarrow> aead_ok P \<Longrightarrow> dh_ok P \<Longrightarrow> daemon_inv os st"
  by (induction rule: daemon_reach.induct) (auto intro: daemon_inv_new daemon_step_inv)

text \<open>The daemon behind its socket: surroundings that change from request to request.\<close>

type_synonym daemon_run = "prims \<times> GOOS \<times> (nat \<Rightarrow> client_env \<times> nat) \<times> DaemonState"

definition daemon_handle :: "daemon_run \<Rightarrow> Request \<Rightarrow> (Response \<times> daemon_run) go" where
  "daemon_handle run req =
     (case run of
        (P, os, envs, st) \<Rightarrow>
          map_option (\<lambda>(resp, st', cmds). (resp, P, os, \<lambda>n. envs (Suc n), st'))
            (Handle P (fst (envs 0)) (snd (envs 0)) req st))"

definition daemon_run_ok :: "daemon_run \<Rightarrow> bool" where
  "daemon_run_ok run \<longleftrightarrow>
     (case run of (P, os, envs, st) \<Rightarrow> aead_ok P \<and> dh_ok P \<and> (\<forall>n. env_ok os (fst (envs n))) \<and> daemon_inv os st)"

interpretation daemon_ipc: ipc_handler daemon_handle daemon_run_ok
proof
  fix run req
  assume ok: "daemon_run_ok run"
  obtain P os envs st where run: "run = (P, os, envs, st)" by (metis prod_cases4)
  have h: "aead_ok P" "dh_ok P" "daemon_inv os st" "env_ok os (fst (envs 0))" using ok by (simp_all add: daemon_run_ok_def run)
  from Handle_inv [OF h, of "snd (envs 0)" req]
  show "\<exists>resp run'. daemon_handle run req = Some (resp, run') \<and> daemon_run_ok run'"
    using ok by (auto simp: daemon_handle_def daemon_run_ok_def run)
qed

section \<open>The daemon as a tunnel endpoint\<close>

definition daemon_send :: "net_addr option \<Rightarrow> prims \<Rightarrow> int \<Rightarrow> PacketBuffer \<Rightarrow> DaemonState \<Rightarrow> DaemonState go" where
  "daemon_send targetAddr P now b st = map_option snd (egress_round P now targetAddr (Inr b) st)"

definition daemon_recv :: "prims \<Rightarrow> int \<Rightarrow> PacketBuffer \<Rightarrow> DaemonState \<Rightarrow> DaemonState go" where
  "daemon_recv P now b st = map_option snd (ingress_round P now (Inr b) st)"

definition daemon_attached :: "DaemonState \<Rightarrow> bool" where
  "daemon_attached st \<longleftrightarrow> session st \<noteq> None \<and> transport st \<noteq> None \<and> tunDev st \<noteq> None"

interpretation daemon: tunnel_endpoint daemon_attached "\<lambda>st. the (session st)" "\<lambda>st. map snd (d_sent st)" d_written
  "daemon_send targetAddr" daemon_recv
proof (unfold_locales, goal_cases)
  case (1 st P b now s w)
  then obtain s0 tr where "session st = Some s0" "transport st = Some tr" by (auto simp: daemon_attached_def)
  then show ?case using 1 by (simp add: daemon_send_def egress_round_def Let_def daemon_attached_def)
next
  case (2 st P now b s pkt)
  then obtain s0 where s0: "session st = Some s0" "tunDev st \<noteq> None" by (auto simp: daemon_attached_def)
  show ?case
  proof (cases pkt)
    case None
    then show ?thesis using 2 s0 by (simp add: daemon_recv_def ingress_round_def Let_def daemon_attached_def)
  next
    case (Some hb)
    obtain h b' where "hb = (h, b')" by fastforce
    then show ?thesis using 2 s0 Some by (auto simp: daemon_recv_def ingress_round_def Let_def daemon_attached_def)
  qed
qed

section \<open>Specification\<close>

text \<open>
  What the front ends see of the daemon: it is connected with some parameters, or it is not. A
  request changes that as follows; \<open>works\<close> tells whether an attempt to connect succeeds.
\<close>

type_synonym link = "ConnectParams option"

definition link_of :: "DaemonState \<Rightarrow> link" where
  "link_of st = (if connected st then Some (params st) else None)"

definition spec_handle :: "bool \<Rightarrow> Request \<Rightarrow> link \<Rightarrow> bool \<times> link" where
  "spec_handle works req l =
     (if req_Action req = ActionConnect then
        (if l \<noteq> None \<or> \<not> works then (False, l)
         else (True, Some ((req_Params req)\<lparr>ServerAddr := sanitizeAddress (ServerAddr (req_Params req))\<rparr>)))
      else if req_Action req = ActionDisconnect then (True, None)
      else if req_Action req = ActionGetStatus then (True, l)
      else (False, l))"

lemma Handle_spec:
  assumes "aead_ok P" "dh_ok P" "daemon_inv os st" "env_ok os env"
  shows "\<exists>resp st' cmds. Handle P env alloc req st = Some (resp, st', cmds) \<and> daemon_inv os st'
    \<and> (Success resp, link_of st') = spec_handle (Success resp) req (link_of st)
    \<and> (\<forall>s. Status resp = Some s \<longrightarrow> st_Connected s = (link_of st \<noteq> None))"
proof -
  have os: "goos (ce_os env) = os" using assms(4) by (simp add: env_ok_def)
  have ne: "ActionDisconnect \<noteq> ActionConnect" by (simp add: action_defs)
  have conn: "Status resp = None" if "handleConnect P env ps st = Some (resp, st', cmds)" for ps resp st' cmds
    using that by (auto simp: handleConnect_def Let_def bind_eq_Some_conv split: if_splits sum.splits prod.splits option.splits)
      (metis old.sum.exhaust response_simps(3,6))
  consider "req_Action req = ActionConnect" | "req_Action req \<noteq> ActionConnect" "req_Action req = ActionDisconnect"
    | "req_Action req \<noteq> ActionConnect" "req_Action req \<noteq> ActionDisconnect" by blast
  then show ?thesis
  proof cases
    case 1
    from handleConnect_inv [OF assms, of "req_Params req"] obtain resp st' cmds where c:
      "handleConnect P env (req_Params req) st = Some (resp, st', cmds)" "daemon_inv os st'"
      "if Success resp then \<not> connected st \<and> connected st'
         \<and> params st' = (req_Params req)\<lparr>ServerAddr := sanitizeAddress (ServerAddr (req_Params req))\<rparr> else st' = st" by blast
    then have "(Success resp, link_of st') = spec_handle (Success resp) req (link_of st)"
      using 1 by (simp add: spec_handle_def link_of_def split: if_splits)
    then show ?thesis using 1 c conn [OF c(1)] by (simp add: Handle_def)
  next
    case 2
    from handleDisconnect_inv [OF assms(3) os] obtain st' cmds where
      "handleDisconnect (ce_os env) st = Some (ok_response, st', cmds)" "daemon_inv os st'" "\<not> connected st'" by blast
    then show ?thesis using 2 by (simp add: Handle_def spec_handle_def link_of_def ne)
  next
    case 3
    then show ?thesis using assms(3) by (auto simp: Handle_def spec_handle_def link_of_def handleGetStatus_def)
  qed
qed

text \<open>The specification on a sequence of requests, with the success of each attempt to connect.\<close>

fun spec_run :: "(bool \<times> Request) list \<Rightarrow> link \<Rightarrow> bool list \<times> link" where
  "spec_run [] l = ([], l)"
| "spec_run ((works, req) # reqs) l =
     (let (ok, l1) = spec_handle works req l; (oks, l2) = spec_run reqs l1 in (ok # oks, l2))"

definition run_link :: "daemon_run \<Rightarrow> link" where
  "run_link run = link_of (snd (snd (snd run)))"

lemma daemon_handle_spec:
  assumes "daemon_run_ok run"
  shows "\<exists>resp run'. daemon_handle run req = Some (resp, run') \<and> daemon_run_ok run'
    \<and> (Success resp, run_link run') = spec_handle (Success resp) req (run_link run)"
proof -
  obtain P os envs st where run: "run = (P, os, envs, st)" by (metis prod_cases4)
  have h: "aead_ok P" "dh_ok P" "daemon_inv os st" "env_ok os (fst (envs 0))" using assms by (simp_all add: daemon_run_ok_def run)
  from Handle_spec [OF h, of "snd (envs 0)" req] show ?thesis
    using assms by (auto simp: daemon_handle_def daemon_run_ok_def run run_link_def)
qed

lemma handle_seq_spec:
  assumes "daemon_run_ok run"
  shows "\<exists>rs run'. handle_seq daemon_handle reqs run = Some (rs, run') \<and> length rs = length reqs
    \<and> (map Success rs, run_link run') = spec_run (zip (map Success rs) reqs) (run_link run)"
  using assms
proof (induction reqs arbitrary: run)
  case Nil
  then show ?case by simp
next
  case (Cons req reqs)
  from daemon_handle_spec [OF Cons.prems, of req] obtain resp run1 where h: "daemon_handle run req = Some (resp, run1)"
    "daemon_run_ok run1" "spec_handle (Success resp) req (run_link run) = (Success resp, run_link run1)" by metis
  from Cons.IH [OF h(2)] obtain rs run' where "handle_seq daemon_handle reqs run1 = Some (rs, run')" "length rs = length reqs"
    "spec_run (zip (map Success rs) reqs) (run_link run1) = (map Success rs, run_link run')" by metis
  then show ?case using h by simp
qed

section \<open>Properties\<close>

text \<open>
  C13: What the daemon reports is true. In every state it can reach, with requests and rounds of the packet loops interleaved in any
  order, the status says connected exactly when there is a session with both keys over an open transport; when it says not
  connected no key is left in memory and the device is closed, and the kill switch is reported active only while connected.
\<close>

theorem daemon_status_truthful:
  assumes A: "aead_ok P" and D: "dh_ok P" and reach: "daemon_reach P os st"
  shows "\<exists>s. Status (handleGetStatus alloc now st) = Some s
    \<and> (st_Connected s \<longleftrightarrow> (\<exists>ses d. session st = Some ses \<and> live ses \<and> transport st = Some (d, True)))
    \<and> (\<not> st_Connected s \<longrightarrow> (\<forall>ses. session st = Some ses \<longrightarrow> SendCipher ses = None \<and> RecvCipher ses = None)
         \<and> (\<forall>n up. tunDev st = Some (n, up) \<longrightarrow> \<not> up))
    \<and> (KillSwitchActive s \<longrightarrow> st_Connected s)"
proof -
  have inv: "daemon_inv os st" using daemon_reach_inv [OF reach A D] .
  show ?thesis
  proof (cases "connected st")
    case True
    then show ?thesis using inv by (auto simp: handleGetStatus_def daemon_inv_def)
  next
    case False
    then show ?thesis using inv
      by (auto simp: handleGetStatus_def daemon_inv_def keyless_def live_def IsEnabled_def split: option.splits)
  qed
qed

theorem daemon_status_truthful_witness:
  "\<exists>s. Status (handleGetStatus 0 0 new_daemon) = Some s \<and> \<not> KillSwitchActive s \<and> \<not> st_Connected s"
  using daemon_status_truthful [OF demo_aead_ok demo_dh_ok daemon_reach.start [where os = linux], of 0 0]
  by (auto simp: handleGetStatus_def new_daemon_def)


text \<open>Surroundings for the witnesses: a Linux host without a network.\<close>

definition demo_env :: "network \<Rightarrow> client_env" where
  "demo_env net = \<lparr>ce_os = demo_os, ce_open = (\<lambda>_. None), ce_net = net, ce_resolve = (\<lambda>_. Inr (UDPAddr ''s'')),
     ce_static = Some (replicate 32 4), ce_idx = [11, 0, 0, 0], ce_eph = Some (replicate 32 4), ce_now = 0\<rparr>"

definition no_net :: network where
  "no_net m = (None, Inl (ErrOS ''timeout''))"

lemma demo_env_ok: "net_ok net \<Longrightarrow> env_ok linux (demo_env net)"
  by (simp add: env_ok_def demo_env_def demo_os_def CreateTUN_def)

lemma no_net_ok: "net_ok no_net"
  by (simp add: net_ok_def no_net_def)

definition demo_daemon :: DaemonState where
  "demo_daemon = new_daemon\<lparr>connected := True, session := Some (demo_session 1 2), transport := Some (DialUDP '':0'', True),
     tunDev := Some (''ant0'', True), stopCh := Some False\<rparr>"

lemma demo_daemon_inv: "daemon_inv linux demo_daemon"
  by (auto simp: daemon_inv_def demo_daemon_def new_daemon_def live_def demo_session_def demo_cipher_def cipher_ok_def)


text \<open>
  C36: Disconnecting can crash the daemon. The packet loops do not take the mutex: when a packet has already been read from the
  device (or received from the server) and the disconnect request wipes the session before the loop goes on, the loop
  dereferences a cipher that is gone, and the panic of a goroutine ends the process.
\<close>

theorem disconnect_race_panics:
  assumes inv: "daemon_inv (goos env) st" and conn: "connected st" and e: "has_room e" and b: "wf_buf b"
    and h: "StripHeader b = Some (Inr h, b1)" "TagSize \<le> Length b1" "wf_buf b1"
    and s: "session st = Some s" "ReceiverIndex h = LocalIndex s" "maxSeq (replay s) < Counter h"
  shows "\<exists>st' cmds. handleDisconnect env st = Some (ok_response, st', cmds)
    \<and> egress_round P now t (Inr e) st' = None \<and> ingress_round P now (Inr b) st' = None"
proof -
  have "stopCh st = Some False" using inv conn by (simp add: daemon_inv_def)
  then obtain st' cmds where d: "handleDisconnect env st = Some (ok_response, st', cmds)" "session st' = Some (Session_Wipe s)"
    using conn s(1) by (auto simp: handleDisconnect_def Let_def case_prod_beta)
  have "EncryptPacket P (Session_Wipe s) e TypeData 0 now = None"
    using e by (intro EncryptPacket_wiped) (simp_all add: Session_Wipe_def has_room_def)
  moreover have "DecryptPacket P (Session_Wipe s) b1 h now = None"
    using h s(3) CheckAndSet_advance [of "replay (Session_Wipe s)" "Counter h"]
    by (intro DecryptPacket_wiped) (simp_all add: Session_Wipe_def)
  moreover have "LocalIndex (Session_Wipe s) = LocalIndex s" by (simp add: Session_Wipe_def)
  ultimately show ?thesis using d h(1) s(2) by (simp add: egress_round_def ingress_round_def open_packet_def Let_def)
qed

theorem disconnect_race_panics_witness:
  "\<exists>st' cmds. handleDisconnect demo_os demo_daemon = Some (ok_response, st', cmds)
    \<and> egress_round demo_prims 0 None (Inr (demo_packet 7)) st' = None"
proof -
  let ?h = "\<lparr>Type = TypeData, Flags = 0, ReceiverIndex = 1, Counter = 1\<rparr>"
  have c: "carries demo_prims demo_cipher ?h [] \<lparr>Data = header_bytes ?h @ seal demo_prims (suite demo_cipher) (aead_key demo_cipher)
      (nonce_of (Counter ?h)) [] (header_bytes ?h), Length = 30, Offset = 0\<rparr>" (is "carries _ _ _ _ ?b")
    using aead_lengthD [OF demo_aead_ok, of "aead_key demo_cipher"] by (simp add: carries_def wf_buf_def content_def demo_cipher_def)
  then have wf: "wf_buf ?b" by (simp add: carries_def)
  from carries_strip [OF c] obtain b1 where b1: "StripHeader ?b = Some (Inr ?h, b1)" "wf_buf b1" by blast
  have "TagSize \<le> Length b1" using StripHeader_Inr(3) [OF wf b1(1)] by simp
  moreover have "daemon_inv (goos demo_os) demo_daemon" using demo_daemon_inv by (simp add: demo_os_def)
  moreover have "connected demo_daemon" "session demo_daemon = Some (demo_session 1 2)" by (simp_all add: demo_daemon_def new_daemon_def)
  moreover have "ReceiverIndex ?h = LocalIndex (demo_session 1 2)" "maxSeq (replay (demo_session 1 2)) < Counter ?h"
    by (simp_all add: demo_session_def new_ReplayWindow_def)
  ultimately show ?thesis using disconnect_race_panics [OF _ _ demo_room(1) wf b1(1) _ b1(2)] by blast
qed

text \<open>
  A loop of the old connection can outlive a reconnect. After a disconnect the ingress loop stops at the next error of the closed
  transport, but it looks at the stop channel of the current connection: when a new connection has been made by then, the old
  loop finds an open channel, goes on, and reads from the new transport beside the new loop.
\<close>

lemma stale_ingress_loop:
  assumes inv: "daemon_inv os st" and conn: "connected st" and env: "env_ok os env" and A: "aead_ok P" and D: "dh_ok P"
    and dis: "handleDisconnect (ce_os env) st = Some (r1, st1, c1)"
    and con: "handleConnect P env ps st1 = Some (r2, st2, c2)" "Success r2"
  shows "ingress_round P now (Inl e) st1 = Some (False, st1) \<and> ingress_round P now (Inl e) st2 = Some (True, st2)"
proof -
  have os: "goos (ce_os env) = os" using env by (simp add: env_ok_def)
  from handleDisconnect_inv [OF inv os] dis have inv1: "daemon_inv os st1" by auto
  have "stopCh st1 = Some True"
    using dis conn inv by (auto simp: handleDisconnect_def daemon_inv_def Let_def case_prod_beta)
  moreover have "daemon_inv os st2 \<and> connected st2" using handleConnect_inv [OF A D inv1 env, of ps] con by auto
  ultimately show ?thesis by (simp add: ingress_round_def daemon_inv_def)
qed

definition demo_params :: ConnectParams where
  "demo_params = no_params\<lparr>ServerAddr := ''s'', ServerPubKey := PublicKey_Base64 demo_server_pub, Transport := ''udp''\<rparr>"

end
