(* ===== verification/Ant_Mobile.thy ===== *)
theory Ant_Mobile
  imports Ant_Daemon
begin

text \<open>
  \<open>pkg/mobile/bridge.go\<close>: the tunnel engine of the phone applications. Engines are objects that the
  global variable and the ingress goroutine share, so they live in a list and a pointer is a
  position in it. \<open>te_sent\<close> records the packets handed to the transport and \<open>te_delivered\<close>
  those handed to \<open>PacketFlow.WritePacket\<close>.
\<close>

record TunnelEngine =
  running :: bool
  flow :: bool
  te_transport :: "dial \<times> bool"
  te_session :: Session
  te_targetAddr :: "net_addr option"
  te_stopCh :: bool
  te_bytesSent :: u64
  te_bytesReceived :: u64
  te_sent :: "(net_addr option \<times> bytes) list"
  te_delivered :: "bytes list"

record mobile =
  engines :: "TunnelEngine list"
  globalEngine :: "nat option"

definition mobile_start :: mobile where
  "mobile_start = \<lparr>engines = [], globalEngine = None\<rparr>"

text \<open>One constructor per message of \<open>StartTunnel\<close>.\<close>

datatype start_error =
    StartRunning                   \<comment> \<open>tunnel already running\<close>
  | StartKey go_error              \<comment> \<open>invalid server key\<close>
  | StartKeyGen go_error           \<comment> \<open>client key generation failed\<close>
  | StartMode string               \<comment> \<open>unsupported mobile transport\<close>
  | StartTransport go_error        \<comment> \<open>transport initialization failed\<close>
  | StartTimeout                   \<comment> \<open>handshake response timeout\<close>
  | StartAuth go_error             \<comment> \<open>handshake authentication failed\<close>
  | StartPlain go_error            \<comment> \<open>the error itself\<close>

definition start_hs_error :: "hs_error \<Rightarrow> start_error" where
  "start_hs_error e =
     (case e of
        HsInit x \<Rightarrow> StartPlain x | HsCreate x \<Rightarrow> StartPlain x | HsSend x \<Rightarrow> StartPlain x
      | HsReceive x \<Rightarrow> StartTimeout | HsAuth x \<Rightarrow> StartAuth x | HsSession x \<Rightarrow> StartPlain x)"

definition is_running :: "mobile \<Rightarrow> bool" where
  "is_running m = (case globalEngine m of None \<Rightarrow> False | Some e \<Rightarrow> running (engines m ! e))"

definition StartTunnel ::
  "prims \<Rightarrow> client_env \<Rightarrow> string \<Rightarrow> string \<Rightarrow> string \<Rightarrow> string \<Rightarrow> bool \<Rightarrow> mobile \<Rightarrow> (start_error option \<times> mobile) go" where
  "StartTunnel P env serverAddr serverKey transportMode sni fl m =
     (if is_running m then Some (Some StartRunning, m)
      else
        (case ParsePublicKey serverKey of
           Inl e \<Rightarrow> Some (Some (StartKey e), m)
         | Inr serverPub \<Rightarrow>
             (case GenerateKeyPair P (ce_static env) of
                Inl e \<Rightarrow> Some (Some (StartKeyGen e), m)
              | Inr (clientPriv, _) \<Rightarrow>
                  (case daemon_transport transportMode serverAddr sni of
                     None \<Rightarrow> Some (Some (StartMode transportMode), m)
                   | Some d \<Rightarrow>
                       (case ce_open env d of
                          Some e \<Rightarrow> Some (Some (StartTransport e), m)
                        | None \<Rightarrow>
                            let targetAddr = target_of (ce_resolve env serverAddr) in do {
                              hs \<leftarrow> client_handshake P False clientPriv serverPub (ce_idx env) (ce_eph env) (ce_now env) (ce_net env) targetAddr;
                              (case hs of
                                 Inl e \<Rightarrow> Some (Some (start_hs_error e), m)
                               | Inr s \<Rightarrow>
                                   let engine = \<lparr>running = True, flow = fl, te_transport = (d, True), te_session = s, te_targetAddr = targetAddr,
                                         te_stopCh = False, te_bytesSent = 0, te_bytesReceived = 0, te_sent = [], te_delivered = []\<rparr>
                                   in Some (None, \<lparr>engines = engines m @ [engine], globalEngine = Some (length (engines m))\<rparr>))
                            })))))"

definition set_engine :: "mobile \<Rightarrow> nat \<Rightarrow> TunnelEngine \<Rightarrow> mobile" where
  "set_engine m e en = m\<lparr>engines := (engines m)[e := en]\<rparr>"

text \<open>\<open>OnPacketFromDevice\<close>, and its part after the packet has been copied into a buffer.\<close>

definition packet_out :: "prims \<Rightarrow> int \<Rightarrow> PacketBuffer \<Rightarrow> mobile \<Rightarrow> mobile go" where
  "packet_out P now buf m = do {
     e \<leftarrow> globalEngine m;
     let en = engines m ! e;
     let en1 = en\<lparr>te_bytesSent := te_bytesSent en + of_nat (Length buf)\<rparr>;
     (err, s, buf1) \<leftarrow> EncryptPacket P (te_session en1) buf TypeData 0 now;
     let en2 = en1\<lparr>te_session := s\<rparr>;
     if err \<noteq> None then Some (set_engine m e en2)
     else do {
       out \<leftarrow> Bytes buf1;
       Some (set_engine m e (en2\<lparr>te_sent := te_sent en2 @ [(te_targetAddr en2, out)]\<rparr>))
     }
   }"

definition OnPacketFromDevice :: "prims \<Rightarrow> int \<Rightarrow> bytes \<Rightarrow> mobile \<Rightarrow> mobile go" where
  "OnPacketFromDevice P now pkt m = (if \<not> is_running m then Some m else packet_out P now (fill pooled pkt) m)"

text \<open>One round of \<open>runNetworkIngress\<close> of the engine \<open>e\<close>; the boolean tells whether the loop goes on.\<close>

definition runNetworkIngress :: "prims \<Rightarrow> int \<Rightarrow> nat \<Rightarrow> go_error + PacketBuffer \<Rightarrow> mobile \<Rightarrow> (bool \<times> mobile) go" where
  "runNetworkIngress P now e received m =
     (let en = engines m ! e in
      case received of
        Inl err \<Rightarrow> Some (\<not> te_stopCh en, m)
      | Inr buf \<Rightarrow> do {
          (s, pkt) \<leftarrow> open_packet P now (te_session en) buf;
          let en1 = en\<lparr>te_session := s\<rparr>;
          (case pkt of
             None \<Rightarrow> Some (True, set_engine m e en1)
           | Some (h, buf1) \<Rightarrow>
               let en2 = en1\<lparr>te_bytesReceived := te_bytesReceived en1 + of_nat (Length buf1)\<rparr>
               in if Type h = TypeData \<and> flow en2 then do {
                    p \<leftarrow> Bytes buf1;
                    Some (True, set_engine m e (en2\<lparr>te_delivered := te_delivered en2 @ [p]\<rparr>))
                  } else Some (True, set_engine m e en2))
        })"

text \<open>\<open>StopTunnel\<close>: the test before the lock, and what is done under the lock.\<close>

definition stop_locked :: "mobile \<Rightarrow> mobile go" where
  "stop_locked m = do {
     e \<leftarrow> globalEngine m;
     let en = engines m ! e;
     if \<not> running en then Some m
     else if te_stopCh en then None
     else Some ((set_engine m e (en\<lparr>te_stopCh := True, te_transport := (fst (te_transport en), False),
                   te_session := Session_Wipe (te_session en), running := False\<rparr>))\<lparr>globalEngine := None\<rparr>)
   }"

definition StopTunnel :: "mobile \<Rightarrow> mobile go" where
  "StopTunnel m = (if globalEngine m = None then Some m else stop_locked m)"

definition quote :: "string \<Rightarrow> string" where
  "quote s = [CHR 0x22] @ s @ [CHR 0x22]"

definition json_bool :: "bool \<Rightarrow> string" where
  "json_bool b = (if b then ''true'' else ''false'')"

definition stats_json :: "bool \<Rightarrow> u64 \<Rightarrow> u64 \<Rightarrow> string" where
  "stats_json r sent received =
     ''{'' @ quote ''running'' @ '':'' @ json_bool r @ '','' @ quote ''sent'' @ '':'' @ dec_digits (unat sent)
      @ '','' @ quote ''received'' @ '':'' @ dec_digits (unat received) @ ''}''"

definition GetStats :: "mobile \<Rightarrow> string" where
  "GetStats m =
     (case globalEngine m of
        None \<Rightarrow> ''{'' @ quote ''running'' @ '':false,'' @ quote ''sent'' @ '':0,'' @ quote ''received'' @ '':0}''
      | Some e \<Rightarrow> let en = engines m ! e in stats_json (running en) (te_bytesSent en) (te_bytesReceived en))"

section \<open>Invariant\<close>

definition engine_ok :: "bool \<Rightarrow> TunnelEngine \<Rightarrow> bool" where
  "engine_ok current en \<longleftrightarrow>
     (if current then running en \<and> live (te_session en) \<and> snd (te_transport en) \<and> \<not> te_stopCh en
      else \<not> running en \<and> keyless (te_session en) \<and> \<not> snd (te_transport en) \<and> te_stopCh en)"

text \<open>The global engine runs with a live session; every other engine has been stopped and has no keys.\<close>

definition mobile_ok :: "mobile \<Rightarrow> bool" where
  "mobile_ok m \<longleftrightarrow> (\<forall>e. globalEngine m = Some e \<longrightarrow> e < length (engines m))
     \<and> (\<forall>e < length (engines m). engine_ok (globalEngine m = Some e) (engines m ! e))"

lemma mobile_ok_start: "mobile_ok mobile_start"
  by (simp add: mobile_ok_def mobile_start_def)

lemma mobile_ok_running: "mobile_ok m \<Longrightarrow> is_running m = (globalEngine m \<noteq> None)"
  by (auto simp: mobile_ok_def is_running_def engine_ok_def split: option.splits)

lemma mobile_ok_set:
  assumes "mobile_ok m" "e < length (engines m) \<Longrightarrow> engine_ok (globalEngine m = Some e) en"
  shows "mobile_ok (set_engine m e en)"
proof -
  have "engine_ok (globalEngine m = Some i) ((engines m)[e := en] ! i)" if "i < length (engines m)" for i
    using assms that by (cases "i = e") (simp_all add: mobile_ok_def)
  then show ?thesis using assms(1) by (simp add: mobile_ok_def set_engine_def)
qed

lemma StartTunnel_cases:
  assumes A: "aead_ok P" and D: "dh_ok P" and net: "net_ok (ce_net env)"
  shows "\<exists>err m'. StartTunnel P env addr key mode sni fl m = Some (err, m')
    \<and> (err \<noteq> None \<longrightarrow> m' = m)
    \<and> (err = None \<longrightarrow> \<not> is_running m \<and> (\<exists>en. m' = \<lparr>engines = engines m @ [en], globalEngine = Some (length (engines m))\<rparr> \<and> engine_ok True en \<and> flow en = fl))"
proof -
  have hs: "\<exists>r. client_handshake P False priv pub (ce_idx env) (ce_eph env) (ce_now env) (ce_net env) tgt = Some r
      \<and> (\<forall>s. r = Inr s \<longrightarrow> live s)" if "GenerateKeyPair P (ce_static env) = Inr (priv, u)" for priv u pub tgt
    using client_handshake_total [OF A D _ net] GenerateKeyPair_length [OF that] by simp
  show ?thesis
  proof (cases "ParsePublicKey key")
    case (Inl e)
    then show ?thesis by (auto simp: StartTunnel_def)
  next
    case pub: (Inr pub)
    show ?thesis
    proof (cases "GenerateKeyPair P (ce_static env)")
      case (Inl e)
      then show ?thesis using pub by (auto simp: StartTunnel_def)
    next
      case (Inr pu)
      obtain priv u where "pu = (priv, u)" by fastforce
      with Inr hs [of priv u pub "target_of (ce_resolve env addr)"] obtain r where
        "client_handshake P False priv pub (ce_idx env) (ce_eph env) (ce_now env) (ce_net env) (target_of (ce_resolve env addr)) = Some r"
        "\<forall>s. r = Inr s \<longrightarrow> live s" by blast
      then show ?thesis using pub Inr \<open>pu = (priv, u)\<close>
        by (cases r) (auto simp: StartTunnel_def Let_def engine_ok_def split: option.split)
    qed
  qed
qed

lemma StartTunnel_ok:
  assumes "aead_ok P" "dh_ok P" "net_ok (ce_net env)" "mobile_ok m"
  shows "\<exists>err m'. StartTunnel P env addr key mode sni fl m = Some (err, m') \<and> mobile_ok m'"
proof -
  from StartTunnel_cases [OF assms(1-3), of addr key mode sni fl m] obtain err m' where s:
    "StartTunnel P env addr key mode sni fl m = Some (err, m')" "err \<noteq> None \<longrightarrow> m' = m"
    "err = None \<longrightarrow> \<not> is_running m \<and> (\<exists>en. m' = \<lparr>engines = engines m @ [en], globalEngine = Some (length (engines m))\<rparr> \<and> engine_ok True en)" by blast
  have "mobile_ok m'"
  proof (cases err)
    case None
    then obtain en where m': "m' = \<lparr>engines = engines m @ [en], globalEngine = Some (length (engines m))\<rparr>" "engine_ok True en"
      "globalEngine m = None" using s(3) mobile_ok_running [OF assms(4)] by auto
    then show ?thesis using assms(4) by (auto simp: mobile_ok_def nth_append less_Suc_eq)
  next
    case (Some x)
    then show ?thesis using s(2) assms(4) by simp
  qed
  then show ?thesis using s(1) by blast
qed

lemma stop_locked_ok:
  assumes "mobile_ok m" "globalEngine m = Some e"
  shows "\<exists>m'. stop_locked m = Some m' \<and> mobile_ok m' \<and> globalEngine m' = None"
proof -
  have e: "e < length (engines m)" "engine_ok True (engines m ! e)" using assms by (auto simp: mobile_ok_def)
  let ?en = "(engines m ! e)\<lparr>te_stopCh := True, te_transport := (fst (te_transport (engines m ! e)), False),
    te_session := Session_Wipe (te_session (engines m ! e)), running := False\<rparr>"
  have "stop_locked m = Some ((set_engine m e ?en)\<lparr>globalEngine := None\<rparr>)"
    using assms(2) e(2) by (simp add: stop_locked_def Let_def engine_ok_def)
  moreover have "mobile_ok ((set_engine m e ?en)\<lparr>globalEngine := None\<rparr>)"
    using assms e(1) by (auto simp: mobile_ok_def set_engine_def nth_list_update engine_ok_def keyless_def Session_Wipe_def)
  ultimately show ?thesis by simp
qed

lemma packet_out_ok:
  assumes ok: "mobile_ok m" and g: "globalEngine m = Some e" and b: "wf_buf b \<or> length (Data b) < Offset b + Length b + TagSize"
  shows "\<exists>m'. packet_out P now b m = Some m' \<and> mobile_ok m'"
proof -
  have e: "e < length (engines m)" "engine_ok True (engines m ! e)" using ok g by (auto simp: mobile_ok_def)
  let ?s = "te_session (engines m ! e)"
  obtain c where c: "SendCipher ?s = Some c" using e(2) by (auto simp: engine_ok_def live_def)
  obtain err s w where enc: "EncryptPacket P ?s b TypeData 0 now = Some (err, s, w)" "err = None \<longrightarrow> wf_buf w"
    using EncryptPacket_total [OF c, of b P TypeData 0 now] EncryptPacket_full [of b P ?s TypeData 0 now] b by fastforce
  have "live s" using EncryptPacket_counter [OF enc(1)] e(2) by (auto simp: engine_ok_def live_def)
  then show ?thesis using g enc e(2)
    by (auto simp: packet_out_def Let_def engine_ok_def intro!: mobile_ok_set [OF ok])
qed

lemma OnPacketFromDevice_ok:
  assumes ok: "mobile_ok m"
  shows "\<exists>m'. OnPacketFromDevice P now pkt m = Some m' \<and> mobile_ok m'"
proof (cases "globalEngine m")
  case None
  then show ?thesis using ok by (auto simp: OnPacketFromDevice_def is_running_def)
next
  case (Some e)
  have "wf_buf (fill pooled pkt) \<or> length (Data (fill pooled pkt)) < Offset (fill pooled pkt) + Length (fill pooled pkt) + TagSize"
    using fill_pooled(1) [of pkt] by (cases "length pkt \<le> 2048") (auto simp: fill_def)
  from packet_out_ok [OF ok Some this] show ?thesis
    using mobile_ok_running [OF ok] Some by (simp add: OnPacketFromDevice_def)
qed

lemma runNetworkIngress_ok:
  assumes ok: "mobile_ok m" and g: "globalEngine m = Some e" and b: "\<forall>b. rcv = Inr b \<longrightarrow> wf_buf b"
  shows "\<exists>go m'. runNetworkIngress P now e rcv m = Some (go, m') \<and> mobile_ok m'"
proof (cases rcv)
  case (Inl x)
  then show ?thesis using ok by (simp add: runNetworkIngress_def)
next
  case (Inr b)
  have e: "e < length (engines m)" "engine_ok True (engines m ! e)" using ok g by (auto simp: mobile_ok_def)
  then obtain c where c: "RecvCipher (te_session (engines m ! e)) = Some c" by (auto simp: engine_ok_def live_def)
  have wf: "wf_buf b" using b Inr by blast
  obtain s pkt where o: "open_packet P now (te_session (engines m ! e)) b = Some (s, pkt)"
    by (rule open_packet_total [OF c wf, of P now]) blast
  have out: "wf_buf b'" if "pkt = Some (h, b')" for h b' using open_packet_out_wf [OF wf] o that by blast
  have "live s" using open_packet_frame [OF o] e(2) by (auto simp: engine_ok_def live_def)
  then show ?thesis using Inr o g e(2) out
    by (cases pkt) (auto simp: runNetworkIngress_def Let_def engine_ok_def intro!: mobile_ok_set [OF ok])
qed

section \<open>Sequences of calls\<close>

datatype mob_call =
    CallStart client_env string string string string bool
  | CallPacket int bytes
  | CallIngress int "go_error + PacketBuffer"
  | CallStop

fun mob_exec :: "prims \<Rightarrow> mob_call \<Rightarrow> mobile \<Rightarrow> mobile go" where
  "mob_exec P (CallStart env addr key mode sni fl) m = map_option snd (StartTunnel P env addr key mode sni fl m)"
| "mob_exec P (CallPacket now pkt) m = OnPacketFromDevice P now pkt m"
| "mob_exec P (CallIngress now rcv) m =
     (case globalEngine m of None \<Rightarrow> Some m | Some e \<Rightarrow> map_option snd (runNetworkIngress P now e rcv m))"
| "mob_exec P CallStop m = StopTunnel m"

fun call_ok :: "mob_call \<Rightarrow> bool" where
  "call_ok (CallStart env addr key mode sni fl) = net_ok (ce_net env)"
| "call_ok (CallIngress now rcv) = (case rcv of Inr b \<Rightarrow> wf_buf b | Inl e \<Rightarrow> True)"
| "call_ok _ = True"

lemma mob_exec_ok:
  assumes "aead_ok P" "dh_ok P" "call_ok c" "mobile_ok m"
  shows "\<exists>m'. mob_exec P c m = Some m' \<and> mobile_ok m'"
proof (cases c)
  case (CallStart env addr key mode sni fl)
  then show ?thesis using StartTunnel_ok [of P env m addr key mode sni fl] assms by auto
next
  case (CallPacket now pkt)
  then show ?thesis using OnPacketFromDevice_ok [OF assms(4)] by simp
next
  case (CallIngress now rcv)
  have "\<forall>b. rcv = Inr b \<longrightarrow> wf_buf b" using assms(3) CallIngress by (simp split: sum.splits)
  then show ?thesis using CallIngress runNetworkIngress_ok [OF assms(4), of _ rcv P now] assms(4)
    by (cases "globalEngine m") auto
next
  case CallStop
  then show ?thesis using stop_locked_ok [OF assms(4)] assms(4) by (cases "globalEngine m") (auto simp: StopTunnel_def)
qed

section \<open>The engine as a tunnel endpoint\<close>

definition engine_up :: "mobile \<Rightarrow> bool" where
  "engine_up m \<longleftrightarrow> (\<exists>e. globalEngine m = Some e \<and> e < length (engines m) \<and> flow (engines m ! e))"

definition engine_of :: "mobile \<Rightarrow> TunnelEngine" where
  "engine_of m = engines m ! the (globalEngine m)"

definition mobile_recv :: "prims \<Rightarrow> int \<Rightarrow> PacketBuffer \<Rightarrow> mobile \<Rightarrow> mobile go" where
  "mobile_recv P now b m = map_option snd (runNetworkIngress P now (the (globalEngine m)) (Inr b) m)"

lemma set_engine_simps [simp]:
  "globalEngine (set_engine m e en) = globalEngine m"
  "e < length (engines m) \<Longrightarrow> engines (set_engine m e en) ! e = en"
  "length (engines (set_engine m e en)) = length (engines m)"
  by (simp_all add: set_engine_def)

interpretation mobile: tunnel_endpoint engine_up "\<lambda>m. te_session (engine_of m)" "\<lambda>m. map snd (te_sent (engine_of m))"
  "\<lambda>m. te_delivered (engine_of m)" packet_out mobile_recv
proof (unfold_locales, goal_cases)
  case (1 m P b now s w)
  then obtain e where "globalEngine m = Some e" "e < length (engines m)" "flow (engines m ! e)" by (auto simp: engine_up_def)
  then show ?case using 1 by (simp add: packet_out_def engine_of_def engine_up_def Let_def)
next
  case (2 m P now b s pkt)
  then obtain e where e: "globalEngine m = Some e" "e < length (engines m)" "flow (engines m ! e)" by (auto simp: engine_up_def)
  show ?case
  proof (cases pkt)
    case None
    then show ?thesis using 2 e by (simp add: mobile_recv_def runNetworkIngress_def engine_of_def engine_up_def Let_def)
  next
    case (Some hb)
    obtain h b' where hb: "hb = (h, b')" by fastforce
    have "wf_buf b'" using open_packet_out_wf [OF 2(2)] 2(3) Some hb by blast
    then show ?thesis using 2 e Some hb by (auto simp: mobile_recv_def runNetworkIngress_def engine_of_def engine_up_def Let_def)
  qed
qed

section \<open>Properties\<close>



text \<open>
  Concurrent calls can crash the application. \<open>StopTunnel\<close> tests the global engine before it takes the lock and reads
  the variable again under the lock: of two calls that both passed the test, the second one dereferences nil, and so does a packet from
  the device that passed its own test before the tunnel was stopped.
\<close>

lemma concurrent_stop_panics:
  assumes "mobile_ok m" "globalEngine m = Some e"
  shows "\<exists>m'. stop_locked m = Some m' \<and> stop_locked m' = None \<and> packet_out P now buf m' = None"
proof -
  from stop_locked_ok [OF assms] obtain m' where "stop_locked m = Some m'" "globalEngine m' = None" by blast
  then show ?thesis by (simp add: stop_locked_def packet_out_def)
qed

end
