(* ===== verification/Ant_System.thy ===== *)
theory Ant_System
  imports Ant_Server Ant_Mobile
begin

text \<open>
  The clients and the exit node together. A client reaches the server through a transport that it shares with
  it: the server's handler receives each message the client sends from the same address, and the client
  receives what the server sends to that address. Both sides read messages into pooled buffers.
\<close>

section \<open>The server behind the network\<close>

text \<open>What the handshake of a client sees of a server in state \<open>sv\<close>.\<close>

definition server_net ::
  "prims \<Rightarrow> server_cfg \<Rightarrow> bytes \<Rightarrow> bytes option \<Rightarrow> int \<Rightarrow> nat \<Rightarrow> net_addr \<Rightarrow> server \<Rightarrow> network" where
  "server_net P cfg idx eph now tr a sv msg =
     (None, case handleIncomingPacket P cfg idx eph now tr a (fill pooled msg) sv of
              None \<Rightarrow> Inl (ErrOS ''timeout'')
            | Some sv' \<Rightarrow>
                (case drop (length (sv_sent sv)) (sv_sent sv') of
                   [] \<Rightarrow> Inl (ErrOS ''timeout'')
                 | (_, _, out) # _ \<Rightarrow> Inr (fill pooled out)))"

datatype traffic = Up PacketBuffer | Down PacketBuffer

text \<open>A packet read from the client's TUN device, and one read from the server's.\<close>

definition uplink ::
  "(prims \<Rightarrow> int \<Rightarrow> PacketBuffer \<Rightarrow> 's \<Rightarrow> 's go) \<Rightarrow> ('s \<Rightarrow> bytes list) \<Rightarrow> prims \<Rightarrow> server_cfg \<Rightarrow> bytes \<Rightarrow> bytes option \<Rightarrow> int
     \<Rightarrow> nat \<Rightarrow> net_addr \<Rightarrow> PacketBuffer \<Rightarrow> 's \<times> server \<Rightarrow> ('s \<times> server) go" where
  "uplink send sent P cfg idx eph now tr a b w = do {
     st \<leftarrow> send P now b (fst w);
     sv \<leftarrow> feed (\<lambda>m. handleIncomingPacket P cfg idx eph now tr a (fill pooled m)) (drop (length (sent (fst w))) (sent st)) (snd w);
     Some (st, sv)
   }"

definition downlink ::
  "(prims \<Rightarrow> int \<Rightarrow> PacketBuffer \<Rightarrow> 's \<Rightarrow> 's go) \<Rightarrow> prims \<Rightarrow> int \<Rightarrow> nat \<Rightarrow> net_addr \<Rightarrow> PacketBuffer \<Rightarrow> 's \<times> server \<Rightarrow> ('s \<times> server) go" where
  "downlink recv P now tr a b w = do {
     sv \<leftarrow> egress_step P now b (snd w);
     st \<leftarrow> feed (\<lambda>m. recv P now (fill pooled m))
            (map (snd \<circ> snd) (filter (\<lambda>m. fst m = tr \<and> fst (snd m) = a) (drop (length (sv_sent (snd w))) (sv_sent sv)))) (fst w);
     Some (st, sv)
   }"

fun relay ::
  "(prims \<Rightarrow> int \<Rightarrow> PacketBuffer \<Rightarrow> 's \<Rightarrow> 's go) \<Rightarrow> (prims \<Rightarrow> int \<Rightarrow> PacketBuffer \<Rightarrow> 's \<Rightarrow> 's go) \<Rightarrow> ('s \<Rightarrow> bytes list)
     \<Rightarrow> prims \<Rightarrow> server_cfg \<Rightarrow> bytes \<Rightarrow> bytes option \<Rightarrow> int \<Rightarrow> nat \<Rightarrow> net_addr \<Rightarrow> traffic \<Rightarrow> 's \<times> server \<Rightarrow> ('s \<times> server) go" where
  "relay send recv sent P cfg idx eph now tr a (Up b) w = uplink send sent P cfg idx eph now tr a b w"
| "relay send recv sent P cfg idx eph now tr a (Down b) w = downlink recv P now tr a b w"

definition ups :: "traffic list \<Rightarrow> bytes list" where
  "ups es = concat (map (\<lambda>e. case e of Up b \<Rightarrow> [content b] | Down b \<Rightarrow> []) es)"

definition downs :: "traffic list \<Rightarrow> bytes list" where
  "downs es = concat (map (\<lambda>e. case e of Up b \<Rightarrow> [] | Down b \<Rightarrow> [content b]) es)"

definition src_ip :: "bytes \<Rightarrow> string" where "src_ip p = ip_string (take 4 (drop 12 p))"
definition dst_ip :: "bytes \<Rightarrow> string" where "dst_ip p = ip_string (take 4 (drop 16 p))"

definition ipv4_packet :: "PacketBuffer \<Rightarrow> bool" where
  "ipv4_packet b \<longleftrightarrow> has_room b \<and> 20 \<le> Length b \<and> Length b + TagSize + HeaderSize \<le> DefaultBufferSize
     \<and> drop_bit 4 (content b ! 0) = 4"

text \<open>
  IPv4 packets that fit a message, those from the client not of the one size the server takes for a
  handshake, those to the client for an address it has already sent from.
\<close>

fun traffic_ok :: "string list \<Rightarrow> traffic list \<Rightarrow> bool" where
  "traffic_ok ips [] = True"
| "traffic_ok ips (Up b # es) = (ipv4_packet b \<and> Length b \<noteq> 78 \<and> traffic_ok (src_ip (content b) # ips) es)"
| "traffic_ok ips (Down b # es) = (ipv4_packet b \<and> dst_ip (content b) \<in> set ips \<and> traffic_ok ips es)"

section \<open>A session and its counterpart\<close>

definition in_sync :: "ReplayWindow \<Rightarrow> u64 \<Rightarrow> bool" where
  "in_sync rw n \<longleftrightarrow> maxSeq rw < n \<or> n = 0 \<and> rw = new_ReplayWindow"

lemma in_sync_new: "in_sync new_ReplayWindow 0"
  by (simp add: in_sync_def)

lemma in_sync_step:
  assumes "in_sync rw n" "unat n < 2 ^ 64 - 1"
  shows "fst (CheckAndSet rw n)" "in_sync (snd (CheckAndSet rw n)) (n + 1)"
proof -
  have lt: "n < n + 1" using assms(2) by (simp add: word_less_nat_alt unat_word_ariths)
  have zero: "fst (CheckAndSet new_ReplayWindow 0)" "maxSeq (snd (CheckAndSet new_ReplayWindow 0)) = 0" by code_simp+
  show "fst (CheckAndSet rw n)" "in_sync (snd (CheckAndSet rw n)) (n + 1)"
    using assms(1) CheckAndSet_advance [of rw n] zero lt by (auto simp: in_sync_def)
qed

definition routed :: "server \<Rightarrow> string \<Rightarrow> sref \<Rightarrow> nat \<Rightarrow> net_addr \<Rightarrow> bool" where
  "routed sv ip r tr a \<longleftrightarrow> (\<exists>p. map_of (peersByIP (sv_table sv)) ip = Some p \<and> peer_Session (sv_peers sv ! p) = r
     \<and> peer_Transport (sv_peers sv ! p) = tr \<and> peer_RemoteAddr (sv_peers sv ! p) = a)"

text \<open>
  The session \<open>s\<close> of a client and the server's session \<open>r\<close> for it: each opens what the other seals, each
  replay window is behind the other's counter, which is at most \<open>n\<close>, and the addresses \<open>ips\<close> are routed to the client.
\<close>

definition linked :: "nat \<Rightarrow> net_addr \<Rightarrow> string list \<Rightarrow> nat \<Rightarrow> Session \<Rightarrow> server \<Rightarrow> bool" where
  "linked tr a ips n s sv \<longleftrightarrow> server_ok sv \<and> (\<exists>r. SessionManager_Get (sv_mgr sv) (RemoteIndex s) = Some r
     \<and> paired s (sv_store sv ! r) \<and> paired (sv_store sv ! r) s
     \<and> in_sync (replay (sv_store sv ! r)) (sendCounter s) \<and> in_sync (replay s) (sendCounter (sv_store sv ! r))
     \<and> unat (sendCounter s) \<le> n \<and> unat (sendCounter (sv_store sv ! r)) \<le> n
     \<and> (\<forall>ip \<in> set ips. routed sv ip r tr a))"

lemma carries_length:
  assumes "aead_ok P" "cipher_ok c" "carries P c h pt w"
  shows "length (content w) = length pt + TagSize + HeaderSize"
  using assms aead_lengthD [OF assms(1)] by (auto simp: carries_def cipher_ok_def)

lemma unat_suc: "unat (n :: u64) < 2 ^ 64 - 1 \<Longrightarrow> unat (n + 1) = Suc (unat n)"
  by (simp add: unat_word_ariths)

lemma paired_update [simp]:
  "paired (s\<lparr>sendCounter := k, LastActive := t\<rparr>) s' = paired s s'" "paired s' (s\<lparr>sendCounter := k, LastActive := t\<rparr>) = paired s' s"
  "paired (s\<lparr>replay := rw, LastActive := t\<rparr>) s' = paired s s'" "paired s' (s\<lparr>replay := rw, LastActive := t\<rparr>) = paired s' s"
  by (simp_all add: paired_def)

lemma routed_register:
  assumes ok: "table_ok (sv_table sv) (sv_peers sv) (length (sv_store sv))"
    and reg: "PeerTable_Register (sv_table sv) (sv_peers sv) ip r tr a now = (pt', ps')"
    and tab: "sv_table sv' = pt'" "sv_peers sv' = ps'" and old: "jp = ip \<or> routed sv jp r tr a"
  shows "routed sv' jp r tr a"
proof (cases "jp = ip")
  case True
  then show ?thesis using Register_found [OF ok reg] tab by (auto simp: routed_def)
next
  case False
  then obtain p where "map_of (peersByIP (sv_table sv)) jp = Some p" "peer_Session (sv_peers sv ! p) = r"
    "peer_Transport (sv_peers sv ! p) = tr" "peer_RemoteAddr (sv_peers sv ! p) = a" using old by (auto simp: routed_def)
  then show ?thesis using Register_other [OF ok reg False] tab by (auto simp: routed_def)
qed

text \<open>A packet from the client, at the server.\<close>

lemma linked_up:
  assumes A: "aead_ok P" and D: "dh_ok P" and link: "linked tr a ips n s sv" and n: "n < 2 ^ 64 - 1" and tun: "has_tun cfg"
    and c: "SendCipher s = Some c" and w: "carries P c (out_header s TypeData 0) pt w"
    and pt: "20 \<le> length pt" "drop_bit 4 (pt ! 0) = 4" "Length w \<noteq> NoiseHandshakeInitSize"
  shows "\<exists>sv'. handleIncomingPacket P cfg idx eph now tr a w sv = Some sv' \<and> sv_tun sv' = sv_tun sv @ [pt]
    \<and> linked tr a (src_ip pt # ips) (Suc n) (s\<lparr>sendCounter := sendCounter s + 1, LastActive := t\<rparr>) sv'"
proof -
  from link obtain r where ok: "server_ok sv" and r: "SessionManager_Get (sv_mgr sv) (RemoteIndex s) = Some r"
    and pr: "paired s (sv_store sv ! r)" "paired (sv_store sv ! r) s"
    and sync: "in_sync (replay (sv_store sv ! r)) (sendCounter s)" "in_sync (replay s) (sendCounter (sv_store sv ! r))"
    and cnt: "unat (sendCounter s) \<le> n" "unat (sendCounter (sv_store sv ! r)) \<le> n"
    and routes: "\<forall>ip \<in> set ips. routed sv ip r tr a" unfolding linked_def by blast
  have bound: "r < length (sv_store sv)" using registered [OF ok r] by simp
  have rc: "RecvCipher (sv_store sv ! r) = Some c" using pr(1) c by (auto simp: paired_def)
  have small: "unat (sendCounter s) < 2 ^ 64 - 1" using cnt(1) n by linarith
  note fresh = in_sync_step [OF sync(1) small]
  have tab: "table_ok (sv_table sv) (sv_peers sv) (length (sv_store sv))" using ok by (simp add: server_ok_def)
  obtain pt' ps' where reg: "PeerTable_Register (sv_table sv) (sv_peers sv) (src_ip pt) r tr a now = (pt', ps')" by fastforce
  define s' where "s' = (sv_store sv ! r)\<lparr>replay := snd (CheckAndSet (replay (sv_store sv ! r)) (sendCounter s)), LastActive := now\<rparr>"
  define sv' where "sv' = sv\<lparr>sv_store := (sv_store sv)[r := s'], sv_table := pt', sv_peers := ps', sv_tun := sv_tun sv @ [pt]\<rparr>"
  have run: "handleIncomingPacket P cfg idx eph now tr a w sv = Some sv'"
    using data_packet_run [OF A ok tun _ rc _ w _ pt reg [unfolded src_ip_def]] r fresh(1)
    by (simp add: sv'_def s'_def)
  have "server_ok sv'" using handleIncomingPacket_ok [OF A D ok, of w cfg idx eph now tr a] w run by (simp add: carries_def)
  moreover have "routed sv' ip r tr a" if "ip \<in> set (src_ip pt # ips)" for ip
    using routed_register [OF tab reg, of sv'] that routes by (auto simp: sv'_def)
  ultimately have "linked tr a (src_ip pt # ips) (Suc n) (s\<lparr>sendCounter := sendCounter s + 1, LastActive := t\<rparr>) sv'"
    unfolding linked_def using r pr sync fresh(2) cnt bound unat_suc [OF small]
    by (intro conjI exI [of _ r]) (simp_all add: sv'_def s'_def)
  then show ?thesis using run by (auto simp: sv'_def)
qed

text \<open>A packet for the client, at the server: it is sent once, to the client.\<close>

lemma linked_down:
  assumes A: "aead_ok P" and link: "linked tr a ips n s sv" and n: "n < 2 ^ 64 - 1"
    and b: "ipv4_packet b" "dst_ip (content b) \<in> set ips"
  shows "\<exists>sv' w h c. egress_step P now b sv = Some sv' \<and> sv_tun sv' = sv_tun sv \<and> sv_sent sv' = sv_sent sv @ [(tr, a, content w)]
    \<and> RecvCipher s = Some c \<and> cipher_ok c \<and> carries P c h (content b) w \<and> Type h = TypeData
    \<and> ReceiverIndex h = LocalIndex s \<and> fst (CheckAndSet (replay s) (Counter h))
    \<and> linked tr a ips (Suc n) (s\<lparr>replay := snd (CheckAndSet (replay s) (Counter h)), LastActive := t\<rparr>) sv'"
proof -
  from link obtain r where ok: "server_ok sv" and r: "SessionManager_Get (sv_mgr sv) (RemoteIndex s) = Some r"
    and pr: "paired s (sv_store sv ! r)" "paired (sv_store sv ! r) s"
    and sync: "in_sync (replay (sv_store sv ! r)) (sendCounter s)" "in_sync (replay s) (sendCounter (sv_store sv ! r))"
    and cnt: "unat (sendCounter s) \<le> n" "unat (sendCounter (sv_store sv ! r)) \<le> n"
    and routes: "\<forall>ip \<in> set ips. routed sv ip r tr a" unfolding linked_def by blast
  let ?s = "sv_store sv ! r"
  have bound: "r < length (sv_store sv)" using registered [OF ok r] by simp
  from pr(2) obtain c where c: "SendCipher ?s = Some c" "RecvCipher s = Some c" "cipher_ok c" "RemoteIndex ?s = LocalIndex s"
    by (auto simp: paired_def)
  have small: "unat (sendCounter ?s) < 2 ^ 64 - 1" using cnt(2) n by linarith
  note fresh = in_sync_step [OF sync(2) small]
  obtain p where p: "PeerTable_Lookup (sv_table sv) (dst_ip (content b)) = Some p" "peer_Session (sv_peers sv ! p) = r"
    "peer_Transport (sv_peers sv ! p) = tr" "peer_RemoteAddr (sv_peers sv ! p) = a"
    using routes b(2) by (auto simp: routed_def PeerTable_Lookup_def)
  have v4: "has_room b" "20 \<le> Length b" "drop_bit 4 (content b ! 0) = 4" using b(1) by (simp_all add: ipv4_packet_def)
  define s' where "s' = ?s\<lparr>sendCounter := sendCounter ?s + 1, LastActive := now\<rparr>"
  define sv' where "sv' w = sv\<lparr>sv_store := (sv_store sv)[r := s'], sv_sent := sv_sent sv @ [(tr, a, content w)]\<rparr>" for w
  from egress_run [OF A v4(1) refl _ p(2) c(1,3), of now] obtain w where w:
    "carries P c (out_header ?s TypeData 0) (content b) w" "egress_step P now b sv = Some (sv' w)"
    using p v4 by (auto simp: dst_ip_def sv'_def s'_def)
  have "server_ok (sv' w)"
    using ok mgr_ok_update [of "sv_mgr sv" "sv_store sv" s' r] by (simp add: server_ok_def sv'_def s'_def live_def)
  moreover have "routed (sv' w) ip r tr a" if "ip \<in> set ips" for ip
    using routes that by (simp add: routed_def sv'_def)
  ultimately have "linked tr a ips (Suc n) (s\<lparr>replay := snd (CheckAndSet (replay s) (sendCounter ?s)), LastActive := t\<rparr>) (sv' w)"
    unfolding linked_def using r pr sync fresh(2) cnt bound unat_suc [OF small]
    by (intro conjI exI [of _ r]) (simp_all add: sv'_def s'_def)
  then show ?thesis
    using w c fresh(1) by (intro exI [of _ "sv' w"] exI [of _ w] exI [of _ "out_header ?s TypeData 0"] exI [of _ c]) (simp add: sv'_def)
qed

section \<open>Traffic\<close>

context tunnel_endpoint
begin

lemma up_step:
  assumes A: "aead_ok P" and D: "dh_ok P" and tun: "has_tun cfg" and up: "up st" and link: "linked tr a ips n (sess st) sv"
    and n: "n < 2 ^ 64 - 1" and b: "ipv4_packet b" "Length b \<noteq> 78"
  shows "\<exists>st' sv'. uplink send sent P cfg idx eph now tr a b (st, sv) = Some (st', sv') \<and> up st' \<and> got st' = got st
    \<and> sv_tun sv' = sv_tun sv @ [content b] \<and> linked tr a (src_ip (content b) # ips) (Suc n) (sess st') sv'"
proof -
  from link obtain c where c: "SendCipher (sess st) = Some c" "cipher_ok c" by (auto simp: linked_def paired_def)
  have v4: "has_room b" "20 \<le> Length b" "Length b + TagSize + HeaderSize \<le> 2048" "drop_bit 4 (content b ! 0) = 4"
    using b(1) by (simp_all add: ipv4_packet_def DefaultBufferSize_def)
  have len: "length (content b) = Length b" using has_room_wf [OF v4(1)] by (rule length_content)
  from send_carries [OF A up c v4(1), of now] obtain st' w where st':
    "send P now b st = Some st'" "up st'" "got st' = got st"
    "sess st' = (sess st)\<lparr>sendCounter := sendCounter (sess st) + 1, LastActive := now\<rparr>"
    "sent st' = sent st @ [content w]" "carries P c (out_header (sess st) TypeData 0) (content b) w" by blast
  have lw: "length (content w) = Length b + TagSize + HeaderSize" using carries_length [OF A c(2) st'(6)] len by simp
  have fit: "length (content w) \<le> 2048" using lw v4(3) by simp
  have "Length (fill pooled (content w)) \<noteq> NoiseHandshakeInitSize" using fill_pooled(3) [OF fit] lw b(2) by simp
  from linked_up [OF A D link n tun c(1) carries_fill_pooled [OF st'(6) fit] _ v4(4) this, of idx eph now now] v4(2) len
  show ?thesis using st' by (auto simp: uplink_def)
qed

lemma down_step:
  assumes A: "aead_ok P" and up: "up st" and link: "linked tr a ips n (sess st) sv"
    and n: "n < 2 ^ 64 - 1" and b: "ipv4_packet b" "dst_ip (content b) \<in> set ips"
  shows "\<exists>st' sv'. downlink recv P now tr a b (st, sv) = Some (st', sv') \<and> up st' \<and> got st' = got st @ [content b]
    \<and> sv_tun sv' = sv_tun sv \<and> linked tr a ips (Suc n) (sess st') sv'"
proof -
  from linked_down [OF A link n b, of now now] obtain sv' w h c where d:
    "egress_step P now b sv = Some sv'" "sv_tun sv' = sv_tun sv" "sv_sent sv' = sv_sent sv @ [(tr, a, content w)]"
    "RecvCipher (sess st) = Some c" "cipher_ok c" "carries P c h (content b) w" "Type h = TypeData"
    "ReceiverIndex h = LocalIndex (sess st)" "fst (CheckAndSet (replay (sess st)) (Counter h))"
    "linked tr a ips (Suc n) ((sess st)\<lparr>replay := snd (CheckAndSet (replay (sess st)) (Counter h)), LastActive := now\<rparr>) sv'"
    by blast
  have "length (content b) = Length b" using b(1) has_room_wf by (simp add: ipv4_packet_def length_content)
  then have fit: "length (content w) \<le> 2048"
    using carries_length [OF A d(5,6)] b(1) by (simp add: ipv4_packet_def DefaultBufferSize_def)
  from open_packet_genuine [OF A d(4,5) carries_fill_pooled [OF d(6) fit] d(8,9), of now] obtain b' where o:
    "open_packet P now (sess st) (fill pooled (content w))
       = Some ((sess st)\<lparr>replay := snd (CheckAndSet (replay (sess st)) (Counter h)), LastActive := now\<rparr>, Some (h, b'))"
    "content b' = content b" by blast
  from recv_ok [OF up fill_pooled(1) [OF fit] o(1)] o(2) d show ?thesis by (auto simp: downlink_def)
qed

text \<open>Any mix of packets both ways is delivered, each direction in order.\<close>

lemma traffic_delivered:
  assumes A: "aead_ok P" and D: "dh_ok P" and tun: "has_tun cfg"
  shows "up st \<Longrightarrow> linked tr a ips n (sess st) sv \<Longrightarrow> traffic_ok ips es \<Longrightarrow> n + length es < 2 ^ 64 \<Longrightarrow>
    \<exists>st' sv'. feed (relay send recv sent P cfg idx eph now tr a) es (st, sv) = Some (st', sv')
      \<and> got st' = got st @ downs es \<and> sv_tun sv' = sv_tun sv @ ups es \<and> server_ok sv'"
proof (induction es arbitrary: st sv ips n)
  case Nil
  then show ?case by (simp add: ups_def downs_def linked_def)
next
  case (Cons e es)
  have n: "n < 2 ^ 64 - 1" "Suc n + length es < 2 ^ 64" using Cons.prems(4) by simp_all
  show ?case
  proof (cases e)
    case (Up b)
    with up_step [OF A D tun Cons.prems(1,2) n(1)] Cons.prems(3) obtain st1 sv1 where 1:
      "uplink send sent P cfg idx eph now tr a b (st, sv) = Some (st1, sv1)" "up st1" "got st1 = got st"
      "sv_tun sv1 = sv_tun sv @ [content b]" "linked tr a (src_ip (content b) # ips) (Suc n) (sess st1) sv1" by fastforce
    from Cons.IH [OF 1(2,5) _ n(2)] Cons.prems(3) Up 1 show ?thesis by (auto simp: ups_def downs_def)
  next
    case (Down b)
    with down_step [OF A Cons.prems(1,2) n(1)] Cons.prems(3) obtain st1 sv1 where 1:
      "downlink recv P now tr a b (st, sv) = Some (st1, sv1)" "up st1" "got st1 = got st @ [content b]"
      "sv_tun sv1 = sv_tun sv" "linked tr a ips (Suc n) (sess st1) sv1" by fastforce
    from Cons.IH [OF 1(2,5) _ n(2)] Cons.prems(3) Down 1 show ?thesis by (auto simp: ups_def downs_def)
  qed
qed

end

section \<open>Connecting\<close>

lemma server_answers:
  assumes msg: "length msg = NoiseHandshakeInitSize" and resp: "length resp = NoiseHandshakeRespSize"
    and keys: "length (SendKey sks) = 32" "length (RecvKey sks) = 32" "SenderID sks = GenerateIndex sidx"
    and run: "fst (ConsumeInitiation P (NewResponderHandshake P (serverPriv cfg) (GenerateIndex sidx)) msg r2) = Inr (resp, sks)"
  shows "\<exists>sess. NewSession sks (Some a) CipherChaCha20Poly1305 now = Inr sess \<and> LocalIndex sess = GenerateIndex sidx
    \<and> sendCounter sess = 0 \<and> replay sess = new_ReplayWindow
    \<and> handleIncomingPacket P cfg sidx r2 now tr a (fill pooled msg) sv = Some ((learn_peer (sv\<lparr>sv_store := sv_store sv @ [sess],
        sv_mgr := SessionManager_Register (sv_mgr sv) (sv_store sv @ [sess]) (length (sv_store sv))\<rparr>)
        (defaultPeerIP cfg) (length (sv_store sv)) tr a now)\<lparr>sv_sent := sv_sent sv @ [(tr, a, resp)]\<rparr>)
    \<and> server_net P cfg sidx r2 now tr a sv msg = (None, Inr (fill pooled resp))"
proof -
  obtain sess where s: "NewSession sks (Some a) CipherChaCha20Poly1305 now = Inr sess" "LocalIndex sess = GenerateIndex sidx"
    "sendCounter sess = 0" "replay sess = new_ReplayWindow"
    using NewSession_Inr [of sks CipherChaCha20Poly1305 "Some a" now] keys by auto
  have fp: "wf_buf (fill pooled msg)" "content (fill pooled msg) = msg" "Length (fill pooled msg) = NoiseHandshakeInitSize"
    using fill_pooled [of msg] msg by simp_all
  have "fst (ConsumeInitiation P (NewResponderHandshake P (serverPriv cfg) (GenerateIndex sidx)) (content (fill pooled msg)) r2) = Inr (resp, sks)"
    unfolding fp(2) by (rule run)
  from handle_initiation_run [OF fp(1) this resp s(1), of tr sv] fp(3) show ?thesis
    using s by (simp add: handleIncomingPacket_def server_net_def)
qed

lemma linked_start:
  assumes ok: "server_ok sv" and s: "paired s sess" "paired sess s" "sendCounter s = 0" "replay s = new_ReplayWindow"
    "live sess" "sendCounter sess = 0" "replay sess = new_ReplayWindow"
  defines "r \<equiv> length (sv_store sv)"
  defines "sv1 \<equiv> sv\<lparr>sv_store := sv_store sv @ [sess], sv_mgr := SessionManager_Register (sv_mgr sv) (sv_store sv @ [sess]) r\<rparr>"
  shows "linked tr a [ip] 0 s ((learn_peer sv1 ip r tr a now)\<lparr>sv_sent := out\<rparr>)"
proof -
  have ok1: "server_ok sv1"
    using ok mgr_ok_register [of "sv_mgr sv" "sv_store sv" sess] s(5) table_ok_mono [of "sv_table sv" "sv_peers sv" r "Suc r"]
    by (simp add: server_ok_def sv1_def r_def)
  then have "server_ok (learn_peer sv1 ip r tr a now)" by (intro server_ok_learn) (simp_all add: sv1_def r_def)
  then have 1: "server_ok ((learn_peer sv1 ip r tr a now)\<lparr>sv_sent := out\<rparr>)" by (simp add: server_ok_def)
  obtain pt ps where reg: "PeerTable_Register (sv_table sv1) (sv_peers sv1) ip r tr a now = (pt, ps)" by fastforce
  have 2: "routed ((learn_peer sv1 ip r tr a now)\<lparr>sv_sent := out\<rparr>) ip r tr a"
    using routed_register [OF _ reg] ok1 by (simp add: server_ok_def learn_peer_def reg)
  have 3: "SessionManager_Get (sv_mgr sv1) (RemoteIndex s) = Some r"
    using s(1) by (simp add: sv1_def r_def SessionManager_Get_Register paired_def)
  have 4: "sv_store sv1 ! r = sess" by (simp add: sv1_def r_def)
  show ?thesis unfolding linked_def using 1 2 3 4 s in_sync_new by (intro conjI exI [of _ r]) simp_all
qed

lemma client_linked:
  assumes A: "aead_ok P" and D: "dh_ok P" and len: "length k = 32" "length (serverPriv cfg) = 32"
    and g1: "GenerateKeyPair P r1 = Inr (e, epub)" and g2: "GenerateKeyPair P r2 = Inr (f, fpub)"
    and es: "SharedSecret P e (PublicKey_of P (serverPriv cfg)) = Inr es" and ss: "SharedSecret P k (PublicKey_of P (serverPriv cfg)) = Inr ss"
    and ee: "SharedSecret P e fpub = Inr ee" and se: "SharedSecret P k fpub = Inr se" and ok: "server_ok sv"
  shows "\<exists>s msg sv1. client_handshake P chk k (PublicKey_of P (serverPriv cfg)) idx r1 t (server_net P cfg sidx r2 now tr a sv) target = Some (Inr s)
    \<and> length msg = NoiseHandshakeInitSize \<and> handleIncomingPacket P cfg sidx r2 now tr a (fill pooled msg) sv = Some sv1
    \<and> linked tr a [defaultPeerIP cfg] 0 s sv1 \<and> sv_tun sv1 = sv_tun sv"
proof -
  note ans = server_answers [where cfg = cfg and sidx = sidx and P = P and tr = tr and a = a and now = now and sv = sv and ?r2.0 = r2]
  have net: "server_net P cfg sidx r2 now tr a sv msg = (None, Inr (fill pooled resp))"
    if "length msg = NoiseHandshakeInitSize" "length resp = NoiseHandshakeRespSize" "length (SendKey sks) = 32" "length (RecvKey sks) = 32"
      "SenderID sks = GenerateIndex sidx"
      "fst (ConsumeInitiation P (NewResponderHandshake P (serverPriv cfg) (GenerateIndex sidx)) msg r2) = Inr (resp, sks)" for msg resp sks
    using ans [OF that] by blast
  obtain s msg resp sks where h: "client_handshake P chk k (PublicKey_of P (serverPriv cfg)) idx r1 t (server_net P cfg sidx r2 now tr a sv) target = Some (Inr s)"
    "length msg = NoiseHandshakeInitSize" "length resp = NoiseHandshakeRespSize" "length (SendKey sks) = 32" "length (RecvKey sks) = 32"
    "SenderID sks = GenerateIndex sidx"
    "fst (ConsumeInitiation P (NewResponderHandshake P (serverPriv cfg) (GenerateIndex sidx)) msg r2) = Inr (resp, sks)"
    "sendCounter s = 0" "replay s = new_ReplayWindow"
    "\<forall>addr t sv. NewSession sks addr CipherChaCha20Poly1305 t = Inr sv \<longrightarrow> paired s sv \<and> paired sv s"
    using client_handshake_ok [where si = "GenerateIndex sidx" and chk = chk and idx = idx and now = t and target = target
      and net = "server_net P cfg sidx r2 now tr a sv", OF A D len g1 g2 es ss ee se, simplified net, OF refl] by blast
  from ans [OF h(2-7)] obtain sess where sess: "NewSession sks (Some a) CipherChaCha20Poly1305 now = Inr sess" "sendCounter sess = 0"
    "replay sess = new_ReplayWindow"
    "handleIncomingPacket P cfg sidx r2 now tr a (fill pooled msg) sv = Some ((learn_peer (sv\<lparr>sv_store := sv_store sv @ [sess],
        sv_mgr := SessionManager_Register (sv_mgr sv) (sv_store sv @ [sess]) (length (sv_store sv))\<rparr>)
        (defaultPeerIP cfg) (length (sv_store sv)) tr a now)\<lparr>sv_sent := sv_sent sv @ [(tr, a, resp)]\<rparr>)" by blast
  have "paired s sess" "paired sess s" using h(10) sess(1) by blast+
  note link = linked_start [OF ok this h(8,9) live_NewSession [OF sess(1)] sess(2,3)]
  show ?thesis using h(1,2) sess(4) link by (intro exI [of _ s] exI [of _ msg]) simp
qed

text \<open>Key pairs of which no shared secret is rejected.\<close>

definition secrets_ok :: "prims \<Rightarrow> PrivateKey \<Rightarrow> bytes option \<Rightarrow> PrivateKey \<Rightarrow> bytes option \<Rightarrow> bool" where
  "secrets_ok P k r1 b r2 \<longleftrightarrow> length k = 32 \<and> length b = 32
     \<and> (\<exists>e epub f fpub es ss ee se. GenerateKeyPair P r1 = Inr (e, epub) \<and> GenerateKeyPair P r2 = Inr (f, fpub)
          \<and> SharedSecret P e (PublicKey_of P b) = Inr es \<and> SharedSecret P k (PublicKey_of P b) = Inr ss
          \<and> SharedSecret P e fpub = Inr ee \<and> SharedSecret P k fpub = Inr se)"

lemma connected_client:
  assumes "aead_ok P" "dh_ok P" "secrets_ok P k r1 (serverPriv cfg) r2" "server_ok sv"
  obtains s msg sv1 where
    "client_handshake P chk k (PublicKey_of P (serverPriv cfg)) idx r1 t (server_net P cfg sidx r2 now tr a sv) target = Some (Inr s)"
    "length msg = NoiseHandshakeInitSize" "handleIncomingPacket P cfg sidx r2 now tr a (fill pooled msg) sv = Some sv1"
    "linked tr a [defaultPeerIP cfg] 0 s sv1" "sv_tun sv1 = sv_tun sv"
proof -
  from assms(3) obtain e epub f fpub es ss ee se where k: "length k = 32" "length (serverPriv cfg) = 32"
    "GenerateKeyPair P r1 = Inr (e, epub)" "GenerateKeyPair P r2 = Inr (f, fpub)"
    "SharedSecret P e (PublicKey_of P (serverPriv cfg)) = Inr es" "SharedSecret P k (PublicKey_of P (serverPriv cfg)) = Inr ss"
    "SharedSecret P e fpub = Inr ee" "SharedSecret P k fpub = Inr se" unfolding secrets_ok_def by blast
  from client_linked [OF assms(1,2) k assms(4), of chk idx t sidx now tr a target] that show thesis by blast
qed

lemma server_key_parses:
  assumes "dh_ok P" "secrets_ok P k r1 b r2"
  shows "ParsePublicKey (PublicKey_Base64 (PublicKey_of P b)) = Inr (PublicKey_of P b)"
  using length_PublicKey_of [OF assms(1), of b] assms(2) by (simp add: ParsePublicKey_Base64 secrets_ok_def)

lemma demo_secrets_ok:
  "secrets_ok demo_prims (replicate 32 2) (Some (replicate 32 4)) (replicate 32 3) (Some (replicate 32 5))"
  "\<exists>e epub. GenerateKeyPair demo_prims (Some (replicate 32 4)) = Inr (e, epub)
     \<and> secrets_ok demo_prims e (Some (replicate 32 4)) (replicate 32 3) (Some (replicate 32 5))"
proof -
  obtain e epub f fpub where g: "GenerateKeyPair demo_prims (Some (replicate 32 4)) = Inr (e, epub)"
    "GenerateKeyPair demo_prims (Some (replicate 32 5)) = Inr (f, fpub)"
    "\<forall>k \<in> {e, replicate 32 2}. \<forall>u \<in> {fpub, PublicKey_of demo_prims (replicate 32 3)}.
       SharedSecret demo_prims k u = Inr (scalar_mult demo_prims k u)"
    by (rule demo_secrets)
  have "length e = 32" using GenerateKeyPair_length [OF g(1)] by simp
  then show "secrets_ok demo_prims (replicate 32 2) (Some (replicate 32 4)) (replicate 32 3) (Some (replicate 32 5))"
    "\<exists>e epub. GenerateKeyPair demo_prims (Some (replicate 32 4)) = Inr (e, epub)
       \<and> secrets_ok demo_prims e (Some (replicate 32 4)) (replicate 32 3) (Some (replicate 32 5))"
    using g by (auto simp: secrets_ok_def)
qed

text \<open>A packet each way.\<close>

definition demo_up :: PacketBuffer where
  "demo_up = \<lparr>Data = (69 # replicate 11 0 @ [10, 8, 0, 2, 1, 1, 1, 1]) @ replicate 100 0, Length = 20, Offset = 0\<rparr>"

definition demo_down :: PacketBuffer where
  "demo_down = \<lparr>Data = (69 # replicate 11 0 @ [1, 1, 1, 1, 10, 8, 0, 2]) @ replicate 100 0, Length = 20, Offset = 0\<rparr>"

definition demo_traffic :: "traffic list" where
  "demo_traffic = [Up demo_up, Down demo_down]"

lemma demo_traffic_ok: "traffic_ok [''10.8.0.2''] demo_traffic"
  by code_simp

lemma demo_traffic_contents: "ups demo_traffic = [content demo_up]" "downs demo_traffic = [content demo_down]" "length demo_traffic = 2"
  by (simp_all add: ups_def downs_def demo_traffic_def)

end
