(* ===== verification/Ant_Log.thy ===== *)
theory Ant_Log
  imports Ant_Strings
begin

text \<open>
  \<open>pkg/security/zero_log.go\<close>: the logger that redacts addresses. The two regular expressions are data
  for a small matcher with the preferences of Go's \<open>regexp\<close>: leftmost match first, and greedy
  repetitions. \<open>\d\<close> and \<open>\b\<close> are the ASCII classes.
\<close>

section \<open>Regular expressions\<close>

datatype rx =
    RChar "char \<Rightarrow> bool"   \<comment> \<open>one character of a class\<close>
  | RBound                  \<comment> \<open>word boundary\<close>
  | RSeq rx rx
  | RRep nat nat rx         \<comment> \<open>\<open>RRep m n r\<close> is \<open>r{m,m+n}\<close>\<close>

definition is_digit :: "char \<Rightarrow> bool" where
  "is_digit c \<longleftrightarrow> c \<in> set ''0123456789''"

definition is_hex :: "char \<Rightarrow> bool" where
  "is_hex c \<longleftrightarrow> c \<in> set ''ABCDEF0123456789abcdef''"

definition is_word :: "char \<Rightarrow> bool" where
  "is_word c \<longleftrightarrow> c \<in> set ''0123456789ABCDEFGHIJKLMNOPQRSTUVWXYZabcdefghijklmnopqrstuvwxyz_''"

text \<open>A position: the character before it, if any, and the rest of the text.\<close>

type_synonym pos = "char option \<times> string"

definition at_word :: "char option \<Rightarrow> bool" where
  "at_word c = (case c of None \<Rightarrow> False | Some x \<Rightarrow> is_word x)"

definition next_char :: "string \<Rightarrow> char option" where
  "next_char s = (case s of [] \<Rightarrow> None | c # _ \<Rightarrow> Some c)"

text \<open>The positions after a match that starts at a position, the preferred one first.\<close>

function rx_ends :: "rx \<Rightarrow> pos \<Rightarrow> pos list" where
  "rx_ends (RChar p) (pv, s) = (case s of [] \<Rightarrow> [] | c # s' \<Rightarrow> if p c then [(Some c, s')] else [])"
| "rx_ends RBound (pv, s) = (if at_word pv \<noteq> at_word (next_char s) then [(pv, s)] else [])"
| "rx_ends (RSeq a b) ps = concat (map (rx_ends b) (rx_ends a ps))"
| "rx_ends (RRep (Suc m) n r) ps = concat (map (rx_ends (RRep m n r)) (rx_ends r ps))"
| "rx_ends (RRep 0 (Suc n) r) ps = concat (map (rx_ends (RRep 0 n r)) (rx_ends r ps)) @ [ps]"
| "rx_ends (RRep 0 0 r) ps = [ps]"
  by pat_completeness auto

fun rx_measure :: "rx \<Rightarrow> nat" where
  "rx_measure (RSeq a b) = Suc (rx_measure a + rx_measure b)"
| "rx_measure (RRep m n r) = Suc (m + n + rx_measure r)"
| "rx_measure _ = 0"

termination rx_ends
  by (relation "measure (rx_measure \<circ> fst)") auto

text \<open>\<open>ReplaceAllString\<close>, for an expression that matches no empty text.\<close>

function replace_all :: "rx \<Rightarrow> string \<Rightarrow> pos \<Rightarrow> string" where
  "replace_all r rep (pv, s) =
     (case rx_ends r (pv, s) of
        (pv', s') # _ \<Rightarrow> if length s' < length s then rep @ replace_all r rep (pv', s') else s
      | [] \<Rightarrow> (case s of [] \<Rightarrow> [] | c # s' \<Rightarrow> c # replace_all r rep (Some c, s')))"
  by pat_completeness auto

termination replace_all
  by (relation "measure (\<lambda>(r, rep, pv, s). length s)") auto

section \<open>Redaction\<close>

text \<open>\<open>\b(?:\d{1,3}\.){3}\d{1,3}\b\<close>\<close>

definition ipv4Regex :: rx where
  "ipv4Regex =
     RSeq RBound (RSeq (RRep 3 0 (RSeq (RRep 1 2 (RChar is_digit)) (RChar (\<lambda>c. c = CHR ''.''))))
       (RSeq (RRep 1 2 (RChar is_digit)) RBound))"

text \<open>\<open>\b(?:[A-F0-9a-f]{1,4}:){7}[A-F0-9a-f]{1,4}\b\<close>\<close>

definition ipv6Regex :: rx where
  "ipv6Regex =
     RSeq RBound (RSeq (RRep 7 0 (RSeq (RRep 1 3 (RChar is_hex)) (RChar (\<lambda>c. c = CHR '':''))))
       (RSeq (RRep 1 3 (RChar is_hex)) RBound))"

definition Sanitize :: "string \<Rightarrow> string" where
  "Sanitize msg =
     (let msg1 = replace_all ipv4Regex ''[REDACTED_IP]'' (None, msg)
      in replace_all ipv6Regex ''[REDACTED_IPV6]'' (None, msg1))"

section \<open>Logger\<close>

definition LevelOff :: int where "LevelOff = 0"
definition LevelError :: int where "LevelError = 1"
definition LevelWarn :: int where "LevelWarn = 2"
definition LevelInfo :: int where "LevelInfo = 3"
definition LevelDebug :: int where "LevelDebug = 4"

text \<open>\<open>sink\<close>, the \<open>output\<close> of the code, is what has gone to the writer; \<open>None\<close> is \<open>io.Discard\<close>, which a nil writer becomes.\<close>

record ZeroLogger =
  level :: int
  sink :: "string option"

definition NewZeroLogger :: "int \<Rightarrow> string option \<Rightarrow> ZeroLogger" where
  "NewZeroLogger lvl out = \<lparr>level = lvl, sink = out\<rparr>"

definition defaultLogger :: ZeroLogger where
  "defaultLogger = NewZeroLogger LevelWarn (Some [])"

definition SetLevel :: "int \<Rightarrow> ZeroLogger \<Rightarrow> ZeroLogger" where
  "SetLevel lvl l = l\<lparr>level := lvl\<rparr>"

text \<open>\<open>rawMsg\<close> is the formatted message and \<open>timestamp\<close> the time of day.\<close>

definition log_message :: "int \<Rightarrow> string \<Rightarrow> string \<Rightarrow> string \<Rightarrow> ZeroLogger \<Rightarrow> ZeroLogger" where
  "log_message lvl label rawMsg timestamp l =
     (if level l < lvl then l
      else let safeMsg = Sanitize rawMsg
           in l\<lparr>sink := map_option (\<lambda>w. w @ ''['' @ timestamp @ ''] ['' @ label @ ''] '' @ safeMsg @ [CHR 0x0A])
                             (sink l)\<rparr>)"

definition log_Error :: "string \<Rightarrow> string \<Rightarrow> ZeroLogger \<Rightarrow> ZeroLogger" where
  "log_Error = log_message LevelError ''ERROR''"
definition log_Warn :: "string \<Rightarrow> string \<Rightarrow> ZeroLogger \<Rightarrow> ZeroLogger" where
  "log_Warn = log_message LevelWarn ''WARN''"
definition log_Info :: "string \<Rightarrow> string \<Rightarrow> ZeroLogger \<Rightarrow> ZeroLogger" where
  "log_Info = log_message LevelInfo ''INFO''"
definition log_Debug :: "string \<Rightarrow> string \<Rightarrow> ZeroLogger \<Rightarrow> ZeroLogger" where
  "log_Debug = log_message LevelDebug ''DEBUG''"

text \<open>The functions of the package, on the state of \<open>defaultLogger\<close>, and the level \<open>main\<close> of the three programs sets from its flag \<open>-v\<close>.\<close>

definition security_Error :: "string \<Rightarrow> string \<Rightarrow> ZeroLogger \<Rightarrow> ZeroLogger" where "security_Error = log_Error"
definition security_Warn :: "string \<Rightarrow> string \<Rightarrow> ZeroLogger \<Rightarrow> ZeroLogger" where "security_Warn = log_Warn"
definition security_Info :: "string \<Rightarrow> string \<Rightarrow> ZeroLogger \<Rightarrow> ZeroLogger" where "security_Info = log_Info"
definition security_Debug :: "string \<Rightarrow> string \<Rightarrow> ZeroLogger \<Rightarrow> ZeroLogger" where "security_Debug = log_Debug"
definition SetLogLevel :: "int \<Rightarrow> ZeroLogger \<Rightarrow> ZeroLogger" where "SetLogLevel = SetLevel"

definition verbosity :: "bool \<Rightarrow> ZeroLogger \<Rightarrow> ZeroLogger" where
  "verbosity verbose l = (if verbose then SetLogLevel LevelDebug l else SetLogLevel LevelInfo l)"

text \<open>Without \<open>-v\<close> the programs write everything but debug messages.\<close>

lemma verbosity_writes:
  "sink (log_message lvl label msg ts (verbosity verbose l)) \<noteq> sink l \<longleftrightarrow> sink l \<noteq> None \<and> lvl \<le> (if verbose then LevelDebug else LevelInfo)"
  by (cases "sink l") (auto simp: log_message_def verbosity_def SetLogLevel_def SetLevel_def Let_def)

section \<open>What the matcher finds\<close>

text \<open>The language of an expression, boundaries aside.\<close>

function lang :: "rx \<Rightarrow> string set" where
  "lang (RChar p) = {[c] | c. p c}"
| "lang RBound = {[]}"
| "lang (RSeq a b) = {x @ y | x y. x \<in> lang a \<and> y \<in> lang b}"
| "lang (RRep (Suc m) n r) = {x @ y | x y. x \<in> lang r \<and> y \<in> lang (RRep m n r)}"
| "lang (RRep 0 (Suc n) r) = insert [] {x @ y | x y. x \<in> lang r \<and> y \<in> lang (RRep 0 n r)}"
| "lang (RRep 0 0 r) = {[]}"
  by pat_completeness auto

termination lang
  by (relation "measure rx_measure") auto

fun bound_free :: "rx \<Rightarrow> bool" where
  "bound_free RBound = False"
| "bound_free (RSeq a b) = (bound_free a \<and> bound_free b)"
| "bound_free (RRep m n r) = bound_free r"
| "bound_free (RChar p) = True"

definition prev :: "char option \<Rightarrow> string \<Rightarrow> char option" where
  "prev pv m = (if m = [] then pv else Some (last m))"

lemma prev_Nil [simp]: "prev pv [] = pv"
  by (simp add: prev_def)

lemma prev_append: "prev (prev pv x) y = prev pv (x @ y)"
  by (simp add: prev_def)

definition moves :: "string \<Rightarrow> pos \<Rightarrow> pos \<Rightarrow> bool" where
  "moves m ps q \<longleftrightarrow> snd ps = m @ snd q \<and> fst q = prev (fst ps) m"

lemma moves_Nil [simp]: "moves [] ps q \<longleftrightarrow> q = ps"
  by (auto simp: moves_def prod_eq_iff)

lemma moves_append: "moves (x @ y) ps q \<longleftrightarrow> (\<exists>u. moves x ps u \<and> moves y u q)"
proof
  assume "moves (x @ y) ps q"
  then have "moves x ps (prev (fst ps) x, y @ snd q) \<and> moves y (prev (fst ps) x, y @ snd q) q"
    by (simp add: moves_def prev_append)
  then show "\<exists>u. moves x ps u \<and> moves y u q" by blast
next
  assume "\<exists>u. moves x ps u \<and> moves y u q"
  then obtain u where "moves x ps u" "moves y u q" by blast
  then show "moves (x @ y) ps q" by (simp add: moves_def prev_append)
qed

lemma ends_seq:
  assumes "\<And>u. u \<in> set us \<longleftrightarrow> (\<exists>x \<in> A. moves x ps u)" and "\<And>u. u \<in> set us \<Longrightarrow> q \<in> set (g u) \<longleftrightarrow> (\<exists>y \<in> B. moves y u q)"
  shows "q \<in> set (concat (map g us)) \<longleftrightarrow> (\<exists>m \<in> {x @ y | x y. x \<in> A \<and> y \<in> B}. moves m ps q)"
proof -
  have "q \<in> set (concat (map g us)) \<longleftrightarrow> (\<exists>u \<in> set us. \<exists>y \<in> B. moves y u q)"
    unfolding set_concat set_map UN_simps UN_iff using assms(2) by blast
  also have "\<dots> \<longleftrightarrow> (\<exists>x \<in> A. \<exists>y \<in> B. \<exists>u. moves x ps u \<and> moves y u q)"
    unfolding Bex_def assms(1) by blast
  also have "\<dots> \<longleftrightarrow> (\<exists>x \<in> A. \<exists>y \<in> B. moves (x @ y) ps q)" unfolding moves_append ..
  finally show ?thesis by blast
qed

lemma moves_one: "moves [c] (pv, s) q \<longleftrightarrow> s = c # snd q \<and> fst q = Some c"
  by (simp add: moves_def prev_def)

lemma ends_RChar: "q \<in> set (rx_ends (RChar p) (pv, s)) \<longleftrightarrow> (\<exists>m \<in> lang (RChar p). moves m (pv, s) q)"
proof -
  have "(\<exists>m \<in> lang (RChar p). moves m (pv, s) q) \<longleftrightarrow> (\<exists>c. p c \<and> moves [c] (pv, s) q)"
    unfolding lang.simps by blast
  also have "\<dots> \<longleftrightarrow> (\<exists>c. p c \<and> s = c # snd q \<and> fst q = Some c)" unfolding moves_one ..
  also have "\<dots> \<longleftrightarrow> q \<in> set (rx_ends (RChar p) (pv, s))"
    unfolding rx_ends.simps by (cases s) (auto simp only: list.case prod_eq_iff list.inject set_simps fst_conv snd_conv split: if_splits)
  finally show ?thesis ..
qed

lemma rx_ends_lang: "bound_free r \<Longrightarrow> q \<in> set (rx_ends r ps) \<longleftrightarrow> (\<exists>m \<in> lang r. moves m ps q)"
proof (induction r ps arbitrary: q rule: rx_ends.induct)
  case (1 p pv s)
  show ?case by (rule ends_RChar)
next
  case (3 a b ps)
  then show ?case unfolding rx_ends.simps lang.simps by (intro ends_seq) simp_all
next
  case (4 m n r ps)
  then show ?case unfolding rx_ends.simps lang.simps by (intro ends_seq) simp_all
next
  case (5 n r ps)
  have "q \<in> set (concat (map (rx_ends (RRep 0 n r)) (rx_ends r ps)))
      \<longleftrightarrow> (\<exists>m \<in> {x @ y | x y. x \<in> lang r \<and> y \<in> lang (RRep 0 n r)}. moves m ps q)"
    using 5 by (intro ends_seq) simp_all
  then show ?case by (auto simp del: concat.simps)
qed simp_all

text \<open>An expression with a boundary at both ends, whose words begin and end with word characters.\<close>

definition framed :: "rx \<Rightarrow> rx \<Rightarrow> bool" where
  "framed a b \<longleftrightarrow> bound_free a \<and> bound_free b
     \<and> (\<forall>x \<in> lang a. \<forall>y \<in> lang b. x \<noteq> [] \<and> y \<noteq> [] \<and> is_word (hd x) \<and> is_word (last y))"

definition match_at :: "rx \<Rightarrow> rx \<Rightarrow> char option \<Rightarrow> string \<Rightarrow> bool" where
  "match_at a b pv s \<longleftrightarrow> (\<exists>x \<in> lang a. \<exists>y \<in> lang b. \<exists>t. s = x @ y @ t \<and> \<not> at_word pv \<and> \<not> at_word (next_char t))"

abbreviation frame :: "rx \<Rightarrow> rx \<Rightarrow> rx" where
  "frame a b \<equiv> RSeq RBound (RSeq a (RSeq b RBound))"

lemma frame_ends:
  assumes f: "framed a b"
  shows "(pv', t) \<in> set (rx_ends (frame a b) (pv, s)) \<longleftrightarrow>
    (\<exists>x \<in> lang a. \<exists>y \<in> lang b. s = x @ y @ t \<and> pv' = Some (last y) \<and> \<not> at_word pv \<and> \<not> at_word (next_char t))"
    (is "?l \<longleftrightarrow> ?r")
proof
  have bf: "bound_free a" "bound_free b" using f by (simp_all add: framed_def)
  {
    assume ?l
    then obtain pv1 s1 where 1: "at_word pv \<noteq> at_word (next_char s)" "(pv1, s1) \<in> set (rx_ends a (pv, s))"
      "(pv', t) \<in> set (rx_ends b (pv1, s1))" "at_word pv' \<noteq> at_word (next_char t)" by (auto split: if_splits)
    from rx_ends_lang [OF bf(1), of "(pv1, s1)" "(pv, s)"] 1(2) obtain x where x: "x \<in> lang a" "s = x @ s1" "pv1 = prev pv x"
      by (auto simp: moves_def)
    from rx_ends_lang [OF bf(2), of "(pv', t)" "(pv1, s1)"] 1(3) obtain y where y: "y \<in> lang b" "s1 = y @ t" "pv' = prev pv1 y"
      by (auto simp: moves_def)
    have w: "x \<noteq> []" "y \<noteq> []" "is_word (hd x)" "is_word (last y)" using f x(1) y(1) by (auto simp: framed_def)
    then have "next_char s = Some (hd x)" "pv' = Some (last y)" using x y by (auto simp: next_char_def prev_def neq_Nil_conv)
    then show ?r using 1 x y w by (auto simp: at_word_def)
  }
  {
    assume ?r
    then obtain x y where r: "x \<in> lang a" "y \<in> lang b" "s = x @ y @ t" "pv' = Some (last y)" "\<not> at_word pv" "\<not> at_word (next_char t)" by blast
    have w: "x \<noteq> []" "y \<noteq> []" "is_word (hd x)" "is_word (last y)" using f r(1,2) by (auto simp: framed_def)
    have 1: "(prev pv x, y @ t) \<in> set (rx_ends a (pv, s))" using rx_ends_lang [OF bf(1)] r by (auto simp: moves_def)
    have 2: "(pv', t) \<in> set (rx_ends b (prev pv x, y @ t))" using rx_ends_lang [OF bf(2)] r w by (auto simp: moves_def prev_def)
    have "at_word (next_char s)" using r(3) w(1,3) by (cases x) (auto simp: next_char_def at_word_def)
    then have 3: "at_word pv \<noteq> at_word (next_char s)" using r(5) by simp
    have "at_word pv'" using r(4) w(4) by (simp add: at_word_def)
    then have "(pv', t) \<in> set (rx_ends RBound (pv', t))" using r(6) by simp
    with 2 have "(pv', t) \<in> set (rx_ends (RSeq b RBound) (prev pv x, y @ t))" by force
    with 1 have "(pv', t) \<in> set (rx_ends (RSeq a (RSeq b RBound)) (pv, s))" by force
    then show ?l using 3 by simp
  }
qed

lemma frame_none:
  assumes "framed a b"
  shows "rx_ends (frame a b) (pv, s) = [] \<longleftrightarrow> \<not> match_at a b pv s"
proof -
  have "(\<exists>q. q \<in> set (rx_ends (frame a b) (pv, s))) \<longleftrightarrow> match_at a b pv s"
    unfolding split_paired_Ex frame_ends [OF assms] match_at_def by blast
  then show ?thesis by (metis list.set_intros(1) list.set_cases neq_Nil_conv empty_iff list.set(1))
qed

section \<open>What a replacement leaves\<close>

fun alphabet :: "rx \<Rightarrow> char set" where
  "alphabet (RChar p) = Collect p"
| "alphabet RBound = {}"
| "alphabet (RSeq a b) = alphabet a \<union> alphabet b"
| "alphabet (RRep m n r) = alphabet r"

lemma lang_alphabet: "w \<in> lang r \<Longrightarrow> set w \<subseteq> alphabet r"
proof (induction r arbitrary: w rule: lang.induct)
  case (5 n r)
  then show ?case by fastforce
qed fastforce+

lemma frame_Cons:
  assumes "framed a b" "rx_ends (frame a b) (pv, s) = (pv', t) # qs"
  obtains x y where "x \<in> lang a" "y \<in> lang b" "s = x @ y @ t" "pv' = Some (last y)" "\<not> at_word pv"
    "\<not> at_word (next_char t)" "length t < length s" "is_word (last y)"
proof -
  have "(pv', t) \<in> set (rx_ends (frame a b) (pv, s))" unfolding assms(2) by simp
  then obtain x y where *: "x \<in> lang a" "y \<in> lang b" "s = x @ y @ t" "pv' = Some (last y)" "\<not> at_word pv"
    "\<not> at_word (next_char t)" unfolding frame_ends [OF assms(1)] by blast
  moreover from assms(1) *(1,2) have "x \<noteq> []" "is_word (last y)" by (auto simp: framed_def)
  ultimately show thesis using that by simp
qed

declare replace_all.simps [simp del]

lemma replace_none:
  "rx_ends r (pv, s) = [] \<Longrightarrow>
   replace_all r rep (pv, s) = (case s of [] \<Rightarrow> [] | c # s' \<Rightarrow> c # replace_all r rep (Some c, s'))"
  by (subst replace_all.simps) simp

lemma replace_some:
  "framed a b \<Longrightarrow> rx_ends (frame a b) (pv, s) = (pv', t) # qs \<Longrightarrow>
   replace_all (frame a b) rep (pv, s) = rep @ replace_all (frame a b) rep (pv', t)"
  by (erule (1) frame_Cons, subst replace_all.simps) simp

lemma replace_at_word:
  assumes "framed a b" "at_word pv"
  shows "replace_all (frame a b) rep (pv, s) = (case s of [] \<Rightarrow> [] | c # s' \<Rightarrow> c # replace_all (frame a b) rep (Some c, s'))"
proof -
  have "rx_ends (frame a b) (pv, s) = []" unfolding frame_none [OF assms(1)] using assms(2) by (simp add: match_at_def)
  then show ?thesis by (rule replace_none)
qed

lemma next_char_replace: "framed a b \<Longrightarrow> at_word pv \<Longrightarrow> next_char (replace_all (frame a b) rep (pv, s)) = next_char s"
  by (simp add: replace_at_word next_char_def split: list.split)

text \<open>Text of the result that has no bracket was there before.\<close>

lemma replace_keeps:
  assumes "framed a b" "replace_all (frame a b) (CHR ''['' # rep) (pv, s) = m @ t" "CHR ''['' \<notin> set m"
  shows "\<exists>s2. s = m @ s2 \<and> t = replace_all (frame a b) (CHR ''['' # rep) (prev pv m, s2)"
  using assms(2,3)
proof (induction m arbitrary: pv s)
  case Nil
  then show ?case by simp
next
  case (Cons c m)
  show ?case
  proof (cases "rx_ends (frame a b) (pv, s)")
    case Nil
    then obtain s' where s: "s = c # s'" "replace_all (frame a b) (CHR ''['' # rep) (Some c, s') = m @ t"
      using Cons.prems(1) unfolding replace_none [OF Nil] by (cases s) simp_all
    from Cons.IH [OF s(2)] Cons.prems(2) obtain s2 where
      "s' = m @ s2" "t = replace_all (frame a b) (CHR ''['' # rep) (prev (Some c) m, s2)" by auto
    then show ?thesis using s(1) by (simp add: prev_def)
  next
    case ends: (Cons q qs)
    obtain pv' s' where "q = (pv', s')" by (cases q)
    from replace_some [OF assms(1) ends [unfolded this], of "CHR ''['' # rep"] show ?thesis
      using Cons.prems by simp
  qed
qed

text \<open>
  A redaction is a bracketed label. An expression \<open>frame c d\<close> is \<open>redacted by\<close> it when none of its words
  has a bracket and each has a character the label lacks.
\<close>

definition redactable :: "rx \<Rightarrow> rx \<Rightarrow> string \<Rightarrow> bool" where
  "redactable c d rep \<longleftrightarrow> framed c d \<and> (\<forall>x \<in> lang c. \<forall>y \<in> lang d.
     CHR ''['' \<notin> set (x @ y) \<and> CHR '']'' \<notin> set (x @ y) \<and> \<not> set (x @ y) \<subseteq> set rep)"

definition clean :: "rx \<Rightarrow> rx \<Rightarrow> char option \<Rightarrow> string \<Rightarrow> bool" where
  "clean c d pv s \<longleftrightarrow> (\<forall>u t. s = u @ t \<longrightarrow> \<not> match_at c d (prev pv u) t)"

lemma clean_Nil: "framed c d \<Longrightarrow> clean c d pv []"
  by (auto simp: clean_def match_at_def framed_def)

lemma clean_Cons: "clean c d pv (a # s) \<longleftrightarrow> \<not> match_at c d pv (a # s) \<and> clean c d (Some a) s"
proof
  assume l: "clean c d pv (a # s)"
  have "\<not> match_at c d (prev (Some a) u) t" if "s = u @ t" for u t
  proof -
    have "a # s = (a # u) @ t" using that by simp
    with l have "\<not> match_at c d (prev pv (a # u)) t" unfolding clean_def by blast
    then show ?thesis by (simp add: prev_def split: if_splits)
  qed
  moreover have "\<not> match_at c d pv (a # s)" using l unfolding clean_def by (metis append_Nil prev_Nil)
  ultimately show "\<not> match_at c d pv (a # s) \<and> clean c d (Some a) s" unfolding clean_def by blast
next
  assume r: "\<not> match_at c d pv (a # s) \<and> clean c d (Some a) s"
  have "\<not> match_at c d (prev pv u) t" if "a # s = u @ t" for u t
  proof (cases u)
    case Nil
    then show ?thesis using r that by simp
  next
    case (Cons x u')
    then have "s = u' @ t" "x = a" using that by simp_all
    then have "\<not> match_at c d (prev (Some a) u') t" using r unfolding clean_def by blast
    then show ?thesis using Cons \<open>x = a\<close> by (simp add: prev_def split: if_splits)
  qed
  then show "clean c d pv (a # s)" unfolding clean_def by blast
qed

lemma no_match_no_word: "framed c d \<Longrightarrow> \<not> at_word (next_char s) \<Longrightarrow> \<not> match_at c d pv s"
proof
  assume f: "framed c d" and n: "\<not> at_word (next_char s)" and "match_at c d pv s"
  then obtain x y t where m: "x \<in> lang c" "y \<in> lang d" "s = x @ y @ t" by (auto simp: match_at_def)
  with f have "x \<noteq> []" "is_word (hd x)" unfolding framed_def by blast+
  then show False using n m(3) by (cases x) (simp_all add: next_char_def at_word_def)
qed

lemma no_match_in_label:
  assumes r: "redactable c d rep" and l: "last l = CHR '']''" "l \<noteq> []" "set l \<subseteq> set rep"
  shows "\<not> match_at c d pv (l @ w)"
proof
  assume "match_at c d pv (l @ w)"
  then obtain x y t where m: "x \<in> lang c" "y \<in> lang d" "l @ w = (x @ y) @ t" by (auto simp: match_at_def)
  with r have n: "CHR '']'' \<notin> set (x @ y)" "\<not> set (x @ y) \<subseteq> set rep" unfolding redactable_def by blast+
  from m(3) consider us where "l = (x @ y) @ us" | us where "x @ y = l @ us" by (metis append_eq_append_conv2)
  then show False
  proof cases
    case 1
    then have "set (x @ y) \<subseteq> set l" by auto
    then show False using n(2) l(3) by (metis subset_trans)
  next
    case 2
    then show False using n(1) l(1,2) by (metis Un_iff last_in_set set_append)
  qed
qed

lemma clean_label:
  assumes r: "redactable c d rep" and w: "clean c d pv w" "\<not> at_word (next_char w)"
  shows "l \<noteq> [] \<Longrightarrow> last l = CHR '']'' \<Longrightarrow> set l \<subseteq> set rep \<Longrightarrow> clean c d pv' (l @ w)"
proof (induction l arbitrary: pv')
  case (Cons a l)
  have f: "framed c d" using r by (simp add: redactable_def)
  have 1: "\<not> match_at c d pv' (a # l @ w)" using no_match_in_label [OF r, of "a # l"] Cons.prems by simp
  have 2: "clean c d (Some a) (l @ w)"
  proof (cases "l = []")
    case True
    show ?thesis using True w f no_match_no_word [OF f w(2)] clean_Nil [OF f]
      by (cases w) (simp_all add: clean_Cons)
  qed (use Cons in simp)
  from 1 2 show ?case by (simp add: clean_Cons)
qed simp

lemma match_before:
  assumes f: "framed a b" and r: "redactable c d (CHR ''['' # rep)"
    and m: "match_at c d pv (replace_all (frame a b) (CHR ''['' # rep) (pv, s))"
  shows "match_at c d pv s"
proof -
  let ?R = "replace_all (frame a b) (CHR ''['' # rep)"
  from m obtain x y t where xy: "x \<in> lang c" "y \<in> lang d" "?R (pv, s) = (x @ y) @ t" "\<not> at_word pv"
    "\<not> at_word (next_char t)" by (auto simp: match_at_def)
  with r have "CHR ''['' \<notin> set (x @ y)" and w: "y \<noteq> []" "is_word (last y)"
    unfolding redactable_def framed_def by blast+
  with replace_keeps [OF f xy(3)] obtain s2 where s2: "s = (x @ y) @ s2" "t = ?R (prev pv (x @ y), s2)" by blast
  have "at_word (prev pv (x @ y))" using w by (simp add: prev_def at_word_def)
  then have "next_char t = next_char s2" unfolding s2(2) by (rule next_char_replace [OF f])
  then show ?thesis using xy s2(1) by (fastforce simp: match_at_def)
qed

text \<open>Where every match of \<open>frame c d\<close> is one of \<open>frame a b\<close>, replacing these leaves none of those.\<close>

definition covers :: "rx \<Rightarrow> rx \<Rightarrow> rx \<Rightarrow> rx \<Rightarrow> char option \<Rightarrow> string \<Rightarrow> bool" where
  "covers a b c d pv s \<longleftrightarrow> (\<forall>u t. s = u @ t \<longrightarrow> match_at c d (prev pv u) t \<longrightarrow> match_at a b (prev pv u) t)"

lemma covers_drop: "covers a b c d pv (u @ s) \<Longrightarrow> covers a b c d (prev pv u) s"
  unfolding covers_def prev_append by (metis append_assoc)

lemma replace_clean:
  assumes f: "framed a b" and r: "redactable c d (CHR ''['' # rep)" and l: "last (CHR ''['' # rep) = CHR '']''"
  shows "covers a b c d pv s \<Longrightarrow> clean c d pv (replace_all (frame a b) (CHR ''['' # rep) (pv, s))"
proof (induction "length s" arbitrary: pv s rule: less_induct)
  case less
  let ?R = "replace_all (frame a b) (CHR ''['' # rep)"
  have fcd: "framed c d" using r by (simp add: redactable_def)
  show ?case
  proof (cases "rx_ends (frame a b) (pv, s)")
    case Nil
    have "\<not> match_at c d pv s"
      using Nil less.prems unfolding frame_none [OF f] covers_def by (metis append_Nil prev_Nil)
    then have n: "\<not> match_at c d pv (?R (pv, s))" using match_before [OF f r] by blast
    show ?thesis
    proof (cases s)
      case s: (Cons x s')
      have "covers a b c d (Some x) s'" using covers_drop [of a b c d pv "[x]" s'] less.prems s by (simp add: prev_def)
      then have "clean c d (Some x) (?R (Some x, s'))" using less.hyps [of s'] s by simp
      then show ?thesis using n unfolding replace_none [OF Nil] by (simp add: s clean_Cons)
    next
      case s: Nil
      show ?thesis unfolding replace_none [OF Nil] by (simp add: s clean_Nil [OF fcd])
    qed
  next
    case ends: (Cons q qs)
    obtain pv' t where q: "q = (pv', t)" by (cases q)
    note e = ends [unfolded q]
    obtain x y where xy: "s = (x @ y) @ t" "pv' = Some (last y)" "y \<noteq> []" "\<not> at_word (next_char t)"
      "length t < length s" "is_word (last y)"
      using frame_Cons [OF f e] f unfolding framed_def by (metis append_assoc)
    have p: "prev pv (x @ y) = pv'" using xy(2,3) by (simp add: prev_def)
    have "clean c d pv' (?R (pv', t))"
      using covers_drop [of a b c d pv "x @ y" t] less xy(1,5) p by simp
    moreover have "\<not> at_word (next_char (?R (pv', t)))"
      using next_char_replace [OF f, of pv'] xy(2,4,6) by (simp add: at_word_def)
    ultimately have "clean c d pv ((CHR ''['' # rep) @ ?R (pv', t))" using clean_label [OF r _ _ _ l] by blast
    then show ?thesis unfolding replace_some [OF f e] .
  qed
qed
section \<open>The two expressions\<close>

abbreviation "dec \<equiv> RRep 1 2 (RChar is_digit)"
abbreviation "hexes \<equiv> RRep 1 3 (RChar is_hex)"
abbreviation "dot \<equiv> RChar (\<lambda>c. c = CHR ''.'')"
abbreviation "colon \<equiv> RChar (\<lambda>c. c = CHR '':'')"

lemma is_word_classes: "is_digit c \<Longrightarrow> is_word c" "is_hex c \<Longrightarrow> is_word c"
  unfolding is_digit_def is_hex_def is_word_def by auto

lemma rep_ne: "[] \<notin> lang r \<Longrightarrow> [] \<notin> lang (RRep (Suc m) n r)"
  by auto

lemma groups_word:
  assumes "x \<in> lang (RRep (Suc k) 0 (RSeq (RRep (Suc m) n (RChar p)) (RChar (\<lambda>c. c = s))))"
  shows "x \<noteq> []" "p (hd x)" "s \<in> set x"
proof -
  from assms obtain d z where x: "x = d @ [s] @ z" "d \<in> lang (RRep (Suc m) n (RChar p))"
    unfolding lang.simps(4) [of k] lang.simps(3) lang.simps(1) by force
  then have d: "d \<noteq> []" "set d \<subseteq> Collect p" using lang_alphabet [OF x(2)] by auto
  then have "p (hd d)" using hd_in_set by blast
  then show "x \<noteq> []" "p (hd x)" "s \<in> set x" using x(1) d(1) by auto
qed

lemma ones_word:
  assumes "y \<in> lang (RRep (Suc m) n (RChar p))"
  shows "y \<noteq> []" "p (last y)"
proof -
  show y: "y \<noteq> []" using assms by auto
  have "set y \<subseteq> Collect p" using lang_alphabet [OF assms] by simp
  then show "p (last y)" using last_in_set [OF y] by blast
qed

lemma groups_redactable:
  fixes k m n :: nat
  assumes p: "\<And>c. p c \<Longrightarrow> is_word c" and s: "s \<notin> set rep" "s \<noteq> CHR ''[''" "s \<noteq> CHR '']''"
  defines "a \<equiv> RRep (Suc k) 0 (RSeq (RRep (Suc m) n (RChar p)) (RChar (\<lambda>c. c = s)))"
    and "b \<equiv> RRep (Suc m) n (RChar p)"
  shows "redactable a b rep"
proof -
  have bf: "bound_free a" "bound_free b" by (simp_all add: a_def b_def)
  have "\<not> is_word (CHR ''['')" "\<not> is_word (CHR '']'')" by (simp_all add: is_word_def)
  then have np: "\<not> p (CHR ''['')" "\<not> p (CHR '']'')" using p by blast+
  have al: "set x \<subseteq> insert s (Collect p)" "set y \<subseteq> Collect p" if "x \<in> lang a" "y \<in> lang b" for x y
    using lang_alphabet [OF that(1)] lang_alphabet [OF that(2)] by (auto simp: a_def b_def)
  have "framed a b"
    unfolding framed_def using bf groups_word [of _ k m n p s] ones_word [of _ m n p] p by (simp add: a_def b_def)
  moreover have "CHR ''['' \<notin> set (x @ y) \<and> CHR '']'' \<notin> set (x @ y) \<and> \<not> set (x @ y) \<subseteq> set rep"
    if "x \<in> lang a" "y \<in> lang b" for x y
    using al [OF that] groups_word(3) [OF that(1) [unfolded a_def]] np s by auto
  ultimately show ?thesis unfolding redactable_def by blast
qed

definition ipv4_groups :: rx where "ipv4_groups = RRep 3 0 (RSeq dec dot)"
definition ipv6_groups :: rx where "ipv6_groups = RRep 7 0 (RSeq hexes colon)"

lemma regex_frames: "ipv4Regex = frame ipv4_groups dec" "ipv6Regex = frame ipv6_groups hexes"
  by (simp_all add: ipv4Regex_def ipv6Regex_def ipv4_groups_def ipv6_groups_def)

lemma ipv4_redactable: "CHR ''.'' \<notin> set rep \<Longrightarrow> redactable ipv4_groups dec rep"
  unfolding ipv4_groups_def numeral_3_eq_3 One_nat_def
  by (rule groups_redactable) (simp_all add: is_word_classes)

lemma ipv6_redactable: "CHR '':'' \<notin> set rep \<Longrightarrow> redactable ipv6_groups hexes rep"
  using groups_redactable [of is_hex "CHR '':''" rep 6 0 3]
  by (simp add: is_word_classes ipv6_groups_def eval_nat_numeral)

lemma Sanitize_clean:
  "clean ipv4_groups dec None (Sanitize msg) \<and> clean ipv6_groups hexes None (Sanitize msg)"
proof -
  let ?l4 = "''REDACTED_IP]''" and ?l6 = "''REDACTED_IPV6]''"
  have r: "redactable ipv4_groups dec (CHR ''['' # ?l4)" "redactable ipv4_groups dec (CHR ''['' # ?l6)"
    "redactable ipv6_groups hexes (CHR ''['' # ?l6)"
    by (rule ipv4_redactable ipv6_redactable, simp)+
  have f: "framed ipv4_groups dec" "framed ipv6_groups hexes" using r by (simp_all add: redactable_def)
  define m1 where "m1 = replace_all ipv4Regex (CHR ''['' # ?l4) (None, msg)"
  have m1: "clean ipv4_groups dec None m1"
    unfolding m1_def regex_frames by (rule replace_clean [OF f(1) r(1)]) (simp_all add: covers_def)
  have "Sanitize msg = replace_all ipv6Regex (CHR ''['' # ?l6) (None, m1)"
    by (simp add: Sanitize_def m1_def)
  moreover have "clean ipv4_groups dec None (replace_all ipv6Regex (CHR ''['' # ?l6) (None, m1))"
    using m1 unfolding regex_frames by (intro replace_clean [OF f(2) r(2)]) (simp_all add: covers_def clean_def)
  moreover have "clean ipv6_groups hexes None (replace_all ipv6Regex (CHR ''['' # ?l6) (None, m1))"
    unfolding regex_frames by (rule replace_clean [OF f(2) r(3)]) (simp_all add: covers_def)
  ultimately show ?thesis by simp
qed

lemma replace_clean_id: "framed a b \<Longrightarrow> clean a b pv s \<Longrightarrow> replace_all (frame a b) rep (pv, s) = s"
proof (induction s arbitrary: pv)
  case Nil
  then have "rx_ends (frame a b) (pv, []) = []" unfolding frame_none [OF Nil.prems(1)] by (simp add: clean_def)
  then show ?case by (simp add: replace_none)
next
  case (Cons c s)
  then have "rx_ends (frame a b) (pv, c # s) = []" unfolding frame_none [OF Cons.prems(1)] by (simp add: clean_Cons)
  then show ?case using Cons by (simp add: replace_none clean_Cons)
qed



text \<open>
  An IPv6 address in the usual compressed form is logged in clear: only the form with all eight groups
  is redacted.
\<close>

lemma compressed_ipv6_logged:
  "log_Warn ''dial tcp [2001:db8::1]:8443: connection refused'' ''15:04:05.000'' defaultLogger =
     \<lparr>level = LevelWarn,
      sink = Some (''[15:04:05.000] [WARN] dial tcp [2001:db8::1]:8443: connection refused'' @ [CHR 0x0A])\<rparr>
   \<and> Sanitize ''dial tcp [2001:db8:0:0:0:0:0:1]:8443'' = ''dial tcp [[REDACTED_IPV6]]:8443''"
proof -
  have "Sanitize ''dial tcp [2001:db8::1]:8443: connection refused'' = ''dial tcp [2001:db8::1]:8443: connection refused''"
    by code_simp
  moreover have "Sanitize ''dial tcp [2001:db8:0:0:0:0:0:1]:8443'' = ''dial tcp [[REDACTED_IPV6]]:8443''" by code_simp
  ultimately show ?thesis
    by (simp add: log_Warn_def log_message_def defaultLogger_def NewZeroLogger_def LevelWarn_def)
qed

end
