(* ===== verification/Ant_Sockets.thy ===== *)
theory Ant_Sockets
  imports Ant_Address Ant_IPC
begin

text \<open>
  How the transports and the daemon's socket are opened: the constructors of \<open>pkg/transport/udp.go\<close> and
  \<open>websocket.go\<close>, the routes of the WebSocket server, \<open>LocalAddr\<close>, the client of \<open>pkg/ipc\<close>, and the accept
  loops of \<open>tls.go\<close> and \<open>pkg/ipc/server.go\<close>. Resolving, listening, dialling and accepting are
  arguments.
\<close>

section \<open>UDP\<close>

definition SocketBufferSize :: int where "SocketBufferSize = 4 * 1024 * 1024"

datatype sock_opt = SetReadBuffer int | SetWriteBuffer int

text \<open>\<open>listen\<close> gets the resolved address, nil for the empty one. The errors of the two options are ignored.\<close>

definition NewUDPTransport ::
  "(string \<Rightarrow> go_error + string) \<Rightarrow> (string option \<Rightarrow> go_error option) \<Rightarrow> string \<Rightarrow> (go_error + UDPTransport) \<times> sock_opt list" where
  "NewUDPTransport resolve listen listenAddr =
     (case (if listenAddr \<noteq> [] then map_sum id Some (resolve listenAddr) else Inr None) of
        Inl e \<Rightarrow> (Inl (ErrOS ''failed to resolve udp addr''), [])
      | Inr laddr \<Rightarrow>
          (case listen laddr of
             Some e \<Rightarrow> (Inl (ErrOS ''failed to listen on udp''), [])
           | None \<Rightarrow> (Inr \<lparr>udp_sent = []\<rparr>, [SetReadBuffer SocketBufferSize, SetWriteBuffer SocketBufferSize])))"

text \<open>
  An open socket with the datagrams that have arrived. \<open>Close\<close> makes every later read fail, as \<open>net.Conn\<close> documents.
  \<open>None\<close> is a call that blocks.
\<close>

record udp_socket =
  us_arrived :: "(bytes \<times> net_addr) list"
  us_local :: net_addr
  us_closed :: bool

definition UDP_Close :: "udp_socket \<Rightarrow> udp_socket" where
  "UDP_Close u = u\<lparr>us_closed := True\<rparr>"

definition UDP_LocalAddr :: "udp_socket \<Rightarrow> net_addr" where
  "UDP_LocalAddr u = us_local u"

definition udp_receive :: "udp_socket \<Rightarrow> PacketBuffer \<Rightarrow> ((go_error + net_addr) \<times> udp_socket \<times> PacketBuffer) option" where
  "udp_receive u buf =
     (if us_closed u then (case UDP_Receive (Inl (ErrOS ''use of closed network connection'')) buf of (r, b) \<Rightarrow> Some (r, u, b))
      else case us_arrived u of
             [] \<Rightarrow> None
           | d # ds \<Rightarrow> (case UDP_Receive (Inr d) buf of (r, b) \<Rightarrow> Some (r, u\<lparr>us_arrived := ds\<rparr>, b)))"

section \<open>Certificate\<close>

text \<open>The certificate of a server that was given none. Times are nanoseconds, one argument for each call of \<open>time.Now\<close>; the key and \<open>x509.CreateCertificate\<close>
  are arguments.\<close>

datatype key_usage = KeyUsageKeyEncipherment | KeyUsageDigitalSignature
datatype ext_key_usage = ExtKeyUsageServerAuth

record cert_template =
  SerialNumber :: int
  Organization :: "string list"
  CommonName :: string
  NotBefore :: int
  NotAfter :: int
  KeyUsage :: "key_usage list"
  ExtKeyUsage :: "ext_key_usage list"
  BasicConstraintsValid :: bool

definition hour :: int where "hour = 3600 * 1000000000"

definition cert_template_at :: "int \<Rightarrow> int \<Rightarrow> int \<Rightarrow> cert_template" where
  "cert_template_at t0 t1 t2 =
     \<lparr>SerialNumber = t0, Organization = [''Cloud Edge Services''], CommonName = ''gateway.internal'',
      NotBefore = t1 + - 1 * hour, NotAfter = t2 + 365 * 24 * hour,
      KeyUsage = [KeyUsageKeyEncipherment, KeyUsageDigitalSignature], ExtKeyUsage = [ExtKeyUsageServerAuth], BasicConstraintsValid = True\<rparr>"

definition GenerateSelfSignedCert ::
  "(go_error + 'key) \<Rightarrow> (cert_template \<Rightarrow> 'key \<Rightarrow> go_error + bytes) \<Rightarrow> int \<Rightarrow> int \<Rightarrow> int \<Rightarrow> go_error + bytes list \<times> 'key" where
  "GenerateSelfSignedCert generateKey createCertificate t0 t1 t2 =
     (case generateKey of
        Inl e \<Rightarrow> Inl e
      | Inr priv \<Rightarrow>
          (case createCertificate (cert_template_at t0 t1 t2) priv of
             Inl e \<Rightarrow> Inl e
           | Inr derBytes \<Rightarrow> Inr ([derBytes], priv)))"

text \<open>The certificate is valid from an hour before its generation, which allows for clocks that are behind, for a year.\<close>

lemma cert_validity:
  assumes "t1 - hour \<le> now" "now \<le> t2 + 365 * 24 * hour"
  shows "NotBefore (cert_template_at t0 t1 t2) \<le> now \<and> now \<le> NotAfter (cert_template_at t0 t1 t2)"
  using assms by (simp add: cert_template_at_def)

section \<open>WebSocket\<close>

text \<open>The two patterns of the \<open>ServeMux\<close>, for a path without wildcards or host: a pattern that ends in a slash
  matches its subtree, the longer pattern wins, and registering \<open>/\<close> twice panics.\<close>

datatype ws_route = RouteTunnel | RouteDecoy

definition ws_mux :: "string \<Rightarrow> (string \<Rightarrow> ws_route) go" where
  "ws_mux path =
     (if path = ''/'' then None
      else Some (\<lambda>req. if req = path \<or> HasSuffix path ''/'' \<and> HasPrefix req path then RouteTunnel else RouteDecoy))"

record http_page =
  page_type :: string
  page_code :: nat
  page_body :: string

definition ws_decoy :: http_page where
  "ws_decoy = \<lparr>page_type = ''text/html'', page_code = 200, page_body = DecoyHTML\<rparr>"

definition NewWSServerTransport ::
  "(go_error + 'cert) \<Rightarrow> (string \<Rightarrow> 'cert \<Rightarrow> go_error option) \<Rightarrow> string \<Rightarrow> string \<Rightarrow> 'cert option
     \<Rightarrow> (go_error + 'c WSTransport \<times> (string \<Rightarrow> ws_route)) go" where
  "NewWSServerTransport generate listen listenAddr path0 cert =
     (let path = (if path0 = [] then ''/ws'' else path0) in
      case (case cert of Some c \<Rightarrow> Inr c | None \<Rightarrow> generate) of
        Inl e \<Rightarrow> Some (Inl e)
      | Inr serverCert \<Rightarrow> do {
          mux \<leftarrow> ws_mux path;
          Some (case listen listenAddr serverCert of
                  Some e \<Rightarrow> Inl (ErrOS ''failed to listen on tls for ws'')
                | None \<Rightarrow> Inr (\<lparr>ws_isServer = True, ws_clientConn = None, ws_connections = [], ws_incoming = [], ws_closed = False\<rparr>, mux))
        })"

text \<open>\<open>config\<close> is \<open>websocket.NewConfig\<close>, \<open>dial\<close> is \<open>websocket.DialConfig\<close> with the server name.\<close>

definition NewWSClientTransport ::
  "(string \<Rightarrow> string \<Rightarrow> go_error + 'cfg) \<Rightarrow> ('cfg \<Rightarrow> string \<Rightarrow> go_error + 'c) \<Rightarrow> string \<Rightarrow> string \<Rightarrow> string \<Rightarrow> go_error + 'c WSTransport" where
  "NewWSClientTransport config dial wsURL origin sni =
     (case config wsURL origin of
        Inl e \<Rightarrow> Inl e
      | Inr cfg \<Rightarrow>
          (case dial cfg sni of
             Inl e \<Rightarrow> Inl (ErrOS ''failed to dial websocket'')
           | Inr conn \<Rightarrow> Inr \<lparr>ws_isServer = False, ws_clientConn = Some conn, ws_connections = [], ws_incoming = [], ws_closed = False\<rparr>))"

section \<open>Local addresses\<close>

text \<open>\<open>None\<close> is the nil address.\<close>

definition TLS_LocalAddr :: "net_addr \<Rightarrow> (cref \<Rightarrow> net_addr) \<Rightarrow> TLSTransport \<Rightarrow> net_addr option" where
  "TLS_LocalAddr listener_addr local t =
     (if isServer t then Some listener_addr else map_option local (clientConn t))"

definition WS_LocalAddr :: "net_addr option \<Rightarrow> ('c \<Rightarrow> net_addr) \<Rightarrow> 'c WSTransport \<Rightarrow> net_addr option" where
  "WS_LocalAddr listener_addr local t =
     (if ws_isServer t \<and> listener_addr \<noteq> None then listener_addr else map_option local (ws_clientConn t))"

section \<open>IPC client\<close>

record Client =
  client_path :: string

definition NewClient :: "string \<Rightarrow> (string \<Rightarrow> string \<Rightarrow> go_error option) \<Rightarrow> string \<Rightarrow> go_error + Client" where
  "NewClient GOOS dial socketPath0 =
     (let socketPath = (if socketPath0 = [] then defaultSocket GOOS else socketPath0);
          (network, addr) = getNetworkAndAddr socketPath
      in case dial network addr of
           Some e \<Rightarrow> Inl (ErrOS ''failed to connect to AnonymousAnt daemon'')
         | None \<Rightarrow> Inr \<lparr>client_path = socketPath\<rparr>)"

section \<open>Accept loops\<close>

text \<open>
  One round of \<open>acceptLoop\<close>, the same in \<open>tls.go\<close> and in \<open>pkg/ipc/server.go\<close>: the connection accepted or an error,
  whether the closed channel is closed, and the connections for which a goroutine was started. The boolean tells whether the loop goes on.
\<close>

definition accept_round :: "bool \<Rightarrow> go_error + 'conn \<Rightarrow> 'conn list \<Rightarrow> (bool \<times> 'conn list) go" where
  "accept_round closed' accepted spawned =
     (case accepted of
        Inl e \<Rightarrow> Some (\<not> closed', spawned)
      | Inr conn \<Rightarrow> Some (True, spawned @ [conn]))"

text \<open>The two loops of the code, each with its own closed channel.\<close>

definition TLS_acceptLoop_round :: "TLSTransport \<Rightarrow> go_error + 'conn \<Rightarrow> 'conn list \<Rightarrow> (bool \<times> 'conn list) go" where
  "TLS_acceptLoop_round t = accept_round (TLSTransport.closed t)"

definition IPC_acceptLoop_round :: "Server \<Rightarrow> go_error + 'conn \<Rightarrow> 'conn list \<Rightarrow> (bool \<times> 'conn list) go" where
  "IPC_acceptLoop_round s = accept_round (srv_closed s)"

text \<open>Such a loop returns if and only if an accept fails after the closing, and errors before it do not end it.\<close>

lemma accept_loop_ends:
  fixes rs :: "nat \<Rightarrow> go_error + 'conn"
    and closed_at :: "nat \<Rightarrow> bool"
  defines "loop \<equiv> run_rounds (\<lambda>k. accept_round (closed_at k) (rs k)) 0 []"
  shows "loop = None \<longleftrightarrow> (\<forall>k. \<not> (isl (rs k) \<and> closed_at k))"
    and "isl (rs n) \<Longrightarrow> closed_at n \<Longrightarrow> \<forall>i < n. \<not> (isl (rs i) \<and> closed_at i) \<Longrightarrow> \<exists>spawned. loop = Some (n, Some spawned)"
proof -
  have step: "\<exists>st1. accept_round (closed_at k) (rs k) st = Some (\<not> (isl (rs k) \<and> closed_at k), st1) \<and> True" for k st
    by (cases "rs k") (auto simp: accept_round_def)
  note iff = run_rounds_iff [where I = "\<lambda>_. True" and goes = "\<lambda>k. \<not> (isl (rs k) \<and> closed_at k)"
      and f = "\<lambda>k. accept_round (closed_at k) (rs k)" and st = "[]", folded loop_def]
  show "loop = None \<longleftrightarrow> (\<forall>k. \<not> (isl (rs k) \<and> closed_at k))" using iff(1) step by blast
  show "isl (rs n) \<Longrightarrow> closed_at n \<Longrightarrow> \<forall>i < n. \<not> (isl (rs i) \<and> closed_at i) \<Longrightarrow> \<exists>spawned. loop = Some (n, Some spawned)"
    using iff(2) [of n] step by blast
qed

text \<open>A client of the daemon's default socket dials the address the server listens on.\<close>

lemma client_reaches_server:
  assumes "NewServer GOOS listen path = (Inr srv, calls)" and "NewClient GOOS dial path = Inr cl"
  shows "client_path cl = srv_path srv \<and> (\<exists>net addr. SysListen net addr \<in> set calls \<and> getNetworkAndAddr (client_path cl) = (net, addr) \<and> dial net addr = None)"
  using assms by (auto simp: NewServer_def NewClient_def Let_def split: prod.splits option.splits if_splits)

text \<open>
  The reading goroutine of a TLS client ends with its connection but closes no channel: once the queue is empty,
  \<open>Receive\<close> blocks until somebody calls \<open>Close\<close>.
\<close>

lemma tls_receive_after_connection_loss:
  assumes "\<not> TLSTransport.closed t" "incoming t = []" "length stream < 2"
  shows "TLS_Receive (clientReadLoop t raddr stop stream) c buf = None"
  using assms by (simp add: TLS_Receive_def clientReadLoop_def chan_receive_def frame_loop.simps read_full_def)

end
