(* ===== verification/Ant_UI.thy ===== *)
theory Ant_UI
  imports Ant_Daemon Ant_Sockets
begin

text \<open>
  \<open>cmd/ant-ui/main.go\<close>: the local web server that drives the daemon. A handler gets what the
  operating system answers as arguments: for each connection to the daemon an \<open>exchange\<close>, and for the start of
  the daemon a \<open>start_env\<close>. The handler of the daemon's requests is an argument as well; at the end it is the one of
  \<open>Ant_Daemon\<close>. The page \<open>index.html\<close> is an argument.
\<close>

section \<open>Replies\<close>

text \<open>The values of the JSON objects the handlers write; \<open>VErr e\<close> is \<open>e.Error()\<close> and \<open>VStatus None\<close> is null.\<close>

datatype ui_value = VBool bool | VText string | VErr go_error | VStatus "StatusResponse option"

datatype ui_body =
    RawBody string
  | JSONObject "(string \<times> ui_value) list"
  | JSONResponse Response
  | EventStream "(string \<times> ui_value) list list"

record ui_reply =
  reply_type :: string
  reply_code :: nat
  reply_body :: ui_body

definition jsonResponse :: "nat \<Rightarrow> ui_body \<Rightarrow> ui_reply" where
  "jsonResponse code payload = \<lparr>reply_type = ''application/json'', reply_code = code, reply_body = payload\<rparr>"

text \<open>\<open>http.Error\<close>, which ends the message with a line feed.\<close>

definition http_Error :: "string \<Rightarrow> nat \<Rightarrow> ui_reply" where
  "http_Error msg code = \<lparr>reply_type = ''text/plain; charset=utf-8'', reply_code = code, reply_body = RawBody (msg @ [CHR 0x0A])\<rparr>"

abbreviation not_allowed :: ui_reply where
  "not_allowed \<equiv> http_Error ''Method not allowed'' 405"

section \<open>Calls to the daemon\<close>

record UIServer =
  ipcClient :: "Client option"
  sockPath :: string

text \<open>
  One connection to the daemon: the result of dialling, the error of writing the request, whether the daemon read the request
  (it may have, or not, when writing failed), and the error of reading the response.
\<close>

record exchange =
  ex_dial :: "string \<Rightarrow> string \<Rightarrow> go_error option"
  ex_encode :: "go_error option"
  ex_reached :: bool
  ex_decode :: "go_error option"

definition getClient :: "string \<Rightarrow> UIServer \<Rightarrow> exchange \<Rightarrow> go_error + Client" where
  "getClient GOOS srv ex = NewClient GOOS (ex_dial ex) (sockPath srv)"

text \<open>\<open>Send\<close> over an open connection, with what it does to the daemon; \<open>None\<close> when the daemon panics.\<close>

definition ui_send :: "('s \<Rightarrow> Request \<Rightarrow> (Response \<times> 's) go) \<Rightarrow> exchange \<Rightarrow> Request \<Rightarrow> 's \<Rightarrow> ((go_error + Response) \<times> 's) go" where
  "ui_send handle ex req s =
     (if ex_reached ex then
        map_option (\<lambda>(resp, s1). (Client_Send (ex_encode ex) (case ex_decode ex of Some e \<Rightarrow> Inl e | None \<Rightarrow> Inr resp), s1)) (handle s req)
      else Some (Client_Send (ex_encode ex) (Inl (ErrOS ''EOF'')), s))"

section \<open>Handlers\<close>

text \<open>\<open>hr_params\<close> is the result of decoding the body as JSON, \<open>hr_flusher\<close> whether the writer can flush.\<close>

record http_request =
  hr_path :: string
  hr_method :: string
  hr_params :: "go_error + ConnectParams"
  hr_flusher :: bool

definition handleHome :: "string \<Rightarrow> ui_reply" where
  "handleHome uiHTML = \<lparr>reply_type = ''text/html; charset=utf-8'', reply_code = 200, reply_body = RawBody uiHTML\<rparr>"

definition ui_handleStatus ::
  "('s \<Rightarrow> Request \<Rightarrow> (Response \<times> 's) go) \<Rightarrow> string \<Rightarrow> UIServer \<Rightarrow> exchange \<Rightarrow> 's \<Rightarrow> (ui_reply \<times> 's) go" where
  "ui_handleStatus handle GOOS srv ex s =
     (case getClient GOOS srv ex of
        Inl e \<Rightarrow> Some (jsonResponse 200 (JSONObject [(''daemon_running'', VBool False), (''connected'', VBool False),
                   (''error'', VText ''Daemon is not running. Start 'ant-daemon' first.'')]), s)
      | Inr client \<Rightarrow> do {
          (sent, s1) \<leftarrow> ui_send handle ex status_request s;
          (case Client_GetStatus sent of
             Inl e \<Rightarrow> Some (jsonResponse 200 (JSONObject [(''daemon_running'', VBool True), (''connected'', VBool False), (''error'', VErr e)]), s1)
           | Inr status \<Rightarrow> Some (jsonResponse 200 (JSONObject [(''daemon_running'', VBool True), (''status'', VStatus status)]), s1))
        })"

text \<open>What \<open>handleConnect\<close> and \<open>handleDisconnect\<close> do once they know their request.\<close>

definition ui_forward ::
  "('s \<Rightarrow> Request \<Rightarrow> (Response \<times> 's) go) \<Rightarrow> string \<Rightarrow> UIServer \<Rightarrow> exchange \<Rightarrow> Request \<Rightarrow> 's \<Rightarrow> (ui_reply \<times> 's) go" where
  "ui_forward handle GOOS srv ex req s =
     (case getClient GOOS srv ex of
        Inl e \<Rightarrow> Some (jsonResponse 500 (JSONObject [(''error'', VText ''daemon unavailable'')]), s)
      | Inr client \<Rightarrow> do {
          (sent, s1) \<leftarrow> ui_send handle ex req s;
          (case sent of
             Inl e \<Rightarrow> Some (jsonResponse 500 (JSONObject [(''error'', VErr e)]), s1)
           | Inr resp \<Rightarrow> Some (jsonResponse 200 (JSONResponse resp), s1))
        })"

definition ui_handleConnect ::
  "('s \<Rightarrow> Request \<Rightarrow> (Response \<times> 's) go) \<Rightarrow> string \<Rightarrow> UIServer \<Rightarrow> exchange \<Rightarrow> http_request \<Rightarrow> 's \<Rightarrow> (ui_reply \<times> 's) go" where
  "ui_handleConnect handle GOOS srv ex r s =
     (if hr_method r \<noteq> ''POST'' then Some (not_allowed, s)
      else
        (case hr_params r of
           Inl e \<Rightarrow> Some (jsonResponse 400 (JSONObject [(''error'', VText ''invalid json'')]), s)
         | Inr ps \<Rightarrow> ui_forward handle GOOS srv ex (connect_request ps) s))"

definition ui_handleDisconnect ::
  "('s \<Rightarrow> Request \<Rightarrow> (Response \<times> 's) go) \<Rightarrow> string \<Rightarrow> UIServer \<Rightarrow> exchange \<Rightarrow> http_request \<Rightarrow> 's \<Rightarrow> (ui_reply \<times> 's) go" where
  "ui_handleDisconnect handle GOOS srv ex r s =
     (if hr_method r \<noteq> ''POST'' then Some (not_allowed, s)
      else ui_forward handle GOOS srv ex disconnect_request s)"

text \<open>The loop of \<open>handleEvents\<close> over the ticks before the request's context is done, each with its connection: the
  events written. The error of \<open>GetStatus\<close> is ignored, its status is then nil.\<close>

fun events_loop ::
  "('s \<Rightarrow> Request \<Rightarrow> (Response \<times> 's) go) \<Rightarrow> string \<Rightarrow> UIServer \<Rightarrow> exchange list \<Rightarrow> 's \<Rightarrow> ((string \<times> ui_value) list list \<times> 's) go" where
  "events_loop handle GOOS srv [] s = Some ([], s)"
| "events_loop handle GOOS srv (ex # exs) s = do {
     (data, s1) \<leftarrow>
       (case getClient GOOS srv ex of
          Inl e \<Rightarrow> Some ([(''daemon_running'', VBool False), (''connected'', VBool False)], s)
        | Inr client \<Rightarrow> do {
            (sent, s1) \<leftarrow> ui_send handle ex status_request s;
            Some ([(''daemon_running'', VBool True), (''status'', VStatus (case Client_GetStatus sent of Inl e \<Rightarrow> None | Inr st \<Rightarrow> st))], s1)
          });
     (evs, s2) \<leftarrow> events_loop handle GOOS srv exs s1;
     Some (data # evs, s2)
   }"

definition ui_handleEvents ::
  "('s \<Rightarrow> Request \<Rightarrow> (Response \<times> 's) go) \<Rightarrow> string \<Rightarrow> UIServer \<Rightarrow> exchange list \<Rightarrow> http_request \<Rightarrow> 's \<Rightarrow> (ui_reply \<times> 's) go" where
  "ui_handleEvents handle GOOS srv ticks r s =
     (if \<not> hr_flusher r then Some (http_Error ''Streaming unsupported'' 500, s)
      else do {
        (evs, s1) \<leftarrow> events_loop handle GOOS srv ticks s;
        Some (\<lparr>reply_type = ''text/event-stream'', reply_code = 200, reply_body = EventStream evs\<rparr>, s1)
      })"

section \<open>Starting the daemon\<close>

text \<open>
  What the start needs of the system: \<open>os.Executable\<close>, whether \<open>os.Stat\<close> finds a file that is not a
  directory, \<open>exec.LookPath\<close>, \<open>filepath.Abs\<close>, \<open>cmd.Start\<close>; then the clock, in nanoseconds, when
  the deadline is set and at the head of each round of the loop, and the connection tried in that round.
\<close>

record start_env =
  se_executable :: "go_error + string"
  se_isfile :: "string \<Rightarrow> bool"
  se_lookpath :: "string \<Rightarrow> go_error + string"
  se_abs :: "string \<Rightarrow> go_error + string"
  se_start :: "command \<Rightarrow> go_error option"
  se_began :: int
  se_now :: "nat \<Rightarrow> int"
  se_poll :: "nat \<Rightarrow> exchange"

text \<open>\<open>filepath.Join(filepath.Dir(path), name)\<close> for the clean absolute path of an executable: its last
  element replaced.\<close>

definition path_sep :: "string \<Rightarrow> char" where
  "path_sep GOOS = (if GOOS = ''windows'' then CHR 0x5C else CHR ''/'')"

definition sibling :: "string \<Rightarrow> string \<Rightarrow> string \<Rightarrow> string" where
  "sibling GOOS path name = rev (dropWhile (\<lambda>c. c \<noteq> path_sep GOOS) (rev path)) @ name"

fun find_candidate :: "start_env \<Rightarrow> string list \<Rightarrow> string" where
  "find_candidate se [] = []"
| "find_candidate se (c # cs) =
     (case se_lookpath se c of
        Inr path \<Rightarrow> (case se_abs se path of Inr a \<Rightarrow> a | Inl e \<Rightarrow> path)
      | Inl e \<Rightarrow>
          if se_isfile se c then (case se_abs se c of Inr a \<Rightarrow> a | Inl e \<Rightarrow> c)
          else find_candidate se cs)"

definition findDaemonBinary :: "string \<Rightarrow> start_env \<Rightarrow> string" where
  "findDaemonBinary GOOS se =
     (let beside = (case se_executable se of
            Inl e \<Rightarrow> None
          | Inr execPath \<Rightarrow>
              (let candidate = sibling GOOS execPath ''ant-daemon'' @ (if GOOS = ''windows'' then ''.exe'' else [])
               in if se_isfile se candidate then Some candidate else None))
      in case beside of
           Some candidate \<Rightarrow> candidate
         | None \<Rightarrow>
             if GOOS \<noteq> ''windows'' \<and> se_isfile se ''/usr/local/bin/ant-daemon'' then ''/usr/local/bin/ant-daemon''
             else find_candidate se [''bin/ant-daemon'', ''bin/windows/ant-daemon.exe'', ''ant-daemon''])"

text \<open>The verb \<open>%q\<close> on an ASCII string.\<close>

definition quote_char :: "char \<Rightarrow> string" where
  "quote_char c =
     (let n = of_char c :: nat in
      if c = CHR 0x22 \<or> c = CHR 0x5C then [CHR 0x5C, c]
      else if 32 \<le> n \<and> n \<noteq> 127 then [c]
      else CHR 0x5C # (if 7 \<le> n \<and> n \<le> 13 then [''abtnvfr'' ! (n - 7)]
                       else [CHR ''x'', hex_char (n div 16), hex_char (n mod 16)]))"

definition go_quote :: "string \<Rightarrow> string" where
  "go_quote s = [CHR 0x22] @ concat (map quote_char s) @ [CHR 0x22]"

definition start_command :: "string \<Rightarrow> start_env \<Rightarrow> string \<Rightarrow> command option" where
  "start_command GOOS se daemonPath =
     (if GOOS = ''darwin'' then
        Some [''osascript'', ''-e'', ''do shell script '' @ go_quote daemonPath @ '' with administrator privileges'']
      else if GOOS = ''windows'' then
        Some [''powershell'', ''-NoProfile'', ''-Command'', ''Start-Process -FilePath '' @ [CHR 0x27] @ daemonPath @ [CHR 0x27] @ '' -Verb RunAs'']
      else if GOOS = ''linux'' then
        Some [if isl (se_lookpath se ''pkexec'') then ''sudo'' else ''pkexec'', daemonPath]
      else None)"

text \<open>One round of the loop that waits for the daemon, with its condition.\<close>

definition poll_round :: "int \<Rightarrow> int \<Rightarrow> go_error + Client \<Rightarrow> bool \<Rightarrow> (bool \<times> bool) go" where
  "poll_round deadline now client online =
     (if \<not> now < deadline then Some (False, online)
      else case client of Inr c \<Rightarrow> Some (False, True) | Inl e \<Rightarrow> Some (True, online))"

definition poll_daemon :: "string \<Rightarrow> UIServer \<Rightarrow> start_env \<Rightarrow> (nat \<times> bool go) option" where
  "poll_daemon GOOS srv se =
     (let deadline = se_began se + 6 * 1000000000
      in run_rounds (\<lambda>k. poll_round deadline (se_now se k) (getClient GOOS srv (se_poll se k))) 0 False)"

definition start_failed :: "nat \<Rightarrow> ui_value \<Rightarrow> ui_reply" where
  "start_failed code e = jsonResponse code (JSONObject [(''success'', VBool False), (''error'', e)])"

definition start_done :: "string \<Rightarrow> ui_reply" where
  "start_done msg = jsonResponse 200 (JSONObject [(''success'', VBool True), (''message'', VText msg)])"

text \<open>\<open>None\<close> when the loop never ends; the commands are the processes launched.\<close>

definition handleStartDaemon :: "string \<Rightarrow> UIServer \<Rightarrow> exchange \<Rightarrow> start_env \<Rightarrow> http_request \<Rightarrow> (ui_reply \<times> command list) option" where
  "handleStartDaemon GOOS srv ex se r =
     (if hr_method r \<noteq> ''POST'' then Some (not_allowed, [])
      else if \<not> isl (getClient GOOS srv ex) then Some (start_done ''Daemon is already running'', [])
      else
        let daemonPath = findDaemonBinary GOOS se in
        if daemonPath = [] then Some (start_failed 500 (VText ''Could not locate ant-daemon executable on disk''), [])
        else
          (case start_command GOOS se daemonPath of
             None \<Rightarrow> Some (start_failed 500 (VText ''Unsupported platform for automated privilege escalation''), [])
           | Some cmd \<Rightarrow>
               (case se_start se cmd of
                  Some e \<Rightarrow> Some (start_failed 500 (VErr (ErrOS ''Failed to launch elevation process'')), [])
                | None \<Rightarrow> do {
                    (rounds, result) \<leftarrow> poll_daemon GOOS srv se;
                    online \<leftarrow> result;
                    Some (if \<not> online then start_failed 200 (VText ''Elevation prompt was cancelled or daemon failed to bind IPC socket within 6s'')
                          else start_done ''Daemon launched successfully'', [cmd])
                  })))"

definition openBrowser :: "string \<Rightarrow> string \<Rightarrow> command list" where
  "openBrowser GOOS url =
     (if GOOS = ''darwin'' then [[''open'', url]]
      else if GOOS = ''windows'' then [[''cmd'', ''/c'', ''start'', url]]
      else if GOOS = ''linux'' then [[''xdg-open'', url]]
      else [])"

section \<open>The web server\<close>

text \<open>The routes of \<open>main\<close>, for a clean path: every other path belongs to the subtree of the slash.\<close>

datatype ui_route = RHome | RStatus | RConnect | RDisconnect | REvents | RStartDaemon

definition ui_mux :: "string \<Rightarrow> ui_route" where
  "ui_mux path =
     (if path = ''/api/status'' then RStatus
      else if path = ''/api/connect'' then RConnect
      else if path = ''/api/disconnect'' then RDisconnect
      else if path = ''/api/events'' then REvents
      else if path = ''/api/start-daemon'' then RStartDaemon
      else RHome)"

definition ui_url :: "int \<Rightarrow> string" where
  "ui_url port = ''http://127.0.0.1:'' @ fmt_d port"

text \<open>
  \<open>main\<close> after its flags: the address it listens on, whether it serves, and the processes the second goroutine starts. That
  goroutine sleeps 300 ms first; when binding failed, \<open>main\<close> has returned by then.
\<close>

definition ui_main :: "string \<Rightarrow> int \<Rightarrow> bool \<Rightarrow> (string \<Rightarrow> go_error option) \<Rightarrow> string \<times> bool \<times> command list" where
  "ui_main GOOS port noBrowser listen =
     (let addr = ''127.0.0.1:'' @ fmt_d port in
      case listen addr of
        Some e \<Rightarrow> (addr, False, [])
      | None \<Rightarrow> (addr, True, if \<not> noBrowser then openBrowser GOOS (ui_url port) else []))"

text \<open>A request with its surroundings: the first connection to the daemon, those of the ticks, and the system.\<close>

record ui_call =
  uc_request :: http_request
  uc_first :: exchange
  uc_ticks :: "exchange list"
  uc_start :: start_env

definition ui_serve ::
  "('s \<Rightarrow> Request \<Rightarrow> (Response \<times> 's) go) \<Rightarrow> string \<Rightarrow> string \<Rightarrow> UIServer \<Rightarrow> ui_call \<Rightarrow> 's \<Rightarrow> (ui_reply \<times> 's) go" where
  "ui_serve handle GOOS uiHTML srv c s =
     (case ui_mux (hr_path (uc_request c)) of
        RHome \<Rightarrow> Some (handleHome uiHTML, s)
      | RStatus \<Rightarrow> ui_handleStatus handle GOOS srv (uc_first c) s
      | RConnect \<Rightarrow> ui_handleConnect handle GOOS srv (uc_first c) (uc_request c) s
      | RDisconnect \<Rightarrow> ui_handleDisconnect handle GOOS srv (uc_first c) (uc_request c) s
      | REvents \<Rightarrow> ui_handleEvents handle GOOS srv (uc_ticks c) (uc_request c) s
      | RStartDaemon \<Rightarrow> map_option (\<lambda>(reply, cmds). (reply, s)) (handleStartDaemon GOOS srv (uc_first c) (uc_start c) (uc_request c)))"

text \<open>Requests in the order in which the daemon serves them.\<close>

fun ui_session ::
  "('s \<Rightarrow> Request \<Rightarrow> (Response \<times> 's) go) \<Rightarrow> string \<Rightarrow> string \<Rightarrow> UIServer \<Rightarrow> ui_call list \<Rightarrow> 's \<Rightarrow> (ui_reply list \<times> 's) go" where
  "ui_session handle GOOS uiHTML srv [] s = Some ([], s)"
| "ui_session handle GOOS uiHTML srv (c # cs) s = do {
     (reply, s1) \<leftarrow> ui_serve handle GOOS uiHTML srv c s;
     (replies, s2) \<leftarrow> ui_session handle GOOS uiHTML srv cs s1;
     Some (reply # replies, s2)
   }"

section \<open>What the daemon receives\<close>

text \<open>Whether a connection carries its request to the daemon, and the requests of one call.\<close>

definition delivers :: "string \<Rightarrow> UIServer \<Rightarrow> exchange \<Rightarrow> bool" where
  "delivers GOOS srv ex \<longleftrightarrow> \<not> isl (getClient GOOS srv ex) \<and> ex_reached ex"

definition ui_requests :: "string \<Rightarrow> UIServer \<Rightarrow> ui_call \<Rightarrow> Request list" where
  "ui_requests GOOS srv c =
     (let r = uc_request c; post = (hr_method r = ''POST'' \<and> delivers GOOS srv (uc_first c))
      in case ui_mux (hr_path r) of
           RStatus \<Rightarrow> if delivers GOOS srv (uc_first c) then [status_request] else []
         | RConnect \<Rightarrow> (case hr_params r of Inr ps \<Rightarrow> if post then [connect_request ps] else [] | Inl e \<Rightarrow> [])
         | RDisconnect \<Rightarrow> if post then [disconnect_request] else []
         | REvents \<Rightarrow> if hr_flusher r then map (\<lambda>_. status_request) (filter (delivers GOOS srv) (uc_ticks c)) else []
         | _ \<Rightarrow> [])"

text \<open>The clock of the start: it does not run backwards, and \<open>time.Sleep\<close> takes at least its argument.\<close>

definition sleeps :: "start_env \<Rightarrow> bool" where
  "sleeps se \<longleftrightarrow> se_began se \<le> se_now se 0 \<and> (\<forall>k. se_now se k + 300 * 1000000 \<le> se_now se (Suc k))"

section \<open>Waiting for the daemon ends\<close>

lemma sleeps_now: "sleeps se \<Longrightarrow> se_began se + int k * 300000000 \<le> se_now se k"
proof (induction k)
  case 0
  then show ?case by (simp add: sleeps_def)
next
  case (Suc k)
  from Suc.prems have "se_now se k + 300000000 \<le> se_now se (Suc k)" by (simp add: sleeps_def)
  with Suc show ?case by (simp add: algebra_simps)
qed

text \<open>The loop ends in the first round that finds the deadline passed or the daemon up, and it reports which.\<close>

lemma poll_rounds:
  assumes "k \<le> n" "\<not> (now n < d \<and> isl (client n))" "\<forall>i. k \<le> i \<and> i < n \<longrightarrow> now i < d \<and> isl (client i)"
  shows "run_rounds (\<lambda>k. poll_round d (now k) (client k)) k False = Some (n, Some (now n < d))"
  using assms
proof (induction "n - k" arbitrary: k)
  case 0
  then have "k = n" by simp
  with 0 show ?case by (subst run_rounds_step [of _ _ _ False "now n < d"]) (auto simp: poll_round_def split: sum.splits)
next
  case (Suc j)
  then have "now k < d" "isl (client k)" by auto
  then have "poll_round d (now k) (client k) False = Some (True, False)" by (auto simp: poll_round_def split: sum.splits)
  with Suc.hyps(1) [of "Suc k"] Suc.hyps(2) Suc.prems show ?case by (subst run_rounds_step [of _ _ _ True False]) auto
qed

lemma poll_daemon_ends:
  assumes "sleeps se"
  shows "\<exists>n online. n \<le> 20 \<and> poll_daemon GOOS srv se = Some (n, Some online)
    \<and> (online \<longrightarrow> \<not> isl (getClient GOOS srv (se_poll se n)))"
proof -
  let ?d = "se_began se + 6 * 1000000000"
  let ?goes = "\<lambda>k. se_now se k < ?d \<and> isl (getClient GOOS srv (se_poll se k))"
  have "\<not> ?goes 20" using sleeps_now [OF assms, of 20] by simp
  then obtain n where n: "\<not> ?goes n" "\<forall>i < n. ?goes i" using exists_least_iff [of "\<lambda>k. \<not> ?goes k"] by blast
  then have "n \<le> 20" using \<open>\<not> ?goes 20\<close> not_less by blast
  moreover have "poll_daemon GOOS srv se = Some (n, Some (se_now se n < ?d))"
    unfolding poll_daemon_def Let_def using n by (intro poll_rounds) simp_all
  ultimately show ?thesis using n(1) by blast
qed

lemma handleStartDaemon_answers:
  assumes "sleeps se"
  shows "\<exists>reply cmds. handleStartDaemon GOOS srv ex se r = Some (reply, cmds) \<and> length cmds \<le> 1"
proof -
  from poll_daemon_ends [OF assms] obtain n online where "poll_daemon GOOS srv se = Some (n, Some online)" by blast
  then show ?thesis by (auto simp: handleStartDaemon_def Let_def split: option.splits)
qed

section \<open>Against any handler of requests\<close>

text \<open>The responses of the daemon a reply shows.\<close>

definition shows_only :: "Response list \<Rightarrow> ui_reply \<Rightarrow> bool" where
  "shows_only rs reply \<longleftrightarrow>
     (case reply_body reply of
        JSONResponse resp \<Rightarrow> resp \<in> set rs
      | JSONObject kvs \<Rightarrow> \<forall>k st. (k, VStatus (Some st)) \<in> set kvs \<longrightarrow> Some st \<in> Status ` set rs
      | EventStream evs \<Rightarrow> \<forall>kvs \<in> set evs. \<forall>k st. (k, VStatus (Some st)) \<in> set kvs \<longrightarrow> Some st \<in> Status ` set rs
      | RawBody t \<Rightarrow> True)"

lemma shows_only_mono: "shows_only rs reply \<Longrightarrow> set rs \<subseteq> set rs' \<Longrightarrow> shows_only rs' reply"
  by (auto simp: shows_only_def split: ui_body.splits) blast+

lemma shows_only_start:
  assumes "handleStartDaemon GOOS srv ex se r = Some (reply, cmds)"
  shows "shows_only rs reply"
  using assms by (auto simp: handleStartDaemon_def Let_def shows_only_def http_Error_def start_done_def start_failed_def jsonResponse_def
      bind_eq_Some_conv split: if_splits option.splits prod.splits)

context ipc_handler
begin

lemma ui_send_ok:
  assumes "inv s"
  shows "\<exists>sent rs s1. ui_send handle ex req s = Some (sent, s1) \<and> inv s1
    \<and> handle_seq handle (if ex_reached ex then [req] else []) s = Some (rs, s1) \<and> (\<forall>resp. sent = Inr resp \<longrightarrow> rs = [resp])"
proof -
  from handle_ok [OF assms, of req] obtain resp s1 where "handle s req = Some (resp, s1)" "inv s1" by blast
  then show ?thesis using assms by (auto simp: ui_send_def Client_Send_def split: option.splits)
qed

lemma status_of_sent: "Client_GetStatus sent = Inr (Some st) \<Longrightarrow> \<exists>resp. sent = Inr resp \<and> Status resp = Some st"
  by (auto simp: Client_GetStatus_def split: sum.splits if_splits)

lemma ui_handleStatus_ok:
  assumes "inv s"
  shows "\<exists>reply rs s1. ui_handleStatus handle GOOS srv ex s = Some (reply, s1) \<and> inv s1
    \<and> handle_seq handle (if delivers GOOS srv ex then [status_request] else []) s = Some (rs, s1) \<and> shows_only rs reply"
proof (cases "getClient GOOS srv ex")
  case (Inl e)
  then show ?thesis using assms by (simp add: ui_handleStatus_def delivers_def shows_only_def jsonResponse_def)
next
  case (Inr client)
  from ui_send_ok [OF assms, of ex status_request] obtain sent rs s1 where c:
    "ui_send handle ex status_request s = Some (sent, s1)" "inv s1"
    "handle_seq handle (if ex_reached ex then [status_request] else []) s = Some (rs, s1)" "\<forall>resp. sent = Inr resp \<longrightarrow> rs = [resp]" by blast
  moreover have "Some st \<in> Status ` set rs" if "Client_GetStatus sent = Inr (Some st)" for st
    using status_of_sent [OF that] c(4) by force
  ultimately show ?thesis using Inr
    by (cases "Client_GetStatus sent") (auto simp: ui_handleStatus_def delivers_def shows_only_def jsonResponse_def)
qed

lemma ui_forward_ok:
  assumes "inv s"
  shows "\<exists>reply rs s1. ui_forward handle GOOS srv ex req s = Some (reply, s1) \<and> inv s1
    \<and> handle_seq handle (if delivers GOOS srv ex then [req] else []) s = Some (rs, s1) \<and> shows_only rs reply"
proof (cases "getClient GOOS srv ex")
  case (Inl e)
  then show ?thesis using assms by (simp add: ui_forward_def delivers_def shows_only_def jsonResponse_def)
next
  case (Inr client)
  from ui_send_ok [OF assms, of ex req] obtain sent rs s1 where
    "ui_send handle ex req s = Some (sent, s1)" "inv s1"
    "handle_seq handle (if ex_reached ex then [req] else []) s = Some (rs, s1)" "\<forall>resp. sent = Inr resp \<longrightarrow> rs = [resp]" by blast
  then show ?thesis using Inr by (cases sent) (auto simp: ui_forward_def delivers_def shows_only_def jsonResponse_def)
qed

lemma events_loop_ok:
  "inv s \<Longrightarrow> \<exists>evs rs s1. events_loop handle GOOS srv exs s = Some (evs, s1) \<and> inv s1
    \<and> handle_seq handle (map (\<lambda>_. status_request) (filter (delivers GOOS srv) exs)) s = Some (rs, s1) \<and> length evs = length exs
    \<and> (\<forall>kvs \<in> set evs. \<forall>k st. (k, VStatus (Some st)) \<in> set kvs \<longrightarrow> Some st \<in> Status ` set rs)"
proof (induction exs arbitrary: s)
  case Nil
  then show ?case by simp
next
  case (Cons ex exs)
  show ?case
  proof (cases "getClient GOOS srv ex")
    case (Inl e)
    with Cons.IH [OF Cons.prems] show ?thesis by (auto simp: delivers_def)
  next
    case (Inr client)
    from ui_send_ok [OF Cons.prems, of ex status_request] obtain sent rs s1 where c:
      "ui_send handle ex status_request s = Some (sent, s1)" "inv s1"
      "handle_seq handle (if ex_reached ex then [status_request] else []) s = Some (rs, s1)" "\<forall>resp. sent = Inr resp \<longrightarrow> rs = [resp]" by blast
    from Cons.IH [OF c(2)] obtain evs rs' s2 where i: "events_loop handle GOOS srv exs s1 = Some (evs, s2)" "inv s2"
      "handle_seq handle (map (\<lambda>_. status_request) (filter (delivers GOOS srv) exs)) s1 = Some (rs', s2)" "length evs = length exs"
      "\<forall>kvs \<in> set evs. \<forall>k st. (k, VStatus (Some st)) \<in> set kvs \<longrightarrow> Some st \<in> Status ` set rs'" by blast
    define status where "status = (case Client_GetStatus sent of Inl e \<Rightarrow> None | Inr st \<Rightarrow> st)"
    have st: "\<forall>st. status = Some st \<longrightarrow> Some st \<in> Status ` set rs"
      using status_of_sent [of sent] c(4) by (force simp: status_def split: sum.splits)
    have "handle_seq handle (map (\<lambda>_. status_request) (filter (delivers GOOS srv) (ex # exs))) s = Some (rs @ rs', s2)"
      using handle_seq_append [OF c(3) i(3)] Inr by (auto simp: delivers_def)
    moreover have "\<forall>kvs \<in> set ([(''daemon_running'', VBool True), (''status'', VStatus status)] # evs).
        \<forall>k st. (k, VStatus (Some st)) \<in> set kvs \<longrightarrow> Some st \<in> Status ` set (rs @ rs')"
      using st i(5) by (auto simp: image_Un)
    ultimately show ?thesis using c(1) i Inr by (simp add: status_def)
  qed
qed

lemma ui_serve_ok:
  assumes "inv s" "sleeps (uc_start c)"
  shows "\<exists>reply rs s1. ui_serve handle GOOS uiHTML srv c s = Some (reply, s1) \<and> inv s1
    \<and> handle_seq handle (ui_requests GOOS srv c) s = Some (rs, s1) \<and> shows_only rs reply"
proof (cases "ui_mux (hr_path (uc_request c))")
  case RHome
  then show ?thesis using assms(1) by (simp add: ui_serve_def ui_requests_def Let_def handleHome_def shows_only_def)
next
  case RStatus
  then show ?thesis using ui_handleStatus_ok [OF assms(1)] by (simp add: ui_serve_def ui_requests_def Let_def)
next
  case RConnect
  show ?thesis
  proof (cases "hr_method (uc_request c) = ''POST'' \<and> \<not> isl (hr_params (uc_request c))")
    case True
    then obtain ps where "hr_params (uc_request c) = Inr ps" by (cases "hr_params (uc_request c)") auto
    then show ?thesis using RConnect True ui_forward_ok [OF assms(1), of GOOS srv "uc_first c" "connect_request ps"]
      by (simp add: ui_serve_def ui_requests_def ui_handleConnect_def Let_def)
  next
    case False
    then show ?thesis using RConnect assms(1)
      by (auto simp: ui_serve_def ui_requests_def ui_handleConnect_def Let_def shows_only_def http_Error_def jsonResponse_def split: sum.splits)
  qed
next
  case RDisconnect
  then show ?thesis using assms(1) ui_forward_ok [OF assms(1), of GOOS srv "uc_first c" disconnect_request]
    by (auto simp: ui_serve_def ui_requests_def ui_handleDisconnect_def Let_def shows_only_def http_Error_def)
next
  case REvents
  from events_loop_ok [OF assms(1), of GOOS srv "uc_ticks c"] obtain evs rs s1 where
    "events_loop handle GOOS srv (uc_ticks c) s = Some (evs, s1)" "inv s1"
    "handle_seq handle (map (\<lambda>_. status_request) (filter (delivers GOOS srv) (uc_ticks c))) s = Some (rs, s1)"
    "\<forall>kvs \<in> set evs. \<forall>k st. (k, VStatus (Some st)) \<in> set kvs \<longrightarrow> Some st \<in> Status ` set rs" by blast
  then show ?thesis using REvents assms(1)
    by (simp add: ui_serve_def ui_requests_def ui_handleEvents_def Let_def shows_only_def http_Error_def)
next
  case RStartDaemon
  from handleStartDaemon_answers [OF assms(2)] obtain reply cmds where
    h: "handleStartDaemon GOOS srv (uc_first c) (uc_start c) (uc_request c) = Some (reply, cmds)" by blast
  then show ?thesis using RStartDaemon assms(1) shows_only_start [OF h] by (simp add: ui_serve_def ui_requests_def Let_def)
qed

lemma ui_session_ok:
  "inv s \<Longrightarrow> \<forall>c \<in> set cs. sleeps (uc_start c) \<Longrightarrow> \<exists>replies rs s1. ui_session handle GOOS uiHTML srv cs s = Some (replies, s1) \<and> inv s1
    \<and> length replies = length cs \<and> handle_seq handle (concat (map (ui_requests GOOS srv) cs)) s = Some (rs, s1) \<and> list_all (shows_only rs) replies"
proof (induction cs arbitrary: s)
  case Nil
  then show ?case by simp
next
  case (Cons c cs)
  from ui_serve_ok [OF Cons.prems(1), of c GOOS uiHTML srv] Cons.prems(2) obtain reply rs s1 where c:
    "ui_serve handle GOOS uiHTML srv c s = Some (reply, s1)" "inv s1"
    "handle_seq handle (ui_requests GOOS srv c) s = Some (rs, s1)" "shows_only rs reply" by auto
  from Cons.IH [OF c(2)] Cons.prems(2) obtain replies rs' s2 where i: "ui_session handle GOOS uiHTML srv cs s1 = Some (replies, s2)" "inv s2"
    "length replies = length cs" "handle_seq handle (concat (map (ui_requests GOOS srv) cs)) s1 = Some (rs', s2)" "list_all (shows_only rs') replies" by auto
  have "shows_only (rs @ rs') reply" "list_all (shows_only (rs @ rs')) replies"
    using shows_only_mono [OF c(4)] i(5) shows_only_mono [of rs' _ "rs @ rs'"] by (auto simp: list_all_iff)
  then show ?case using c(1) i(1-3) handle_seq_append [OF c(3) i(4)] by simp
qed

end

section \<open>Property\<close>


text \<open>A host where the daemon is not up and is found beside the user interface, for the witness.\<close>

definition demo_exchange :: "bool \<Rightarrow> exchange" where
  "demo_exchange up = \<lparr>ex_dial = (\<lambda>net addr. if up then None else Some (ErrOS ''connection refused'')), ex_encode = None, ex_reached = up, ex_decode = None\<rparr>"

definition demo_start :: start_env where
  "demo_start = \<lparr>se_executable = Inr ''/opt/ant/ant-ui'', se_isfile = (\<lambda>p. p = ''/opt/ant/ant-daemon''), se_lookpath = (\<lambda>_. Inl ErrRandom),
     se_abs = Inr, se_start = (\<lambda>_. None), se_began = 0, se_now = (\<lambda>k. int k * 300000000), se_poll = (\<lambda>k. demo_exchange (k = 5))\<rparr>"

definition demo_call :: "string \<Rightarrow> string \<Rightarrow> bool \<Rightarrow> ui_call" where
  "demo_call path verb up = \<lparr>uc_request = \<lparr>hr_path = path, hr_method = verb, hr_params = Inr no_params, hr_flusher = True\<rparr>,
     uc_first = demo_exchange up, uc_ticks = [demo_exchange True, demo_exchange False], uc_start = demo_start\<rparr>"


end
