(* ===== verification/Ant_Node.thy ===== *)
theory Ant_Node
  imports Ant_Server Ant_Client
begin

text \<open>
  \<open>main\<close> of \<open>cmd/antserver\<close>: start of the exit node, one round of its ingress loop, and its
  shutdown; and the endless loops of the two programs. Binding a socket is an argument, as are the default route's interface and
  the random bytes. A run ends with a value: \<open>os.Exit\<close> runs no deferred call.
\<close>

section \<open>Start\<close>

record server_flags =
  sf_udp :: string
  sf_tls :: string
  sf_key :: string
  sf_tun :: string
  sf_ip :: string
  sf_peer_ip :: string
  sf_nat :: bool

definition default_server_flags :: server_flags where
  "default_server_flags = \<lparr>sf_udp = '':51820'', sf_tls = '':8443'', sf_key = [], sf_tun = ''ant0'', sf_ip = ''10.8.0.1'',
     sf_peer_ip = ''10.8.0.2'', sf_nat = True\<rparr>"

record server_env =
  se_os :: os_env
  se_wan :: "go_error + string"
  se_udp :: "string \<Rightarrow> go_error option"
  se_tls :: "string \<Rightarrow> go_error option"
  se_rnd :: "bytes option"

datatype server_exit = ExitPrivateKey go_error | ExitServerKey go_error | ExitNoTransports

datatype listener = ListenUDP string | ListenTLS string

record node =
  nd_cfg :: server_cfg
  nd_tun :: "string option"
  nd_listeners :: "listener list"
  nd_cleanup :: "command list"
  nd_state :: server

definition server_key :: "prims \<Rightarrow> bytes option \<Rightarrow> string \<Rightarrow> server_exit + PrivateKey \<times> PublicKey" where
  "server_key P rnd privKeyStr =
     (if privKeyStr \<noteq> [] then
        (case ParsePrivateKey privKeyStr of
           Inl e \<Rightarrow> Inl (ExitPrivateKey e)
         | Inr k \<Rightarrow> Inr (k, PublicKey_of P k))
      else
        (case GenerateKeyPair P rnd of
           Inl e \<Rightarrow> Inl (ExitServerKey e)
         | Inr kp \<Rightarrow> Inr kp))"

definition server_banner :: "PublicKey \<Rightarrow> string \<Rightarrow> string list" where
  "server_banner serverPub tlsListen =
     [replicate 66 (CHR ''=''),
      '' Server Public Key:  '' @ PublicKey_Base64 serverPub,
      '' Connection String:  '' @ connection_string serverPub ''<SERVER_HOST>'' tlsListen,
      replicate 66 (CHR ''='')]"

text \<open>The device, the commands run for it, and the deferred ones.\<close>

definition server_device :: "server_env \<Rightarrow> server_flags \<Rightarrow> (string option \<times> command list \<times> command list) go" where
  "server_device env fl = do {
     (res, c1) \<leftarrow> CreateTUN (se_os env) (sf_tun fl) DefaultMTU;
     Some (case res of
             Inl e \<Rightarrow> (None, c1, [])
           | Inr name \<Rightarrow>
               let c2 = ConfigureIP (se_os env) name (sf_ip fl) (sf_peer_ip fl);
                   nat = (if sf_nat fl then setupServerNAT (goos (se_os env)) (se_wan env) name (sf_ip fl) else ([], []))
               in (Some name, c1 @ c2 @ fst nat, snd nat))
   }"

definition server_listeners :: "server_env \<Rightarrow> server_flags \<Rightarrow> listener list" where
  "server_listeners env fl =
     (if se_udp env (sf_udp fl) = None then [ListenUDP (sf_udp fl)] else [])
     @ (if se_tls env (sf_tls fl) = None then [ListenTLS (sf_tls fl)] else [])"

definition antserver_start ::
  "prims \<Rightarrow> server_env \<Rightarrow> server_flags \<Rightarrow> ((server_exit + node) \<times> string list \<times> command list) go" where
  "antserver_start P env fl =
     (case server_key P (se_rnd env) (sf_key fl) of
        Inl e \<Rightarrow> Some (Inl e, [], [])
      | Inr (priv, serverPub) \<Rightarrow> do {
          (tunDev, cmds, cleanup) \<leftarrow> server_device env fl;
          let transports = server_listeners env fl;
          Some (if transports = [] then Inl ExitNoTransports
                else Inr \<lparr>nd_cfg = \<lparr>serverPriv = priv, has_tun = (tunDev \<noteq> None), defaultPeerIP = sf_peer_ip fl\<rparr>,
                          nd_tun = tunDev, nd_listeners = transports, nd_cleanup = cleanup, nd_state = server_start\<rparr>,
                server_banner serverPub (sf_tls fl), cmds)
        })"

text \<open>The deferred calls, when a signal ends \<open>main\<close>: last one first.\<close>

definition antserver_stop :: "node \<Rightarrow> node \<times> command list" where
  "antserver_stop nd =
     (case SessionManager_Clear (sv_mgr (nd_state nd)) (sv_store (nd_state nd)) of
        (mgr, st) \<Rightarrow>
          (nd\<lparr>nd_listeners := [], nd_tun := None, nd_state := (nd_state nd)\<lparr>sv_mgr := mgr, sv_store := st\<rparr>,
              nd_cfg := (nd_cfg nd)\<lparr>serverPriv := PrivateKey_Wipe (serverPriv (nd_cfg nd))\<rparr>\<rparr>,
           nd_cleanup nd))"

section \<open>Loops\<close>

text \<open>One round of the ingress loop of a transport. The boolean tells whether the loop goes on.\<close>

definition server_ingress ::
  "prims \<Rightarrow> server_cfg \<Rightarrow> bytes \<Rightarrow> bytes option \<Rightarrow> int \<Rightarrow> nat \<Rightarrow> go_error + net_addr \<times> PacketBuffer \<Rightarrow> server \<Rightarrow> (bool \<times> server) go" where
  "server_ingress P cfg idx eph now tr received sv =
     (case received of
        Inl e \<Rightarrow> Some (False, sv)
      | Inr (raddr, buf) \<Rightarrow> map_option (Pair True) (handleIncomingPacket P cfg idx eph now tr raddr buf sv))"

lemma server_ingress_round:
  assumes "aead_ok P" "dh_ok P" "server_ok sv" "\<And>a b. received = Inr (a, b) \<Longrightarrow> wf_buf b"
  shows "\<exists>sv1. server_ingress P cfg idx eph now tr received sv = Some (\<not> isl received, sv1) \<and> server_ok sv1"
proof (cases received)
  case (Inl e)
  then show ?thesis using assms(3) by (simp add: server_ingress_def)
next
  case (Inr ab)
  obtain a b where ab: "ab = (a, b)" by (cases ab)
  then show ?thesis using handleIncomingPacket_ok [OF assms(1-3), of b cfg idx eph now tr a] assms(4) Inr
    by (auto simp: server_ingress_def)
qed

lemma client_ingress_round:
  assumes "live (cl_session cl)" "\<And>b. received = Inr b \<Longrightarrow> wf_buf b"
  shows "\<exists>cl1. client_ingress P tunDev stopped now received cl = Some (\<not> (isl received \<and> stopped), cl1) \<and> live (cl_session cl1)"
proof (cases received)
  case (Inl e)
  then show ?thesis using assms(1) by (simp add: client_ingress_def)
next
  case (Inr b)
  obtain c where c: "RecvCipher (cl_session cl) = Some c" using assms(1) by (auto simp: live_def)
  obtain s pkt where o: "open_packet P now (cl_session cl) b = Some (s, pkt)" "RecvCipher s = RecvCipher (cl_session cl)"
    "SendCipher s = SendCipher (cl_session cl)" by (rule open_packet_total [OF c assms(2) [OF Inr], of P now]) blast
  have "live s" using assms(1) o(2,3) by (simp add: live_def)
  then show ?thesis using Inr o(1) by (auto simp: client_ingress_def Let_def split: option.split)
qed

section \<open>Shutdown\<close>

lemma device_commands_ignored:
  assumes run: "iptables_ok run" and dev: "CreateTUN os name mtu = Some (res, c)"
  shows "fold run c T = T" "fold run (ConfigureIP os n l r) T = T"
proof -
  have other: "run (p # r) T = T" if "p \<noteq> ''iptables''" for p r T using run that by (simp add: iptables_ok_def)
  show "fold run c T = T"
    using dev by (auto simp: CreateTUN_def linux_CreateTUN_def darwin_CreateTUN_def windows_CreateTUN_def Let_def other bind_eq_Some_conv
        split: GOOS.splits option.splits sum.splits if_splits prod.splits)
  show "fold run (ConfigureIP os n l r) T = T"
    by (auto simp: ConfigureIP_def linux_ConfigureIP_def darwin_ConfigureIP_def other split: GOOS.split)
qed

lemma server_device_cleanup:
  assumes run: "iptables_ok run" and dev: "server_device env fl = Some (tunDev, cmds, cleanup)"
  shows "mset (fold run cleanup (fold run cmds T) k) = mset (T k)"
proof -
  from dev obtain res c1 where c: "CreateTUN (se_os env) (sf_tun fl) DefaultMTU = Some (res, c1)"
    by (auto simp: server_device_def bind_eq_Some_conv)
  note ignored = device_commands_ignored [OF run c]
  show ?thesis
  proof (cases res)
    case (Inl e)
    then show ?thesis using dev c ignored by (simp add: server_device_def)
  next
    case (Inr name)
    let ?nat = "setupServerNAT (goos (se_os env)) (se_wan env) name (sf_ip fl)"
    have "cmds = c1 @ ConfigureIP (se_os env) name (sf_ip fl) (sf_peer_ip fl) @ (if sf_nat fl then fst ?nat else [])"
      "cleanup = (if sf_nat fl then snd ?nat else [])"
      using dev c Inr by (auto simp: server_device_def Let_def)
    then show ?thesis using ignored nat_cleanup [OF run] by simp
  qed
qed

section \<open>Properties\<close>



text \<open>
  C22: A clean shutdown leaves nothing behind: after the server has started, served any packets, and run its
  deferred calls, every firewall chain holds the rules it held before with the same multiplicities, no session is registered
  any more, every session that was registered has lost its ciphers and replay state, and the private key is zero.
\<close>

theorem server_shutdown:
  assumes run: "iptables_ok run" and A: "aead_ok P" and D: "dh_ok P" and as: "list_all (\<lambda>a. wf_buf (arr_buf a)) as"
    and start: "antserver_start P env fl = Some (Inr nd, banner, cmds)"
  shows "\<exists>sv nd' cmds'. serve P (nd_cfg nd) as (nd_state nd) = Some sv \<and> antserver_stop (nd\<lparr>nd_state := sv\<rparr>) = (nd', cmds')
    \<and> mset (fold run cmds' (fold run cmds T) k) = mset (T k)
    \<and> (\<forall>i. SessionManager_Get (sv_mgr (nd_state nd')) i = None)
    \<and> (\<forall>i r. SessionManager_Get (sv_mgr sv) i = Some r \<longrightarrow> wiped (sv_store (nd_state nd') ! r))
    \<and> set (serverPriv (nd_cfg nd')) \<subseteq> {0}"
proof -
  from start obtain kp where key: "server_key P (se_rnd env) (sf_key fl) = Inr kp"
    by (cases "server_key P (se_rnd env) (sf_key fl)") (simp_all add: antserver_start_def)
  obtain tunDev cleanup where dev: "server_device env fl = Some (tunDev, cmds, cleanup)" and nd: "nd_cleanup nd = cleanup" "nd_state nd = server_start"
    using start key by (auto simp: antserver_start_def bind_eq_Some_conv Let_def split: prod.splits if_splits)
  obtain sv where sv: "serve P (nd_cfg nd) as (nd_state nd) = Some sv" "server_ok sv"
    using serve_ok [OF A D server_ok_start as] nd(2) by auto
  obtain mgr st where clear: "SessionManager_Clear (sv_mgr sv) (sv_store sv) = (mgr, st)" by fastforce
  note cl = Clear_wipes_all [OF clear]
  have bound: "r < length (sv_store sv)" if "SessionManager_Get (sv_mgr sv) i = Some r" for i r using registered [OF sv(2) that] by simp
  have "set (PrivateKey_Wipe k) \<subseteq> {0}" for k by (auto simp: PrivateKey_Wipe_def Zero32_def)
  then show ?thesis
    using sv(1) server_device_cleanup [OF run dev] nd(1) cl bound by (auto simp: antserver_stop_def clear)
qed

text \<open>
  C38: A start that fails half way does leave something behind. With NAT enabled on Linux, when neither port can be bound the
  server exits through \<open>os.Exit\<close>, which skips the deferred cleanup: the masquerading rule it has just
  added stays in the firewall.
\<close>

theorem failed_start_leaves_rules:
  assumes run: "iptables_ok run" and key: "server_key P (se_rnd env) (sf_key fl) = Inr kp"
    and tun: "CreateTUN (se_os env) (sf_tun fl) DefaultMTU = Some (Inr name, c)" and os: "goos (se_os env) = linux" "sf_nat fl"
    and wan: "se_wan env = Inr out" "TrimSpace out \<noteq> []"
    and busy: "se_udp env (sf_udp fl) \<noteq> None" "se_tls env (sf_tls fl) \<noteq> None"
  shows "\<exists>banner cmds. antserver_start P env fl = Some (Inl ExitNoTransports, banner, cmds)
    \<and> fold run cmds T (''nat'', ''POSTROUTING'')
        = T (''nat'', ''POSTROUTING'') @ [[''-s'', sf_ip fl @ ''/24'', ''-o'', TrimSpace out, ''-j'', ''MASQUERADE'']]"
proof -
  obtain priv pub where kp: "kp = (priv, pub)" by (cases kp)
  let ?cmds = "c @ ConfigureIP (se_os env) name (sf_ip fl) (sf_peer_ip fl) @ fst (setupServerNAT linux (Inr out) name (sf_ip fl))"
  have start: "antserver_start P env fl = Some (Inl ExitNoTransports, server_banner pub (sf_tls fl), ?cmds)"
    using key kp tun os wan busy by (simp add: antserver_start_def server_device_def server_listeners_def Let_def)
  have other: "run (p # r) T = T" if "p \<noteq> ''iptables''" for p r T using run that by (simp add: iptables_ok_def)
  have add: "run (''iptables'' # ''-A'' # c # r) T = T((''filter'', c) := T (''filter'', c) @ [r])"
    "run (''iptables'' # ''-t'' # t # ''-A'' # c # r) T = T((t, c) := T (t, c) @ [r])" for t c r T
    using run by (simp_all add: iptables_ok_def)
  have "fold run ?cmds T = fold run (fst (setupServerNAT linux (Inr out) name (sf_ip fl))) T"
    using device_commands_ignored [OF run tun] by simp
  then show ?thesis using start wan(2) by (simp add: setupServerNAT_def nat_rules_def Let_def other add)
qed

text \<open>A Linux host with a default route, whose ports are free or not.\<close>

definition demo_server_env :: "go_error option \<Rightarrow> server_env" where
  "demo_server_env bound = \<lparr>se_os = demo_os, se_wan = Inr ''eth0'', se_udp = (\<lambda>_. bound), se_tls = (\<lambda>_. bound), se_rnd = Some (replicate 32 5)\<rparr>"

lemma demo_node_key: "\<exists>kp. server_key demo_prims (se_rnd (demo_server_env bound)) (sf_key default_server_flags) = Inr kp"
proof -
  obtain f fpub where "GenerateKeyPair demo_prims (Some (replicate 32 5)) = Inr (f, fpub)" by (rule demo_secrets)
  then show ?thesis by (simp add: server_key_def demo_server_env_def default_server_flags_def)
qed

theorem server_shutdown_witness:
  "\<exists>nd banner cmds nd' cmds'. antserver_start demo_prims (demo_server_env None) default_server_flags = Some (Inr nd, banner, cmds)
    \<and> mset (fold run_iptables cmds' (fold run_iptables cmds (\<lambda>_. [[''-j'', ''LOG'']])) (''filter'', ''FORWARD'')) = {#[''-j'', ''LOG'']#}
    \<and> antserver_stop nd = (nd', cmds') \<and> set (serverPriv (nd_cfg nd')) \<subseteq> {0}"
proof -
  obtain kp where "server_key demo_prims (se_rnd (demo_server_env None)) (sf_key default_server_flags) = Inr kp" using demo_node_key by blast
  moreover obtain priv pub where "kp = (priv, pub)" by (cases kp)
  ultimately obtain nd banner cmds where s: "antserver_start demo_prims (demo_server_env None) default_server_flags = Some (Inr nd, banner, cmds)"
    using demo_os_tun by (simp add: antserver_start_def server_device_def server_listeners_def demo_server_env_def default_server_flags_def Let_def)
  from server_shutdown [OF run_iptables_ok demo_aead_ok demo_dh_ok _ s, of "[]" "\<lambda>_. [[''-j'', ''LOG'']]" "(''filter'', ''FORWARD'')"] s
  show ?thesis by auto
qed

theorem failed_start_leaves_rules_witness:
  "\<exists>banner cmds. antserver_start demo_prims (demo_server_env (Some ErrTransportClosed)) default_server_flags = Some (Inl ExitNoTransports, banner, cmds)
    \<and> fold run_iptables cmds (\<lambda>_. []) (''nat'', ''POSTROUTING'') = [[''-s'', ''10.8.0.1/24'', ''-o'', ''eth0'', ''-j'', ''MASQUERADE'']]"
proof -
  let ?env = "demo_server_env (Some ErrTransportClosed)" and ?fl = default_server_flags
  obtain kp where kp: "server_key demo_prims (se_rnd ?env) (sf_key ?fl) = Inr kp" using demo_node_key by blast
  have trim: "TrimSpace ''eth0'' = ''eth0''" by code_simp
  have "CreateTUN (se_os ?env) (sf_tun ?fl) DefaultMTU = Some (Inr ''ant0'', [[''ip'', ''link'', ''set'', ''dev'', ''ant0'', ''mtu'', ''1420'', ''up'']])"
    "goos (se_os ?env) = linux" "sf_nat ?fl" "se_wan ?env = Inr ''eth0''" "TrimSpace ''eth0'' \<noteq> []"
    "se_udp ?env (sf_udp ?fl) \<noteq> None" "se_tls ?env (sf_tls ?fl) \<noteq> None"
    using demo_os_tun trim by (simp_all add: demo_server_env_def default_server_flags_def demo_os_def)
  from failed_start_leaves_rules [OF run_iptables_ok kp this, of "\<lambda>_. []"] trim show ?thesis by (simp add: default_server_flags_def)
qed

end
