(* ===== verification/Ant_Life.thy ===== *)
theory Ant_Life
  imports Ant_Node Ant_Daemon Ant_Sockets
begin

text \<open>
  The life of the programs around their loops: the interface \<open>transport.Transport\<close> with its three implementations behind it, a loop
  that reads a transport, what closing the transport does to it, the keepalive loop of \<open>antclient\<close>, and \<open>main\<close> of
  \<open>ant-daemon\<close> from the socket to the exit.
\<close>

section \<open>The transport interface\<close>

text \<open>The values a variable of type \<open>transport.Transport\<close> can hold; a method call picks the implementation.\<close>

datatype 'c any_transport = AnyUDP udp_socket | AnyTLS TLSTransport | AnyWS "'c WSTransport"

definition transport_Receive ::
  "'c any_transport \<Rightarrow> bool \<Rightarrow> PacketBuffer \<Rightarrow> ((go_error + net_addr) \<times> 'c any_transport \<times> PacketBuffer) option" where
  "transport_Receive t choice buf =
     (case t of
        AnyUDP u \<Rightarrow> map_option (\<lambda>(r, u1, b). (r, AnyUDP u1, b)) (udp_receive u buf)
      | AnyTLS s \<Rightarrow> map_option (\<lambda>(r, s1, b). (r, AnyTLS s1, b)) (TLS_Receive s choice buf)
      | AnyWS w \<Rightarrow> map_option (\<lambda>(r, w1, b). (r, AnyWS w1, b)) (WS_Receive w choice buf))"

definition transport_Close :: "Conn list \<Rightarrow> 'c any_transport \<Rightarrow> 'c any_transport \<times> Conn list \<times> 'c list" where
  "transport_Close cs t =
     (case t of
        AnyUDP u \<Rightarrow> (AnyUDP (UDP_Close u), cs, [])
      | AnyTLS s \<Rightarrow> (case TLS_Close s cs of (s1, cs1) \<Rightarrow> (AnyTLS s1, cs1, []))
      | AnyWS w \<Rightarrow> (case WS_Close w of (closed_conns, w1) \<Rightarrow> (AnyWS w1, cs, closed_conns)))"

definition transport_Mode :: "'c any_transport \<Rightarrow> Mode" where
  "transport_Mode t = (case t of AnyUDP u \<Rightarrow> ModeUDP | AnyTLS s \<Rightarrow> ModeTLS | AnyWS w \<Rightarrow> ModeWebSocket)"

definition transport_closed :: "'c any_transport \<Rightarrow> bool" where
  "transport_closed t = (case t of AnyUDP u \<Rightarrow> us_closed u | AnyTLS s \<Rightarrow> TLSTransport.closed s | AnyWS w \<Rightarrow> ws_closed w)"

text \<open>Packets that are still queued in a channel and may be received after \<open>Close\<close>.\<close>

definition backlog :: "'c any_transport \<Rightarrow> incomingPacket list" where
  "backlog t = (case t of AnyUDP u \<Rightarrow> [] | AnyTLS s \<Rightarrow> incoming s | AnyWS w \<Rightarrow> ws_incoming w)"

text \<open>Every queued packet fits into a pooled buffer.\<close>

definition queue_fits :: "'c any_transport \<Rightarrow> bool" where
  "queue_fits t \<longleftrightarrow> (\<forall>p \<in> set (backlog t). length (pkt_data p) \<le> DefaultBufferSize)"

section \<open>A loop over a transport\<close>

text \<open>
  One round of a loop that receives into a buffer and handles what it got. A call that blocks is a round without effect: the
  loop is where it was.
\<close>

definition net_round ::
  "('t \<Rightarrow> bool \<Rightarrow> PacketBuffer \<Rightarrow> ((go_error + net_addr) \<times> 't \<times> PacketBuffer) option)
     \<Rightarrow> (go_error + net_addr \<times> PacketBuffer \<Rightarrow> 's \<Rightarrow> (bool \<times> 's) go) \<Rightarrow> bool \<Rightarrow> PacketBuffer \<Rightarrow> 't \<times> 's \<Rightarrow> (bool \<times> 't \<times> 's) go" where
  "net_round receive body choice buf st =
     (case receive (fst st) choice buf of
        None \<Rightarrow> Some (True, st)
      | Some (r, t1, b) \<Rightarrow> map_option (\<lambda>(go, s1). (go, t1, s1)) (body (map_sum id (\<lambda>a. (a, b)) r) (snd st)))"

definition read_loop ::
  "('t \<Rightarrow> bool \<Rightarrow> PacketBuffer \<Rightarrow> ((go_error + net_addr) \<times> 't \<times> PacketBuffer) option)
     \<Rightarrow> (nat \<Rightarrow> go_error + net_addr \<times> PacketBuffer \<Rightarrow> 's \<Rightarrow> (bool \<times> 's) go) \<Rightarrow> (nat \<Rightarrow> bool) \<Rightarrow> (nat \<Rightarrow> PacketBuffer) \<Rightarrow> 't \<Rightarrow> 's
     \<Rightarrow> (nat \<times> ('t \<times> 's) go) option" where
  "read_loop receive body choice buf t s = run_rounds (\<lambda>k. net_round receive (body k) (choice k) (buf k)) 0 (t, s)"

text \<open>
  The contract of a transport that can be closed: after \<open>Close\<close>, \<open>Receive\<close> does not block; it returns an error, or one of the
  packets that were queued, of which there are fewer afterwards.
\<close>

locale closable_transport =
  fixes receive :: "'t \<Rightarrow> bool \<Rightarrow> PacketBuffer \<Rightarrow> ((go_error + net_addr) \<times> 't \<times> PacketBuffer) option"
    and close :: "'t \<Rightarrow> 't" and is_closed :: "'t \<Rightarrow> bool" and queued :: "'t \<Rightarrow> nat" and fits :: "'t \<Rightarrow> bool"
  assumes close_closed: "is_closed (close t)"
    and close_queue: "queued (close t) = queued t" and close_fits: "fits (close t) = fits t"
    and receive_closed: "is_closed t \<Longrightarrow> fits t \<Longrightarrow> \<exists>r t' b'. receive t c b = Some (r, t', b') \<and> is_closed t' \<and> fits t' \<and> (\<not> isl r \<longrightarrow> queued t' < queued t)"
    and receive_wf: "fits t \<Longrightarrow> length (Data b) = DefaultBufferSize \<Longrightarrow> receive t c b = Some (Inr a, t', b') \<Longrightarrow> wf_buf b'"
begin

text \<open>
  A loop that stops at an error ends after at most the packets that were queued. It returns with the invariant of its body, or, if
  the body may crash on a packet, it ends in that panic.
\<close>

lemma closed_loop:
  assumes err: "\<And>k e s. I s \<Longrightarrow> \<exists>s1. body k (Inl e) s = Some (False, s1) \<and> I s1"
    and pkt: "\<And>k a b s. I s \<Longrightarrow> wf_buf b \<Longrightarrow> body k (Inr (a, b)) s = None \<and> crash \<or> (\<exists>go s1. body k (Inr (a, b)) s = Some (go, s1) \<and> I s1)"
    and buf: "\<And>k. length (Data (buf k)) = DefaultBufferSize"
  shows "is_closed t \<Longrightarrow> fits t \<Longrightarrow> I s \<Longrightarrow>
    \<exists>n r. n \<le> k + queued t \<and> run_rounds (\<lambda>k. net_round receive (body k) (choice k) (buf k)) k (t, s) = Some (n, r)
      \<and> (case r of None \<Rightarrow> crash | Some ts \<Rightarrow> I (snd ts))"
proof (induction "queued t" arbitrary: k t s rule: less_induct)
  case less
  let ?f = "\<lambda>k. net_round receive (body k) (choice k) (buf k)"
  from receive_closed [OF less.prems(1,2), of "choice k" "buf k"] obtain r t1 b where
    r: "receive t (choice k) (buf k) = Some (r, t1, b)" "is_closed t1" "fits t1" "\<not> isl r \<longrightarrow> queued t1 < queued t" by blast
  show ?case
  proof (cases r)
    case (Inl e)
    from err [OF less.prems(3), of k e] obtain s1 where s1: "body k (Inl e) s = Some (False, s1)" "I s1" by blast
    then have "run_rounds ?f k (t, s) = Some (k, Some (t1, s1))"
      using r(1) Inl by (subst run_rounds_step [of _ _ _ False "(t1, s1)"]) (simp_all add: net_round_def)
    then show ?thesis using s1(2) by (intro exI [of _ k] exI [of _ "Some (t1, s1)"]) simp
  next
    case (Inr a)
    have wf: "wf_buf b" using receive_wf [OF less.prems(2) buf r(1) [unfolded Inr]] .
    from pkt [OF less.prems(3) wf, of k a] consider (panic) "body k (Inr (a, b)) s = None" crash
      | (on) go s1 where "body k (Inr (a, b)) s = Some (go, s1)" "I s1" by (elim disjE conjE exE)
    then show ?thesis
    proof cases
      case panic
      then have "run_rounds ?f k (t, s) = Some (k, None)" using r(1) Inr by (subst run_rounds.simps) (simp add: net_round_def)
      then show ?thesis using panic(2) by (intro exI [of _ k] exI [of _ None]) simp
    next
      case on
      have st: "run_rounds ?f k (t, s) = (if go then run_rounds ?f (Suc k) (t1, s1) else Some (k, Some (t1, s1)))"
        using r(1) Inr on by (subst run_rounds_step [of _ _ _ go "(t1, s1)"]) (simp_all add: net_round_def)
      have q: "queued t1 < queued t" using r(4) Inr by simp
      from less.hyps [OF q r(2,3) on(2), of "Suc k"] obtain n x where "n \<le> Suc k + queued t1" "run_rounds ?f (Suc k) (t1, s1) = Some (n, x)"
        "case x of None \<Rightarrow> crash | Some ts \<Rightarrow> I (snd ts)" by blast
      then show ?thesis using st q on(2) by (cases go) (auto intro!: exI [of _ n] exI [of _ k])
    qed
  qed
qed

end

text \<open>All three transports, through the interface.\<close>

lemma chan_receive_closed:
  "\<exists>r q b'. chan_receive True queue c b = Some (r, q, b') \<and> set q \<subseteq> set queue \<and> (\<not> isl r \<longrightarrow> length q < length queue)"
  by (cases queue) (auto simp: chan_receive_def)

lemma chan_receive_fits:
  assumes "chan_receive cl queue c b = Some (Inr a, q, b')" "length (Data b) = DefaultBufferSize"
    "\<forall>p \<in> set queue. length (pkt_data p) \<le> DefaultBufferSize"
  shows "wf_buf b'"
  using assms by (auto simp: chan_receive_def Reset_def fill_def wf_buf_def split: list.splits if_splits)

interpretation any: closable_transport transport_Receive "\<lambda>t. fst (transport_Close cs t)" transport_closed "\<lambda>t. length (backlog t)" queue_fits
  for cs :: "Conn list"
proof (unfold_locales, goal_cases)
  case (1 t)
  then show ?case by (cases t) (auto simp: transport_Close_def transport_closed_def UDP_Close_def TLS_Close_def WS_Close_def Let_def split: prod.splits option.splits if_splits)
next
  case (2 t)
  then show ?case by (cases t) (auto simp: transport_Close_def backlog_def TLS_Close_def WS_Close_def Let_def split: prod.splits option.splits if_splits)
next
  case (3 t)
  then show ?case by (cases t) (auto simp: transport_Close_def queue_fits_def backlog_def TLS_Close_def WS_Close_def Let_def split: prod.splits option.splits if_splits)
next
  case (4 t c b)
  then show ?case
  proof (cases t)
    case (AnyUDP u)
    then show ?thesis using 4 by (auto simp: transport_Receive_def transport_closed_def queue_fits_def backlog_def udp_receive_def UDP_Receive_def)
  next
    case (AnyTLS s)
    then show ?thesis using 4 chan_receive_closed [of "incoming s" c b]
      by (fastforce simp: transport_Receive_def transport_closed_def queue_fits_def backlog_def TLS_Receive_def)
  next
    case (AnyWS w)
    then show ?thesis using 4 chan_receive_closed [of "ws_incoming w" c b]
      by (fastforce simp: transport_Receive_def transport_closed_def queue_fits_def backlog_def WS_Receive_def)
  qed
next
  case (5 t b c a t' b')
  then show ?case
  proof (cases t)
    case (AnyUDP u)
    then show ?thesis using 5
      by (auto simp: transport_Receive_def udp_receive_def UDP_Receive_def Reset_def wf_buf_def Let_def split: if_splits list.splits)
  next
    case (AnyTLS s)
    then show ?thesis using 5 chan_receive_fits by (fastforce simp: transport_Receive_def TLS_Receive_def queue_fits_def backlog_def)
  next
    case (AnyWS w)
    then show ?thesis using 5 chan_receive_fits by (fastforce simp: transport_Receive_def WS_Receive_def queue_fits_def backlog_def)
  qed
qed

section \<open>The loops of the programs\<close>

text \<open>The bodies of the three ingress loops, on what \<open>Receive\<close> gives. The client's stop channel is closed.\<close>

definition stopped_client_body :: "prims \<Rightarrow> bool \<Rightarrow> int \<Rightarrow> go_error + net_addr \<times> PacketBuffer \<Rightarrow> client \<Rightarrow> (bool \<times> client) go" where
  "stopped_client_body P hasTun now r = client_ingress P hasTun True now (map_sum id snd r)"

definition daemon_body :: "prims \<Rightarrow> int \<Rightarrow> go_error + net_addr \<times> PacketBuffer \<Rightarrow> DaemonState \<Rightarrow> (bool \<times> DaemonState) go" where
  "daemon_body P now r = ingress_round P now (map_sum id snd r)"

lemma server_loop_closed:
  assumes "aead_ok P" "dh_ok P" "server_ok sv" "transport_closed t" "queue_fits t" "\<forall>k. length (Data (buf k)) = DefaultBufferSize"
  shows "\<exists>n t1 sv1. n \<le> length (backlog t)
    \<and> read_loop transport_Receive (\<lambda>k. server_ingress P cfg (idx k) (eph k) (now k) tr) choice buf t sv = Some (n, Some (t1, sv1)) \<and> server_ok sv1"
proof -
  have "\<exists>n r. n \<le> 0 + length (backlog t)
      \<and> run_rounds (\<lambda>k. net_round transport_Receive (server_ingress P cfg (idx k) (eph k) (now k) tr) (choice k) (buf k)) 0 (t, sv) = Some (n, r)
      \<and> (case r of None \<Rightarrow> False | Some ts \<Rightarrow> server_ok (snd ts))"
  proof (rule any.closed_loop [where I = server_ok and crash = False, OF _ _ _ assms(4,5,3)], goal_cases)
    case (1 k e s)
    then show ?case by (simp add: server_ingress_def)
  next
    case (2 k a b s)
    then show ?case using server_ingress_round [OF assms(1,2) 2(1), of "Inr (a, b)" cfg "idx k" "eph k" "now k" tr] by auto
  qed (use assms(6) in simp)
  then show ?thesis by (auto simp: read_loop_def split: option.splits)
qed

lemma client_loop_closed:
  assumes "live (cl_session cl)" "transport_closed t" "queue_fits t" "\<forall>k. length (Data (buf k)) = DefaultBufferSize"
  shows "\<exists>n t1 cl1. n \<le> length (backlog t)
    \<and> read_loop transport_Receive (\<lambda>k. stopped_client_body P hasTun (now k)) choice buf t cl = Some (n, Some (t1, cl1)) \<and> live (cl_session cl1)"
proof -
  have "\<exists>n r. n \<le> 0 + length (backlog t)
      \<and> run_rounds (\<lambda>k. net_round transport_Receive (stopped_client_body P hasTun (now k)) (choice k) (buf k)) 0 (t, cl) = Some (n, r)
      \<and> (case r of None \<Rightarrow> False | Some ts \<Rightarrow> live (cl_session (snd ts)))"
  proof (rule any.closed_loop [where I = "\<lambda>cl. live (cl_session cl)" and crash = False, OF _ _ _ assms(2,3,1)], goal_cases)
    case (1 k e s)
    then show ?case by (simp add: stopped_client_body_def client_ingress_def)
  next
    case (2 k a b s)
    then show ?case using client_ingress_round [OF 2(1), of "Inr b" P hasTun True "now k"] by (auto simp: stopped_client_body_def)
  qed (use assms(4) in simp)
  then show ?thesis by (auto simp: read_loop_def split: option.splits)
qed

lemma daemon_loop_closed:
  assumes "stopCh st = Some True" "transport_closed t" "queue_fits t" "\<forall>k. length (Data (buf k)) = DefaultBufferSize"
  shows "\<exists>n r. n \<le> length (backlog t) \<and> read_loop transport_Receive (\<lambda>k. daemon_body P (now k)) choice buf t st = Some (n, r)"
proof -
  have "\<exists>n r. n \<le> 0 + length (backlog t)
      \<and> run_rounds (\<lambda>k. net_round transport_Receive (daemon_body P (now k)) (choice k) (buf k)) 0 (t, st) = Some (n, r)
      \<and> (case r of None \<Rightarrow> True | Some ts \<Rightarrow> stopCh (snd ts) = Some True)"
  proof (rule any.closed_loop [where I = "\<lambda>st. stopCh st = Some True" and crash = True, OF _ _ _ assms(2,3,1)], goal_cases)
    case (1 k e s)
    then show ?case by (simp add: daemon_body_def ingress_round_def)
  next
    case (2 k a b s)
    show ?case
    proof (cases "daemon_body P (now k) (Inr (a, b)) s")
      case None
      then show ?thesis by simp
    next
      case (Some gs)
      obtain go s1 where gs: "gs = (go, s1)" by fastforce
      then have "stopCh s1 = stopCh s" using Some ingress_round_frame [of P "now k" "Inr b" s go s1] by (simp add: daemon_body_def same_link_def)
      then show ?thesis using Some gs 2(1) by simp
    qed
  qed (use assms(4) in simp)
  then show ?thesis by (auto simp: read_loop_def)
qed

text \<open>The select of the keepalive loop, which has a tick every \<open>KeepaliveInterval\<close>: \<open>stop\<close> tells whether it takes the stop channel or the tick.\<close>

definition keepalive_round :: "prims \<Rightarrow> int \<Rightarrow> net_addr option \<Rightarrow> bool \<Rightarrow> client \<Rightarrow> (bool \<times> client) go" where
  "keepalive_round P now targetAddr stop cl =
     (if stop then Some (False, cl) else map_option (Pair True) (client_keepalive P now targetAddr cl))"

lemma client_keepalive_total:
  assumes "live (cl_session cl)"
  shows "\<exists>cl1. client_keepalive P now targetAddr cl = Some cl1 \<and> live (cl_session cl1) \<and> cl_tun cl1 = cl_tun cl"
proof -
  obtain c where c: "SendCipher (cl_session cl) = Some c" using assms by (auto simp: live_def)
  have "wf_buf (pooled\<lparr>Length := 0\<rparr>)" by (simp add: wf_buf_def pooled_def Reset_def)
  from EncryptPacket_total [OF c this, of P TypeKeepalive 0 now] obtain e s b where
    e: "EncryptPacket P (cl_session cl) (pooled\<lparr>Length := 0\<rparr>) TypeKeepalive 0 now = Some (e, s, b)" "wf_buf b" by blast
  then have "live s" using assms EncryptPacket_counter [OF e(1)] by (simp add: live_def)
  moreover obtain out where "Bytes b = Some out" using e(2) by (auto simp: Bytes_def slice_def wf_buf_def)
  ultimately show ?thesis using e(1) by (simp add: client_keepalive_def)
qed

lemma keepalive_loop_ends:
  fixes P and targetAddr and stops :: "nat \<Rightarrow> bool" and now :: "nat \<Rightarrow> int"
  assumes "live (cl_session cl)"
  defines "loop \<equiv> run_rounds (\<lambda>k. keepalive_round P (now k) targetAddr (stops k)) 0 cl"
  shows "loop = None \<longleftrightarrow> (\<forall>k. \<not> stops k)"
    and "stops n \<Longrightarrow> \<forall>i < n. \<not> stops i \<Longrightarrow> \<exists>cl1. loop = Some (n, Some cl1) \<and> live (cl_session cl1)"
proof -
  have step: "\<exists>st1. keepalive_round P (now k) targetAddr (stops k) st = Some (\<not> stops k, st1) \<and> live (cl_session st1)"
    if "live (cl_session st)" for k st
    using client_keepalive_total [OF that, of P "now k" targetAddr] that by (auto simp: keepalive_round_def)
  note iff = run_rounds_iff [where I = "\<lambda>cl. live (cl_session cl)" and goes = "\<lambda>k. \<not> stops k"
      and f = "\<lambda>k. keepalive_round P (now k) targetAddr (stops k)", OF step assms(1), folded loop_def]
  show "loop = None \<longleftrightarrow> (\<forall>k. \<not> stops k)" by (rule iff(1))
  show "stops n \<Longrightarrow> \<forall>i < n. \<not> stops i \<Longrightarrow> \<exists>cl1. loop = Some (n, Some cl1) \<and> live (cl_session cl1)" using iff(2) [of n] by blast
qed

section \<open>The daemon from start to exit\<close>

definition goos_name :: "GOOS \<Rightarrow> string" where
  "goos_name os = (case os of darwin \<Rightarrow> ''darwin'' | linux \<Rightarrow> ''linux'' | other_os s \<Rightarrow> s)"

text \<open>A connection with the requests it brings and the responses that can be written; connections in the order of their requests.\<close>

definition serve_connection :: "(nat \<Rightarrow> bool) \<times> Request list \<Rightarrow> daemon_run \<Rightarrow> daemon_run go" where
  "serve_connection conn run = map_option snd (handleClient daemon_handle (fst conn) 0 (snd conn) run)"

definition run_state :: "daemon_run \<Rightarrow> DaemonState" where
  "run_state run = snd (snd (snd run))"

text \<open>
  \<open>main\<close>: \<open>conns\<close> are served before the signal, \<open>late\<close> between the disconnect and the exit of the process. The
  result is the state at the exit, the calls that bind and unbind the socket, and the commands of the disconnect.
\<close>

definition daemon_main ::
  "os_env \<Rightarrow> (string \<Rightarrow> string \<Rightarrow> go_error option) \<Rightarrow> go_error option \<Rightarrow> string \<Rightarrow> ((nat \<Rightarrow> bool) \<times> Request list) list
     \<Rightarrow> ((nat \<Rightarrow> bool) \<times> Request list) list \<Rightarrow> daemon_run \<Rightarrow> ((go_error + daemon_run) \<times> sys_call list \<times> command list) go" where
  "daemon_main os listen close_err sockPath conns late run0 =
     (case NewServer (goos_name (goos os)) listen sockPath of
        (Inl e, c1) \<Rightarrow> Some (Inl e, c1, [])
      | (Inr srv, c1) \<Rightarrow> do {
          run1 \<leftarrow> feed serve_connection conns run0;
          (resp, st, cmds) \<leftarrow> handleDisconnect os (run_state run1);
          run2 \<leftarrow> feed serve_connection late (case run1 of (P, g, envs, _) \<Rightarrow> (P, g, envs, st));
          let (e, srv1, c2) = Server_Close close_err srv;
          Some (Inr run2, c1 @ c2, cmds)
        })"

lemma serve_connections_ok:
  "daemon_run_ok run \<Longrightarrow> \<exists>run1. feed serve_connection conns run = Some run1 \<and> daemon_run_ok run1"
proof (rule feed_inv)
  fix conn run
  assume "daemon_run_ok run"
  from daemon_ipc.handleClient_ok [OF this, of "fst conn" 0 "snd conn"]
  show "\<exists>run1. serve_connection conn run = Some run1 \<and> daemon_run_ok run1" by (auto simp: serve_connection_def)
qed

text \<open>The platform does not change.\<close>

lemma handleClient_os: "handleClient daemon_handle wr k reqs run = Some (rs, run1) \<Longrightarrow> fst (snd run1) = fst (snd run)"
proof (induction reqs arbitrary: k run rs)
  case Nil
  then show ?case by simp
next
  case (Cons req reqs)
  have same: "fst (snd run2) = fst (snd run)" if "daemon_handle run req = Some (resp, run2)" for resp run2
    using that by (auto simp: daemon_handle_def split: prod.splits)
  then show ?case using Cons by (fastforce simp: bind_eq_Some_conv split: if_splits)
qed

lemma serve_connections_os: "feed serve_connection conns run = Some run1 \<Longrightarrow> fst (snd run1) = fst (snd run)"
  by (induction conns arbitrary: run) (auto simp: serve_connection_def bind_eq_Some_conv dest: handleClient_os)

text \<open>A daemon that is not connected stays so, unless it is asked to connect.\<close>

definition no_connect :: "(nat \<Rightarrow> bool) \<times> Request list \<Rightarrow> bool" where
  "no_connect conn \<longleftrightarrow> (\<forall>req \<in> set (snd conn). req_Action req \<noteq> ActionConnect)"

lemma handleClient_idle:
  assumes "daemon_run_ok run" "run_link run = None" "\<forall>req \<in> set reqs. req_Action req \<noteq> ActionConnect"
  shows "\<exists>rs run1. handleClient daemon_handle wr k reqs run = Some (rs, run1) \<and> daemon_run_ok run1 \<and> run_link run1 = None"
  using assms
proof (induction reqs arbitrary: k run)
  case Nil
  then show ?case by simp
next
  case (Cons req reqs)
  from daemon_handle_spec [OF Cons.prems(1), of req] obtain resp run1 where h: "daemon_handle run req = Some (resp, run1)" "daemon_run_ok run1"
    "(Success resp, run_link run1) = spec_handle (Success resp) req (run_link run)" by blast
  have "run_link run1 = None" using h(3) Cons.prems(2,3) by (auto simp: spec_handle_def split: if_splits)
  then show ?case using Cons.IH [OF h(2), of "Suc k"] Cons.prems(3) h(1,2) by (cases "wr k") auto
qed

lemma serve_connections_idle:
  "daemon_run_ok run \<Longrightarrow> run_link run = None \<Longrightarrow> list_all no_connect conns
     \<Longrightarrow> \<exists>run1. feed serve_connection conns run = Some run1 \<and> daemon_run_ok run1 \<and> run_link run1 = None"
proof (induction conns arbitrary: run)
  case Nil
  then show ?case by simp
next
  case (Cons conn conns)
  from handleClient_idle [OF Cons.prems(1,2), of "snd conn" "fst conn" 0] Cons.prems(3) obtain rs run1 where
    "handleClient daemon_handle (fst conn) 0 (snd conn) run = Some (rs, run1)" "daemon_run_ok run1" "run_link run1 = None"
    by (auto simp: no_connect_def)
  with Cons.IH [of run1] Cons.prems(3) show ?case by (simp add: serve_connection_def)
qed

section \<open>Properties\<close>


definition demo_tls_busy :: TLSTransport where
  "demo_tls_busy = \<lparr>isServer = False, clientConn = Some 0, connections = [], incoming = replicate 3 \<lparr>pkt_addr = TCPAddr ''s'', pkt_data = [1, 2, 3]\<rparr>, closed = False\<rparr>"



text \<open>A connect request that is served in between does: the process exits with the tunnel up, and nothing takes it down.\<close>

lemma late_connect_survives:
  assumes "aead_ok P" "dh_ok P" "\<forall>n. env_ok os (fst (envs n))" "daemon_inv os st" "\<not> connected st"
    and h: "handleClient daemon_handle (\<lambda>_. True) 0 [connect_request ps] (P, os, envs, st) = Some ([resp], run)" "Success resp"
  shows "connected (run_state run)"
proof -
  have "daemon_run_ok (P, os, envs, st)" using assms(1-4) by (simp add: daemon_run_ok_def)
  from daemon_handle_spec [OF this, of "connect_request ps"] h assms(5)
  have "run_link run \<noteq> None" by (auto simp: spec_handle_def connect_request_def run_link_def link_of_def action_defs split: if_splits)
  then show ?thesis by (auto simp: run_link_def link_of_def run_state_def split: if_splits)
qed


end
