(* ===== verification/Ant_Concurrent.thy ===== *)
theory Ant_Concurrent
  imports Ant_Tunnel
begin

text \<open>
  Goroutines that share a session. \<open>EncryptPacket\<close> and \<open>DecryptPacket\<close> take no lock: the send counter is an atomic
  integer, \<open>CheckAndSet\<close> holds the mutex of the window, \<open>LastActive\<close> is an atomic store, and everything else works on
  the caller's buffer. Here each call is cut at these accesses, goroutines run their parts in the order of an arbitrary schedule, and
  the result is compared with calls that are executed one after the other.
\<close>

section \<open>Calls cut at their shared accesses\<close>

datatype call = CallEncrypt PacketBuffer MessageType byte | CallDecrypt PacketBuffer Header

type_synonym outcome = "go_error option \<times> PacketBuffer"

text \<open>Where a goroutine stands: before the call, before the work on its own buffer, before the store of the time, or after the call.\<close>

datatype goroutine =
    Calling call
  | Sealing PacketBuffer Header
  | Opening PacketBuffer Header
  | Stamping PacketBuffer
  | Returned outcome

text \<open>The parts that touch only the buffer of the caller and the cipher of the session.\<close>

definition encrypt_body :: "prims \<Rightarrow> AEADCipher option \<Rightarrow> PacketBuffer \<Rightarrow> Header \<Rightarrow> outcome go" where
  "encrypt_body P c buf h = do {
     ad \<leftarrow> EncodeHeader h (replicate HeaderSize 0);
     r1 \<leftarrow> EncryptInPlace P c buf (Counter h) ad;
     (case r1 of
        (Some e, buf1) \<Rightarrow> Some (Some e, buf1)
      | (None, buf1) \<Rightarrow> PrependHeader buf1 h)
   }"

definition decrypt_body :: "prims \<Rightarrow> AEADCipher option \<Rightarrow> PacketBuffer \<Rightarrow> Header \<Rightarrow> outcome go" where
  "decrypt_body P c buf h = do {
     ad \<leftarrow> EncodeHeader h (replicate HeaderSize 0);
     DecryptInPlace P c buf (Counter h) ad
   }"

definition after_body :: "outcome \<Rightarrow> goroutine" where
  "after_body r = (case r of (None, buf) \<Rightarrow> Stamping buf | (Some e, buf) \<Rightarrow> Returned (Some e, buf))"

fun goroutine_step :: "prims \<Rightarrow> int \<Rightarrow> Session \<Rightarrow> goroutine \<Rightarrow> (Session \<times> goroutine) go" where
  "goroutine_step P now s (Calling (CallEncrypt buf msgType flags)) =
     (let s1 = s\<lparr>sendCounter := sendCounter s + 1\<rparr>;
          counter = sendCounter s1 - 1
      in Some (s1, Sealing buf \<lparr>Type = msgType, Flags = flags, ReceiverIndex = RemoteIndex s, Counter = counter\<rparr>))"
| "goroutine_step P now s (Calling (CallDecrypt buf h)) =
     (case CheckAndSet (replay s) (Counter h) of
        (ok, rw) \<Rightarrow> Some (s\<lparr>replay := rw\<rparr>, if \<not> ok then Returned (Some ErrReplay, buf) else Opening buf h))"
| "goroutine_step P now s (Sealing buf h) = map_option (\<lambda>r. (s, after_body r)) (encrypt_body P (SendCipher s) buf h)"
| "goroutine_step P now s (Opening buf h) = map_option (\<lambda>r. (s, after_body r)) (decrypt_body P (RecvCipher s) buf h)"
| "goroutine_step P now s (Stamping buf) = Some (s\<lparr>LastActive := now\<rparr>, Returned (None, buf))"
| "goroutine_step P now s (Returned r) = Some (s, Returned r)"

text \<open>A schedule names the goroutine that moves and the time it reads; a goroutine that has returned does not move any more.\<close>

definition sched_step :: "prims \<Rightarrow> nat \<times> int \<Rightarrow> Session \<times> goroutine list \<Rightarrow> (Session \<times> goroutine list) go" where
  "sched_step P e st =
     (case e of
        (i, now) \<Rightarrow>
          if i < length (snd st)
          then map_option (\<lambda>(s1, g1). (s1, (snd st)[i := g1])) (goroutine_step P now (fst st) (snd st ! i))
          else Some st)"

definition run_goroutines :: "prims \<Rightarrow> call list \<Rightarrow> (nat \<times> int) list \<Rightarrow> Session \<Rightarrow> (Session \<times> goroutine list) go" where
  "run_goroutines P calls sched s = feed (sched_step P) sched (s, map Calling calls)"

section \<open>Calls one after the other\<close>

definition exec_call :: "prims \<Rightarrow> int \<Rightarrow> call \<Rightarrow> Session \<Rightarrow> (Session \<times> outcome) go" where
  "exec_call P now c s =
     (case c of
        CallEncrypt buf msgType flags \<Rightarrow> map_option (\<lambda>(e, s1, buf1). (s1, e, buf1)) (EncryptPacket P s buf msgType flags now)
      | CallDecrypt buf h \<Rightarrow> map_option (\<lambda>(e, s1, buf1). (s1, e, buf1)) (DecryptPacket P s buf h now))"

definition seq_step :: "prims \<Rightarrow> call list \<Rightarrow> nat \<Rightarrow> Session \<times> (nat \<rightharpoonup> outcome) \<Rightarrow> (Session \<times> (nat \<rightharpoonup> outcome)) go" where
  "seq_step P calls i st = map_option (\<lambda>(s1, r). (s1, (snd st)(i \<mapsto> r))) (exec_call P 0 (calls ! i) (fst st))"

definition run_sequential :: "prims \<Rightarrow> call list \<Rightarrow> nat list \<Rightarrow> Session \<Rightarrow> (Session \<times> (nat \<rightharpoonup> outcome)) go" where
  "run_sequential P calls order s = feed (seq_step P calls) order (s, Map.empty)"

text \<open>The order in which goroutines make their first move.\<close>

definition lin_order :: "nat \<Rightarrow> (nat \<times> int) list \<Rightarrow> nat list" where
  "lin_order n sched = rev (remdups (rev (filter (\<lambda>i. i < n) (map fst sched))))"

lemma lin_order_Nil [simp]: "lin_order n [] = []"
  by (simp add: lin_order_def)

lemma lin_order_snoc [simp]:
  "lin_order n (sched @ [(i, now)]) = (if i < n \<and> i \<notin> set (lin_order n sched) then lin_order n sched @ [i] else lin_order n sched)"
  by (auto simp: lin_order_def)

lemma distinct_lin_order: "distinct (lin_order n sched)"
  by (simp add: lin_order_def)

lemma set_lin_order: "set (lin_order n sched) = {i. i < n \<and> i \<in> fst ` set sched}"
  by (auto simp: lin_order_def)

section \<open>A call is its parts\<close>

lemma EncryptPacket_parts:
  "EncryptPacket P s buf ty fl now =
     map_option (\<lambda>(e, b). (e, (if e = None then s\<lparr>sendCounter := sendCounter s + 1, LastActive := now\<rparr> else s\<lparr>sendCounter := sendCounter s + 1\<rparr>), b))
       (encrypt_body P (SendCipher s) buf (out_header s ty fl))"
  by (auto simp: EncryptPacket_def encrypt_body_def out_header_def Let_def split: Option.bind_split option.splits prod.splits)

lemma DecryptPacket_parts:
  "DecryptPacket P s buf h now =
     (let (ok, rw) = CheckAndSet (replay s) (Counter h) in
      if \<not> ok then Some (Some ErrReplay, s\<lparr>replay := rw\<rparr>, buf)
      else map_option (\<lambda>(e, b). (e, (if e = None then s\<lparr>replay := rw, LastActive := now\<rparr> else s\<lparr>replay := rw\<rparr>), b))
             (decrypt_body P (RecvCipher s) buf h))"
  by (auto simp: DecryptPacket_def decrypt_body_def Let_def split: Option.bind_split option.splits prod.splits)

text \<open>A goroutine that runs alone makes the call.\<close>

lemma goroutine_alone:
  assumes "exec_call P now c s = Some (s', r)"
  shows "\<exists>n. feed (\<lambda>t (s, g). goroutine_step P t s g) (replicate n now) (s, Calling c) = Some (s', Returned r)"
proof -
  have "feed (\<lambda>t (s, g). goroutine_step P t s g) (replicate 3 now) (s, Calling c) = Some (s', Returned r)"
    using assms
    by (cases c) (auto simp: numeral_3_eq_3 exec_call_def EncryptPacket_parts DecryptPacket_parts Let_def after_body_def out_header_def
        split: prod.splits if_splits option.splits)
  then show ?thesis ..
qed

section \<open>Simulation\<close>

text \<open>Sessions that differ at most in the time of the last activity, and what a goroutine under way is going to return.\<close>

definition quiet :: "Session \<Rightarrow> Session" where
  "quiet s = s\<lparr>LastActive := 0\<rparr>"

fun pending :: "prims \<Rightarrow> Session \<Rightarrow> goroutine \<Rightarrow> outcome option" where
  "pending P s (Calling c) = None"
| "pending P s (Sealing buf h) = encrypt_body P (SendCipher s) buf h"
| "pending P s (Opening buf h) = decrypt_body P (RecvCipher s) buf h"
| "pending P s (Stamping buf) = Some (None, buf)"
| "pending P s (Returned r) = Some r"

lemma quiet_simps [simp]: "quiet (s\<lparr>LastActive := t\<rparr>) = quiet s"
  by (simp add: quiet_def)

lemma quietD:
  assumes "quiet s = quiet s'"
  shows "sendCounter s = sendCounter s'" "SendCipher s = SendCipher s'" "RecvCipher s = RecvCipher s'" "replay s = replay s'"
    "RemoteIndex s = RemoteIndex s'" "LocalIndex s = LocalIndex s'"
    "quiet (s\<lparr>sendCounter := n\<rparr>) = quiet (s'\<lparr>sendCounter := n\<rparr>)" "quiet (s\<lparr>replay := rw\<rparr>) = quiet (s'\<lparr>replay := rw\<rparr>)"
  using assms by (cases s; cases s'; simp add: quiet_def)+

lemma after_body_pending [simp]: "pending P s (after_body r) = Some r"
  by (cases r; cases "fst r") (auto simp: after_body_def)

text \<open>The first move of a goroutine is the point where its call takes effect.\<close>

lemma first_move:
  assumes q: "quiet sq = quiet s" and ex: "exec_call P t c sq = Some (sq1, r)"
  shows "\<exists>s1 g1. goroutine_step P now s (Calling c) = Some (s1, g1) \<and> quiet sq1 = quiet s1
    \<and> SendCipher s1 = SendCipher s \<and> RecvCipher s1 = RecvCipher s \<and> pending P s g1 = Some r"
proof (cases c)
  case (CallEncrypt buf ty fl)
  note d = quietD [OF q]
  show ?thesis using ex d CallEncrypt
    by (auto simp: exec_call_def EncryptPacket_parts out_header_def split: if_splits)
next
  case (CallDecrypt buf h)
  note d = quietD [OF q]
  show ?thesis using ex d CallDecrypt
    by (auto simp: exec_call_def DecryptPacket_parts Let_def split: prod.splits if_splits)
qed

lemma later_move:
  assumes "pending P s g = Some r" and "\<forall>c. g \<noteq> Calling c"
  shows "\<exists>s1 g1. goroutine_step P now s g = Some (s1, g1) \<and> quiet s1 = quiet s
    \<and> SendCipher s1 = SendCipher s \<and> RecvCipher s1 = RecvCipher s \<and> pending P s g1 = Some r"
  using assms by (cases g) auto

lemma pending_cong: "SendCipher s = SendCipher s' \<Longrightarrow> RecvCipher s = RecvCipher s' \<Longrightarrow> pending P s g = pending P s' g"
  by (cases g) auto

text \<open>What the code needs of a call: a well-formed buffer, and room for tag and header when it encrypts.\<close>

definition call_ok :: "call \<Rightarrow> bool" where
  "call_ok c \<longleftrightarrow> (case c of CallEncrypt buf ty fl \<Rightarrow> has_room buf | CallDecrypt buf h \<Rightarrow> wf_buf buf)"

lemma exec_call_total:
  assumes "live s" "call_ok c"
  shows "\<exists>s1 r. exec_call P t c s = Some (s1, r) \<and> SendCipher s1 = SendCipher s \<and> RecvCipher s1 = RecvCipher s"
proof -
  obtain k k' where k: "SendCipher s = Some k" "RecvCipher s = Some k'" using assms(1) by (auto simp: live_def)
  show ?thesis
  proof (cases c)
    case (CallEncrypt buf ty fl)
    then have "wf_buf buf" using assms(2) has_room_wf by (simp add: call_ok_def)
    from EncryptPacket_total [OF k(1) this, of P ty fl t] obtain e s1 b where "EncryptPacket P s buf ty fl t = Some (e, s1, b)" by blast
    then show ?thesis using CallEncrypt EncryptPacket_counter by (auto simp: exec_call_def)
  next
    case (CallDecrypt buf h)
    from DecryptPacket_total [OF k(2), of buf P h t] CallDecrypt assms(2) obtain e s1 b where
      "DecryptPacket P s buf h t = Some (e, s1, b)" by (auto simp: call_ok_def)
    then show ?thesis using CallDecrypt DecryptPacket_session [of P s buf h t e s1 b] by (auto simp: exec_call_def)
  qed
qed

text \<open>
  The invariant of a schedule: the calls of the goroutines that have moved, executed one after the other in the order of their first moves, give
  the session as it is now, up to the time of the last activity, and the outcome each of them has or will have.
\<close>

definition linearised :: "prims \<Rightarrow> call list \<Rightarrow> nat list \<Rightarrow> Session \<Rightarrow> Session \<times> goroutine list \<Rightarrow> bool" where
  "linearised P calls order s0 st \<longleftrightarrow>
     (\<exists>sq rs. run_sequential P calls order s0 = Some (sq, rs) \<and> quiet sq = quiet (fst st)
        \<and> SendCipher (fst st) = SendCipher s0 \<and> RecvCipher (fst st) = RecvCipher s0 \<and> length (snd st) = length calls
        \<and> (\<forall>i < length calls. if i \<in> set order then rs i \<noteq> None \<and> pending P s0 (snd st ! i) = rs i else snd st ! i = Calling (calls ! i)))"

lemma linearisedE:
  assumes "linearised P calls order s0 (s, gs)"
  obtains sq rs where "run_sequential P calls order s0 = Some (sq, rs)" "quiet sq = quiet s"
    "SendCipher s = SendCipher s0" "RecvCipher s = RecvCipher s0" "length gs = length calls"
    "\<forall>i < length calls. if i \<in> set order then rs i \<noteq> None \<and> pending P s0 (gs ! i) = rs i else gs ! i = Calling (calls ! i)"
  using assms unfolding linearised_def fst_conv snd_conv by blast

lemma linearised_start: "linearised P calls [] s (s, map Calling calls)"
  by (simp add: linearised_def run_sequential_def)

lemma linearised_first:
  assumes L: "linearised P calls order s0 (s, gs)" and s0: "live s0" and ok: "call_ok (calls ! i)"
    and i: "i < length calls" "i \<notin> set order"
  shows "\<exists>st. sched_step P (i, now) (s, gs) = Some st \<and> linearised P calls (order @ [i]) s0 st"
proof -
  from L obtain sq rs where l: "run_sequential P calls order s0 = Some (sq, rs)" "quiet sq = quiet s"
    "SendCipher s = SendCipher s0" "RecvCipher s = RecvCipher s0" "length gs = length calls"
    "\<forall>i < length calls. if i \<in> set order then rs i \<noteq> None \<and> pending P s0 (gs ! i) = rs i else gs ! i = Calling (calls ! i)"
    by (rule linearisedE)
  have "live sq" using s0 l(3,4) quietD(2,3) [OF l(2)] by (simp add: live_def)
  from exec_call_total [OF this ok, of P 0] obtain sq1 r where ex: "exec_call P 0 (calls ! i) sq = Some (sq1, r)" by blast
  from first_move [OF l(2) ex, of now] obtain s1 g1 where m: "goroutine_step P now s (Calling (calls ! i)) = Some (s1, g1)"
    "quiet sq1 = quiet s1" "SendCipher s1 = SendCipher s" "RecvCipher s1 = RecvCipher s" "pending P s g1 = Some r" by blast
  have "run_sequential P calls (order @ [i]) s0 = Some (sq1, rs(i \<mapsto> r))"
    using l(1) ex by (simp add: run_sequential_def feed_snoc seq_step_def)
  moreover have "pending P s0 g1 = Some r" using m(5) pending_cong [OF l(3,4)] by simp
  ultimately have "linearised P calls (order @ [i]) s0 (s1, gs[i := g1])"
    using l m(2-4) i(2) by (auto simp: linearised_def nth_list_update)
  moreover have "gs ! i = Calling (calls ! i)" using l(6) i by simp
  ultimately show ?thesis using m(1) l(5) i(1) by (simp add: sched_step_def)
qed

lemma linearised_later:
  assumes L: "linearised P calls order s0 (s, gs)" and i: "i < length calls" "i \<in> set order"
  shows "\<exists>st. sched_step P (i, now) (s, gs) = Some st \<and> linearised P calls order s0 st"
proof -
  from L obtain sq rs where l: "run_sequential P calls order s0 = Some (sq, rs)" "quiet sq = quiet s"
    "SendCipher s = SendCipher s0" "RecvCipher s = RecvCipher s0" "length gs = length calls"
    "\<forall>i < length calls. if i \<in> set order then rs i \<noteq> None \<and> pending P s0 (gs ! i) = rs i else gs ! i = Calling (calls ! i)"
    by (rule linearisedE)
  obtain r where r: "rs i = Some r" "pending P s (gs ! i) = Some r" using l(6) [rule_format, OF i(1)] i(2) pending_cong [OF l(3,4)] by auto
  then have "\<forall>c. gs ! i \<noteq> Calling c" by auto
  from later_move [OF r(2) this, of now] obtain s1 g1 where m: "goroutine_step P now s (gs ! i) = Some (s1, g1)"
    "quiet s1 = quiet s" "SendCipher s1 = SendCipher s" "RecvCipher s1 = RecvCipher s" "pending P s g1 = Some r" by blast
  have "pending P s0 g1 = Some r" using m(5) pending_cong [OF l(3,4)] by simp
  then have "linearised P calls order s0 (s1, gs[i := g1])"
    using l m(2-4) r(1) i by (auto simp: linearised_def nth_list_update)
  then show ?thesis using m(1) l(5) i(1) by (simp add: sched_step_def)
qed

lemma run_goroutines_linearised:
  assumes "live s" "list_all call_ok calls"
  shows "\<exists>st. run_goroutines P calls sched s = Some st \<and> linearised P calls (lin_order (length calls) sched) s st"
proof (induction sched rule: rev_induct)
  case Nil
  then show ?case by (simp add: run_goroutines_def linearised_start)
next
  case (snoc e sched)
  obtain i now where e: "e = (i, now)" by (cases e)
  let ?o = "lin_order (length calls) sched"
  from snoc obtain s1 gs where st: "run_goroutines P calls sched s = Some (s1, gs)" "linearised P calls ?o s (s1, gs)" by auto
  have len: "length gs = length calls" using st(2) by (auto simp: linearised_def)
  have "\<exists>st. sched_step P (i, now) (s1, gs) = Some st \<and> linearised P calls (lin_order (length calls) (sched @ [(i, now)])) s st"
  proof (cases "i < length calls")
    case True
    then show ?thesis
      using linearised_first [OF st(2) assms(1), of i now] linearised_later [OF st(2), of i now] assms(2)
      by (cases "i \<in> set ?o") (auto simp: list_all_length)
  next
    case False
    then show ?thesis using st(2) len by (auto simp: sched_step_def)
  qed
  then show ?case using st(1) by (simp add: e run_goroutines_def feed_snoc del: lin_order_snoc)
qed

section \<open>What a sequence of calls guarantees\<close>

definition is_encrypt :: "call \<Rightarrow> bool" where
  "is_encrypt c \<longleftrightarrow> (case c of CallEncrypt _ _ _ \<Rightarrow> True | CallDecrypt _ _ \<Rightarrow> False)"

definition opened :: "call list \<Rightarrow> (nat \<rightharpoonup> outcome) \<Rightarrow> nat \<Rightarrow> u64 \<Rightarrow> bool" where
  "opened calls rs i q \<longleftrightarrow> (\<exists>buf h b. calls ! i = CallDecrypt buf h \<and> q = Counter h \<and> rs i = Some (None, b))"

definition sealed :: "call list \<Rightarrow> (nat \<rightharpoonup> outcome) \<Rightarrow> nat \<Rightarrow> u64 \<Rightarrow> bool" where
  "sealed calls rs i q \<longleftrightarrow>
     (\<exists>buf ty fl b h. calls ! i = CallEncrypt buf ty fl \<and> rs i = Some (None, b) \<and> DecodeHeader (content b) = Inr h \<and> q = Counter h)"

lemma run_sequential_snoc:
  assumes "run_sequential P calls (order @ [i]) s = Some (sq, rs)"
  obtains sq0 rs0 r where "run_sequential P calls order s = Some (sq0, rs0)" "exec_call P 0 (calls ! i) sq0 = Some (sq, r)" "rs = rs0(i \<mapsto> r)"
  using assms by (auto simp: run_sequential_def feed_snoc seq_step_def bind_eq_Some_conv)

lemma run_sequential_dom: "run_sequential P calls order s = Some (sq, rs) \<Longrightarrow> dom rs = set order"
proof (induction order arbitrary: sq rs rule: rev_induct)
  case Nil
  then show ?case by (simp add: run_sequential_def)
next
  case (snoc i order)
  from run_sequential_snoc [OF snoc.prems] snoc.IH show ?case by (metis dom_fun_upd option.distinct(1) list.set set_append Un_insert_right Un_empty_right)
qed

text \<open>The window of the session represents a set that holds the counter of every packet that was opened, and a counter is opened once.\<close>

lemma opened_once:
  assumes "run_sequential P calls order s = Some (sq, rs)" "replay s = new_ReplayWindow" "distinct order"
  shows "\<exists>A. represents (replay sq) A \<and> (\<forall>i q. opened calls rs i q \<longrightarrow> unat q \<in> A)
    \<and> (\<forall>i j q. opened calls rs i q \<and> opened calls rs j q \<longrightarrow> i = j)"
  using assms
proof (induction order arbitrary: sq rs rule: rev_induct)
  case Nil
  then show ?case using represents_new by (auto simp: run_sequential_def opened_def)
next
  case (snoc k order)
  from run_sequential_snoc [OF snoc.prems(1)] obtain sq0 rs0 r where
    run: "run_sequential P calls order s = Some (sq0, rs0)" and ex: "exec_call P 0 (calls ! k) sq0 = Some (sq, r)" and rs: "rs = rs0(k \<mapsto> r)" .
  from snoc.IH [OF run snoc.prems(2)] snoc.prems(3) obtain A where A: "represents (replay sq0) A"
    "\<forall>i q. opened calls rs0 i q \<longrightarrow> unat q \<in> A" "\<forall>i j q. opened calls rs0 i q \<and> opened calls rs0 j q \<longrightarrow> i = j" by auto
  have new: "rs0 k = None" using run_sequential_dom [OF run] snoc.prems(3) by auto
  have old: "opened calls rs i q \<longleftrightarrow> opened calls rs0 i q" if "i \<noteq> k" for i q using that by (simp add: opened_def rs)
  show ?case
  proof (cases "calls ! k")
    case (CallEncrypt buf ty fl)
    then have "\<not> opened calls rs k q" "replay sq = replay sq0" for q
      using ex EncryptPacket_counter by (auto simp: opened_def exec_call_def)
    then show ?thesis using A old by metis
  next
    case (CallDecrypt buf h)
    obtain ok rw where c: "CheckAndSet (replay sq0) (Counter h) = (ok, rw)" by fastforce
    have rw: "replay sq = rw" and okr: "fst r = None \<longrightarrow> ok"
      using ex CallDecrypt c by (auto simp: exec_call_def DecryptPacket_parts Let_def split: if_splits)
    have k: "opened calls rs k q \<longrightarrow> ok \<and> q = Counter h" for q using okr CallDecrypt by (auto simp: opened_def rs)
    have fresh: "ok \<longrightarrow> unat (Counter h) \<notin> A"
      using represents_accept [OF A(1), of "Counter h"] c A(1) by (auto simp: spec_accept_def represents_def)
    show ?thesis
    proof (intro exI conjI allI impI)
      show "represents (replay sq) (if ok then insert (unat (Counter h)) A else A)" using represents_step [OF A(1) c] rw by simp
      show "unat q \<in> (if ok then insert (unat (Counter h)) A else A)" if "opened calls rs i q" for i q
        using that A(2) k [of q] old [of i q] by (cases "i = k") auto
      show "i = j" if "opened calls rs i q \<and> opened calls rs j q" for i j q
        using that A(2,3) k old fresh by metis
    qed
  qed
qed

text \<open>Every packet is sealed under a counter of its own, as long as the 64-bit counter has not come round.\<close>

lemma sealed_once:
  assumes "run_sequential P calls order s = Some (sq, rs)" "aead_ok P" "live s" "\<forall>i \<in> set order. call_ok (calls ! i)" "distinct order"
    "length (filter (\<lambda>i. is_encrypt (calls ! i)) order) \<le> 2 ^ 64"
  shows "live sq \<and> sendCounter sq = sendCounter s + of_nat (length (filter (\<lambda>i. is_encrypt (calls ! i)) order))
    \<and> (\<forall>i q. sealed calls rs i q \<longrightarrow> (\<exists>k < length (filter (\<lambda>i. is_encrypt (calls ! i)) order). q = sendCounter s + of_nat k))
    \<and> (\<forall>i j q. sealed calls rs i q \<and> sealed calls rs j q \<longrightarrow> i = j)
    \<and> (\<forall>i \<in> set order. is_encrypt (calls ! i) \<longrightarrow> (\<exists>q. sealed calls rs i q))"
  using assms
proof (induction order arbitrary: sq rs rule: rev_induct)
  case Nil
  then show ?case by (auto simp: run_sequential_def sealed_def)
next
  case (snoc k order)
  let ?N = "length (filter (\<lambda>i. is_encrypt (calls ! i)) order)"
  from run_sequential_snoc [OF snoc.prems(1)] obtain sq0 rs0 r where
    run: "run_sequential P calls order s = Some (sq0, rs0)" and ex: "exec_call P 0 (calls ! k) sq0 = Some (sq, r)" and rs: "rs = rs0(k \<mapsto> r)" .
  from snoc.IH [OF run snoc.prems(2,3)] snoc.prems(4-6) have A: "live sq0" "sendCounter sq0 = sendCounter s + of_nat ?N"
    "\<forall>i q. sealed calls rs0 i q \<longrightarrow> (\<exists>k < ?N. q = sendCounter s + of_nat k)" "\<forall>i j q. sealed calls rs0 i q \<and> sealed calls rs0 j q \<longrightarrow> i = j"
    "\<forall>i \<in> set order. is_encrypt (calls ! i) \<longrightarrow> (\<exists>q. sealed calls rs0 i q)" by auto
  have "live sq" using exec_call_total [OF A(1), of "calls ! k" P 0] snoc.prems(4) ex A(1) by (auto simp: live_def)
  have old: "sealed calls rs i q \<longleftrightarrow> sealed calls rs0 i q" if "i \<noteq> k" for i q using that by (simp add: sealed_def rs)
  have kept: "\<forall>i \<in> set order. is_encrypt (calls ! i) \<longrightarrow> (\<exists>q. sealed calls rs i q)" using A(5) old snoc.prems(5) by (metis distinct_append not_distinct_conv_prefix)
  show ?case
  proof (cases "calls ! k")
    case (CallDecrypt buf h)
    then have "\<not> sealed calls rs k q" "sendCounter sq = sendCounter sq0" for q
      using ex by (auto simp: sealed_def exec_call_def DecryptPacket_parts Let_def split: prod.splits if_splits)
    moreover have "\<not> is_encrypt (calls ! k)" using CallDecrypt by (simp add: is_encrypt_def)
    ultimately show ?thesis using A(2-4) old kept \<open>live sq\<close> by simp metis
  next
    case (CallEncrypt buf ty fl)
    then have N: "?N < 2 ^ 64" using snoc.prems(6) by (simp add: is_encrypt_def)
    obtain c where "SendCipher sq0 = Some c" "cipher_ok c" using A(1) by (auto simp: live_def)
    from EncryptPacket_ok [OF snoc.prems(2) this, of buf ty fl 0] CallEncrypt snoc.prems(4)
    obtain b where b: "EncryptPacket P sq0 buf ty fl 0 = Some (None, sq0\<lparr>sendCounter := sendCounter sq0 + 1, LastActive := 0\<rparr>, b)"
      "\<exists>ct. content b = header_bytes (out_header sq0 ty fl) @ ct" by (auto simp: call_ok_def)
    then have sq: "sendCounter sq = sendCounter s + of_nat (Suc ?N)" and r: "r = (None, b)"
      using ex CallEncrypt A(2) by (auto simp: exec_call_def)
    have new: "q = sendCounter s + of_nat ?N" if "sealed calls rs k q" for q
      using that b(2) r A(2) by (auto simp: sealed_def rs)
    have diff: "sendCounter s + of_nat ?N \<noteq> sendCounter s + of_nat m" if "m < ?N" for m
      using that N unat_of_nat64 [of m "2 ^ 64"] unat_of_nat64 [of ?N "2 ^ 64"] by (metis add_left_cancel less_irrefl less_trans order_refl)
    have "q = sendCounter s + of_nat ?N \<or> (\<exists>m < ?N. q = sendCounter s + of_nat m)" if "sealed calls rs i q" for i q
      using that new A(3) old by (cases "i = k") auto
    moreover have "i = j" if "sealed calls rs i q" "sealed calls rs j q" for i j q
      using that A(3,4) new old diff by (metis (no_types))
    moreover have "\<exists>q. sealed calls rs k q" using b(2) r CallEncrypt by (auto simp: sealed_def rs)
    moreover have "is_encrypt (calls ! k)" using CallEncrypt by (simp add: is_encrypt_def)
    ultimately show ?thesis using sq \<open>live sq\<close> kept by (auto simp: less_Suc_eq)
  qed
qed

section \<open>Progress\<close>

text \<open>A call needs at most three moves of its goroutine, whatever the others do.\<close>

fun moves_left :: "goroutine \<Rightarrow> nat" where
  "moves_left (Calling c) = 3"
| "moves_left (Sealing buf h) = 2"
| "moves_left (Opening buf h) = 2"
| "moves_left (Stamping buf) = 1"
| "moves_left (Returned r) = 0"

lemma moves_left_0: "moves_left g = 0 \<longleftrightarrow> (\<exists>r. g = Returned r)"
  by (cases g) auto

lemma moves_left_after_body: "moves_left (after_body r) \<le> 1"
  by (auto simp: after_body_def split: prod.splits option.splits)

lemma goroutine_step_moves: "goroutine_step P now s g = Some (s1, g1) \<Longrightarrow> moves_left g1 \<le> moves_left g - 1"
  using moves_left_after_body by (cases "(P, now, s, g)" rule: goroutine_step.cases) (auto simp: Let_def split: prod.splits if_splits)

lemma run_goroutines_moves:
  "run_goroutines P calls sched s = Some (s', gs) \<Longrightarrow> length gs = length calls
     \<and> (\<forall>i < length calls. moves_left (gs ! i) \<le> 3 - count_list (map fst sched) i)"
proof (induction sched arbitrary: s' gs rule: rev_induct)
  case Nil
  then show ?case by (auto simp: run_goroutines_def)
next
  case (snoc e sched)
  obtain k now where e: "e = (k, now)" by (cases e)
  from snoc.prems obtain s1 gs1 where r: "run_goroutines P calls sched s = Some (s1, gs1)" "sched_step P (k, now) (s1, gs1) = Some (s', gs)"
    by (auto simp: run_goroutines_def feed_snoc bind_eq_Some_conv e)
  note IH = snoc.IH [OF r(1)]
  show ?case
  proof (cases "k < length calls")
    case False
    then show ?thesis using IH r(2) by (auto simp: sched_step_def e)
  next
    case True
    then obtain g1 where g1: "goroutine_step P now s1 (gs1 ! k) = Some (s', g1)" "gs = gs1[k := g1]"
      using r(2) IH by (auto simp: sched_step_def)
    have "moves_left (gs ! i) \<le> 3 - count_list (map fst (sched @ [e])) i" if "i < length calls" for i
      using IH that goroutine_step_moves [OF g1(1)] g1(2) True by (cases "i = k") (fastforce simp: e nth_list_update)+
    then show ?thesis using IH g1(2) by simp
  qed
qed

section \<open>Properties\<close>

text \<open>
  C6: Goroutines may share a session. Whatever the number of concurrent calls of \<open>EncryptPacket\<close> and \<open>DecryptPacket\<close> and
  however their parts are interleaved, no call panics, and the calls are linearisable: executed one after the other, in the order of their
  first accesses to the session, they give the same session up to the time of the last activity, and every call that
  has returned has the outcome it has there. A call has returned after three moves of its goroutine, whatever the others do.
\<close>

theorem session_linearisable:
  assumes "live s" "list_all call_ok calls"
  shows "\<exists>s' gs sq rs. run_goroutines P calls sched s = Some (s', gs) \<and> length gs = length calls
    \<and> run_sequential P calls (lin_order (length calls) sched) s = Some (sq, rs)
    \<and> s'\<lparr>LastActive := 0\<rparr> = sq\<lparr>LastActive := 0\<rparr>
    \<and> (\<forall>i < length calls. (\<forall>r. gs ! i = Returned r \<longrightarrow> rs i = Some r) \<and> (3 \<le> count_list (map fst sched) i \<longrightarrow> (\<exists>r. gs ! i = Returned r)))"
proof -
  from run_goroutines_linearised [OF assms, of P sched] obtain s' gs where
    run: "run_goroutines P calls sched s = Some (s', gs)" and L: "linearised P calls (lin_order (length calls) sched) s (s', gs)" by auto
  from L obtain sq rs where l: "run_sequential P calls (lin_order (length calls) sched) s = Some (sq, rs)" "quiet sq = quiet s'"
    "length gs = length calls" "\<forall>i < length calls. if i \<in> set (lin_order (length calls) sched) then rs i \<noteq> None \<and> pending P s (gs ! i) = rs i else gs ! i = Calling (calls ! i)"
    by (rule linearisedE)
  have "rs i = Some r" if "i < length calls" "gs ! i = Returned r" for i r
    using l(4) [rule_format, OF that(1)] that(2) by (auto split: if_splits)
  moreover have "\<exists>r. gs ! i = Returned r" if "i < length calls" "3 \<le> count_list (map fst sched) i" for i
    using run_goroutines_moves [OF run] that moves_left_0 [of "gs ! i"] by fastforce
  ultimately show ?thesis using run l(1-3) by (auto simp: quiet_def)
qed

text \<open>Two goroutines that encrypt and two that get the same packet, interleaved.\<close>

definition demo_header :: Header where
  "demo_header = \<lparr>Type = TypeData, Flags = 0, ReceiverIndex = 1, Counter = 4\<rparr>"

definition demo_calls :: "call list" where
  "demo_calls = [CallEncrypt (demo_packet 7) TypeData 0, CallDecrypt (demo_packet 1) demo_header, CallEncrypt (demo_packet 8) TypeData 0,
     CallDecrypt (demo_packet 1) demo_header]"

definition demo_schedule :: "(nat \<times> int) list" where
  "demo_schedule = [(2, 1), (0, 1), (1, 2), (3, 2), (0, 3), (2, 4), (1, 4), (2, 5), (0, 6), (1, 7)]"

lemma demo_calls_ok: "list_all call_ok demo_calls"
  by (simp add: demo_calls_def call_ok_def demo_room has_room_wf)

lemma demo_order: "lin_order (length demo_calls) demo_schedule = [2, 0, 1, 3]"
  by (simp add: lin_order_def demo_calls_def demo_schedule_def)

theorem session_linearisable_witness:
  "\<exists>s' gs sq rs. run_goroutines demo_prims demo_calls demo_schedule (demo_session 1 2) = Some (s', gs)
    \<and> run_sequential demo_prims demo_calls [2, 0, 1, 3] (demo_session 1 2) = Some (sq, rs)
    \<and> s'\<lparr>LastActive := 0\<rparr> = sq\<lparr>LastActive := 0\<rparr>"
  using session_linearisable [OF demo_session_live demo_calls_ok, of demo_prims demo_schedule 1 2] unfolding demo_order by blast



end
