(* ===== verification/Spec2Isabelle.thy ===== *)
theory Spec2Isabelle
  imports Ant_Padding Ant_System Ant_Log Ant_UI Ant_Life Ant_Concurrent
begin

text \<open>
  \<^bold>\<open>AnonymousAnt\<close> is a VPN written in Go. Packets read from a TUN device are sealed with an AEAD
  under keys agreed in a Noise IK handshake and carried over UDP, over TLS frames with a decoy web
  server in front, or over WebSocket to an exit node, which forwards them and routes the answers
  back. There are three clients (a command line program, a daemon that front ends drive over a local
  socket, and a library for mobile applications), a desktop front end, and the code around them: device set-up, routes, a kill
  switch, redacting logs. This development models these parts, file by file, and proves what makes them correct; where the code
  does not do what it means to, the theorem says what it does instead.

  \<^bold>\<open>Conventions.\<close> A Go function that can panic has a result of type \<open>'a go\<close>, an option whose
  \<open>None\<close> is the panic; errors are values of \<open>go_error\<close> in a sum or an option. Structs are
  records, \<open>uint8\<close> to \<open>uint64\<close> are words and wrap around, \<open>[]byte\<close> is a list of bytes, and the
  buffers of \<open>pkg/buffer\<close> keep their backing array, so that aliasing of header, payload and tag is what the code
  has. Shared pointers (sessions, peers, engines) are positions in lists that only grow. Mutexes make the operations they guard atomic;
  what runs beside them is a step of its own, and the interleavings that matter are stated as such.
  The clock, random bytes, results of system calls and of commands are arguments.

  \<^bold>\<open>Parameters and hypotheses.\<close> Code outside the repository is a parameter with its documented
  behaviour as a named hypothesis: \<open>aead_ok\<close> (an AEAD opens exactly what it sealed; there is no
  claim that forging is hard, theorems say instead that an accepted packet \<^emph>\<open>was\<close> sealed under the
  key), \<open>dh_ok\<close> (X25519 commutes and has 32 bytes), \<open>iptables_ok\<close>, \<open>rule_matching_ok\<close> and \<open>ip_route_ok\<close> (what the
  commands do to chains and routes), \<open>net_ok\<close> and \<open>env_ok\<close> (a receive call leaves a well-formed buffer,
  the platform is the one asked for). Each has an instance (\<open>demo_prims\<close>, \<open>run_iptables\<close>, \<open>run_ip_route\<close>, \<open>demo_env\<close> and others)
  on which the witnesses evaluate the theorems. SHA-256, base64, hex and the string functions of the standard library are defined.

  \<^bold>\<open>Theories and sources.\<close>
  \<^item> \<open>Ant_Prelude\<close>: panics, slices, copies, little-endian integers, \<open>feed\<close> (a step function over a list of inputs), \<open>run_rounds\<close> (a
    loop without a condition).
  \<^item> \<open>Ant_Buffer\<close>: \<open>pkg/buffer\<close>; the pool is a step relation in which any returned object may come out again.
  \<^item> \<open>Ant_Packet\<close>, \<open>Ant_Replay\<close>, \<open>Ant_Session\<close>: \<open>pkg/protocol\<close>; header codec, the 128-bit replay window against the
    specification that remembers every counter (locale \<open>replay_filter\<close> and its interpretation), sessions and the session table.
  \<^item> \<open>Ant_Primitives\<close>, \<open>Ant_Memory\<close>, \<open>Ant_Base64\<close>, \<open>Ant_SHA256\<close>, \<open>Ant_Keys\<close>, \<open>Ant_Cipher\<close>, \<open>Ant_Noise\<close>: \<open>pkg/crypto\<close> and
    \<open>pkg/security/memory.go\<close>.
  \<^item> \<open>Ant_Tunnel\<close>: two sessions over a network that loses, repeats and reorders.
  \<^item> \<open>Ant_Concurrent\<close>: goroutines that share a session, cut at their atomic accesses and run by arbitrary schedules.
  \<^item> \<open>Ant_Padding\<close>: \<open>pkg/obfuscation\<close>. \<open>Ant_Transport\<close>: \<open>pkg/transport\<close>.
  \<^item> \<open>Ant_Strings\<close>, \<open>Ant_Address\<close>: the parts of \<open>strings\<close>, \<open>strconv\<close> and \<open>net\<close> the code uses, the three copies of the address
    completion and the connection URL.
  \<^item> \<open>Ant_Tun\<close>, \<open>Ant_Firewall\<close>, \<open>Ant_Platform\<close>: \<open>pkg/tun\<close>, \<open>pkg/router\<close>, \<open>pkg/security/killswitch.go\<close>, the NAT set-up of the
    server, and the choice among the platforms.
  \<^item> \<open>Ant_Log\<close>: \<open>pkg/security/zero_log.go\<close>, with a matcher for its two regular expressions.
  \<^item> \<open>Ant_Server\<close>, \<open>Ant_Node\<close>: \<open>cmd/antserver\<close>; packet handler, peer table and egress, then \<open>main\<close>, its loops and its shutdown.
  \<^item> \<open>Ant_Client\<close>: \<open>cmd/antclient\<close>, and the locale \<open>tunnel_endpoint\<close>, the contract of a client: what it sends and what it delivers. It is
    interpreted for \<open>antclient\<close>, for the daemon and for the mobile engine, so that the lemmas about delivery are proved once.
  \<^item> \<open>Ant_IPC\<close>, \<open>Ant_Daemon\<close>: \<open>pkg/ipc\<close> and \<open>cmd/ant-daemon\<close>; the locale \<open>ipc_handler\<close> is the contract between them.
  \<^item> \<open>Ant_Mobile\<close>: \<open>pkg/mobile/bridge.go\<close>.
  \<^item> \<open>Ant_Sockets\<close>: how transports and the daemon's socket are opened (constructors of \<open>udp.go\<close> and \<open>websocket.go\<close>, \<open>ipc/client.go\<close>),
    the certificate of the server, \<open>LocalAddr\<close>, and the accept loops.
  \<^item> \<open>Ant_UI\<close>: \<open>cmd/ant-ui\<close>; the web handlers are verified against any \<open>ipc_handler\<close> and then against the daemon.
  \<^item> \<open>Ant_Life\<close>: the interface \<open>transport.Transport\<close> over its three implementations, with the locale \<open>closable_transport\<close> as the contract of
    \<open>Receive\<close> and \<open>Close\<close>, the loops that read it, the keepalive loop, and \<open>main\<close> of the daemon from the socket to the exit.
  \<^item> \<open>Ant_System\<close>: a client and the exit node joined by a network that keeps messages and their order.
  \<^item> this theory: properties that span the components.

  \<^bold>\<open>What is shown.\<close> Per component: round trips (header codec, padding, connection string, TLS frames), the replay window as
  a refinement, exact acceptance of \<open>DecryptPacket\<close> and of both handshake messages, well-formedness of buffers
  under every in-place operation, delivery over lossy and over orderly networks, uniqueness of nonces, absence of panics of the
  server handler and of the mobile bridge on any input, the daemon as a refinement of a two-state specification with a truthful
  status, the kill switch as a verdict on packets, redaction of addresses, when the endless loops return, what a
  shutdown of the server and of the daemon leaves, and that the desktop front end answers every request and does to the daemon only what its
  requests say. For concurrency: calls on a shared session are linearisable and return after three moves, and neither replay protection nor
  nonces depend on the schedule; closing a transport ends the loops that read it. Across components: a handshake gives paired sessions, and a client started with the server's
  key carries any mix of packets both ways.

  \<^bold>\<open>Bounds and fuel.\<close> No definition has fuel. Loops over input are recursive on it; \<open>for\<close> loops without a condition are
  \<open>run_rounds\<close>, a partial function whose \<open>None\<close> is that the loop never returns, with a theorem that says when it does. Counters are 64-bit words; the delivery theorems
  ask for at most \<open>2 ^ 64\<close> packets in a session, after which the code would reuse nonces.

  \<^bold>\<open>Not modelled.\<close> Log lines other than the logger itself; data races on single words (the unlocked read
  of the log level, of \<open>globalEngine\<close> outside \<open>StopTunnel\<close>); signing of the TLS certificate, listening, dialling and
  accepting themselves, which are calls into \<open>crypto/tls\<close>, \<open>net\<close> and \<open>net/http\<close> (their results are arguments); JSON encoding of
  IPC messages, which are passed as values, and parsing of command line flags; \<open>Name\<close>, \<open>MTU\<close> and \<open>Close\<close> of the devices,
  which are field reads and single system calls; the page \<open>index.html\<close>.
\<close>

section \<open>From the handshake to a working tunnel\<close>

text \<open>
  C2: A completed handshake gives a working tunnel in both directions. When initiator and responder run
  the Noise IK exchange with valid key pairs, both messages are accepted with their fixed sizes
  (108 and 52 bytes), the responder learns the initiator's static key, the initiator's ephemeral key is
  wiped, and the two sessions made from the resulting keys, for either cipher suite, are paired both
  ways: each one opens what the other seals and addresses the other's index.
\<close>

theorem handshake_establishes_tunnel:
  assumes A: "aead_ok P" and D: "dh_ok P" and ab: "length a = 32" "length b = 32"
    and g1: "GenerateKeyPair P r1 = Inr (e, epub)" and g2: "GenerateKeyPair P r2 = Inr (f, fpub)"
    and es: "SharedSecret P e (PublicKey_of P b) = Inr es" and ss: "SharedSecret P a (PublicKey_of P b) = Inr ss"
    and ee: "SharedSecret P e fpub = Inr ee" and se: "SharedSecret P a fpub = Inr se"
    and cs: "cs \<in> {CipherChaCha20Poly1305, CipherAESGCM}"
  shows "\<exists>ih msg ih1 resp sks rh skc ih2 cl sv.
      NewInitiatorHandshake P a (PublicKey_of P b) ci r1 = Inr ih
    \<and> CreateInitiation P ih now = (Inr msg, ih1) \<and> length msg = 108
    \<and> ConsumeInitiation P (NewResponderHandshake P b si) msg r2 = (Inr (resp, sks), rh)
    \<and> length resp = 52 \<and> PeerStaticKey rh = PublicKey_of P a
    \<and> ConsumeResponse P ih1 resp = (Inr skc, ih2) \<and> ih_ephemPriv ih2 = replicate 32 0
    \<and> NewSession skc a1 cs t1 = Inr cl \<and> NewSession sks a2 cs t2 = Inr sv
    \<and> LocalIndex cl = ci \<and> LocalIndex sv = si \<and> paired cl sv \<and> paired sv cl"
proof -
  from handshake_run [OF A D ab g1 g2 es ss ee se, of ci now si]
  obtain ih msg ih1 resp sks rh skc ih2 where h:
    "NewInitiatorHandshake P a (PublicKey_of P b) ci r1 = Inr ih"
    "CreateInitiation P ih now = (Inr msg, ih1)" "length msg = NoiseHandshakeInitSize"
    "ConsumeInitiation P (NewResponderHandshake P b si) msg r2 = (Inr (resp, sks), rh)"
    "length resp = NoiseHandshakeRespSize" "ConsumeResponse P ih1 resp = (Inr skc, ih2)"
    "SendKey skc = RecvKey sks" "RecvKey skc = SendKey sks"
    "length (SendKey skc) = 32" "length (RecvKey skc) = 32"
    "SenderID skc = ci" "PeerID skc = si" "SenderID sks = si" "PeerID sks = ci"
    "PeerStaticKey rh = PublicKey_of P a" "ih_ephemPriv ih2 = replicate 32 0" by blast
  obtain cl where cl: "NewSession skc a1 cs t1 = Inr cl" "LocalIndex cl = ci"
    using NewSession_Inr [of skc cs a1 t1] h cs by auto
  obtain sv where sv: "NewSession sks a2 cs t2 = Inr sv" "LocalIndex sv = si"
    using NewSession_Inr [of sks cs a2 t2] h cs by auto
  have "paired cl sv" "paired sv cl"
    using NewSession_paired [OF _ _ cl(1) sv(1)] NewSession_paired [OF _ _ sv(1) cl(1)] h by simp_all
  then show ?thesis using h cl sv by fastforce
qed

theorem handshake_establishes_tunnel_witness:
  "\<exists>ih msg ih1 resp sks rh skc ih2 cl sv.
      NewInitiatorHandshake demo_prims (replicate 32 2) (PublicKey_of demo_prims (replicate 32 3)) 11
        (Some (replicate 32 4)) = Inr ih
    \<and> CreateInitiation demo_prims ih 0 = (Inr msg, ih1)
    \<and> ConsumeInitiation demo_prims (NewResponderHandshake demo_prims (replicate 32 3) 22) msg
        (Some (replicate 32 5)) = (Inr (resp, sks), rh)
    \<and> ConsumeResponse demo_prims ih1 resp = (Inr skc, ih2)
    \<and> NewSession skc None CipherAESGCM 0 = Inr cl \<and> NewSession sks None CipherAESGCM 0 = Inr sv
    \<and> paired cl sv \<and> paired sv cl"
proof -
  obtain e epub f fpub where g: "GenerateKeyPair demo_prims (Some (replicate 32 4)) = Inr (e, epub)"
    "GenerateKeyPair demo_prims (Some (replicate 32 5)) = Inr (f, fpub)"
    "\<forall>k \<in> {e, replicate 32 2}. \<forall>u \<in> {fpub, PublicKey_of demo_prims (replicate 32 3)}.
       SharedSecret demo_prims k u = Inr (scalar_mult demo_prims k u)"
    by (rule demo_secrets)
  note ok = g(3) [rule_format]
  from handshake_establishes_tunnel [OF demo_aead_ok demo_dh_ok _ _ g(1,2) ok ok ok ok,
      of "replicate 32 2" "replicate 32 3" CipherAESGCM 11 0 22 None 0 None 0]
  show ?thesis by fastforce
qed

section \<open>The whole system\<close>





end
